(* ===== verification/Prelude.thy ===== *)
theory Prelude
  imports Main "HOL-Library.Word" "HOL-Library.Monad_Syntax"
begin

section \<open>Prelude: machine integers, time and generic lemmas\<close>

text \<open>
  What every component of the model shares: the reading of Go's fixed-width integers and
  of \<^verbatim>\<open>time.Duration\<close>, the collections of rewrite rules that the component
  theories extend, and the few lemmas on folds, maps and lists that several of them use.

  Go's \<^verbatim>\<open>int64\<close> is an \<open>int\<close> with the wrap-around written out (\<open>i64\<close>); bytes and
  counters whose bits matter are words.  A \<^verbatim>\<open>time.Duration\<close> is an \<^verbatim>\<open>int64\<close> number of
  nanoseconds and a \<^verbatim>\<open>time.Time\<close> is an unbounded number of nanoseconds since the Unix epoch.
\<close>

named_theorems wrap_simps \<open>removal of int64 wrap-around for values in range\<close>
named_theorems str_simps \<open>rewriting of the string functions\<close>
named_theorems valid_intros \<open>preservation of the validity predicates\<close>

type_synonym go_string = string
type_synonym bytes = "8 word list"
type_synonym time = int
type_synonym duration = int

subsection \<open>Signed 64-bit and 32-bit values\<close>

definition i64 :: "int \<Rightarrow> int" where
  "i64 x = (x + 2 ^ 63) mod 2 ^ 64 - 2 ^ 63"

definition in_i64 :: "int \<Rightarrow> bool" where
  "in_i64 x \<longleftrightarrow> - (2 ^ 63) \<le> x \<and> x < 2 ^ 63"

definition in_i32 :: "int \<Rightarrow> bool" where
  "in_i32 x \<longleftrightarrow> - (2 ^ 31) \<le> x \<and> x < 2 ^ 31"

definition in_u64 :: "int \<Rightarrow> bool" where
  "in_u64 x \<longleftrightarrow> 0 \<le> x \<and> x < 2 ^ 64"

lemma i64_in_range: "in_i64 (i64 x)"
proof -
  have "0 \<le> (x + 2 ^ 63) mod 2 ^ 64" and "(x + 2 ^ 63) mod 2 ^ 64 < (2 :: int) ^ 64"
    by simp_all
  then show ?thesis
    unfolding in_i64_def i64_def by simp
qed

lemma i64_id [wrap_simps]: "in_i64 x \<Longrightarrow> i64 x = x"
  unfolding in_i64_def i64_def by simp

lemma i64_idem [simp]: "i64 (i64 x) = i64 x"
  by (simp add: i64_id i64_in_range)

lemma i64_le [wrap_simps]: "- 9223372036854775808 \<le> x \<Longrightarrow> x \<le> 9223372036854775807 \<Longrightarrow> i64 x = x"
  by (rule i64_id) (simp add: in_i64_def)

lemma i64_lower: "- 9223372036854775808 \<le> i64 x"
  using i64_in_range [of x] by (simp add: in_i64_def)

lemma i64_upper: "i64 x \<le> 9223372036854775807"
  using i64_in_range [of x] by (simp add: in_i64_def)

subsection \<open>Durations\<close>

abbreviation second :: duration where
  "second \<equiv> 1000000000"

abbreviation minute :: duration where
  "minute \<equiv> 60000000000"

text \<open>
  \<^verbatim>\<open>time.Duration(n) * time.Second\<close> wraps like every \<^verbatim>\<open>int64\<close> product;
  \<^verbatim>\<open>t.Sub(u)\<close> saturates; \<^verbatim>\<open>t.Unix()\<close> is the number of whole seconds.
\<close>

definition seconds :: "int \<Rightarrow> duration" where
  "seconds n = i64 (n * second)"

definition time_sub :: "time \<Rightarrow> time \<Rightarrow> duration" where
  "time_sub t u = max (- (2 ^ 63)) (min (2 ^ 63 - 1) (t - u))"

definition unix :: "time \<Rightarrow> int" where
  "unix t = t div second"

lemma seconds_small [wrap_simps]:
  "- 9223372036 \<le> n \<Longrightarrow> n \<le> 9223372036 \<Longrightarrow> seconds n = n * second"
  unfolding seconds_def by (rule i64_le) simp_all

lemma time_sub_self [simp]: "time_sub t t = 0"
  by (simp add: time_sub_def)

lemma time_sub_ge:
  "d \<le> 9223372036854775807 \<Longrightarrow> - 9223372036854775808 < d \<Longrightarrow> d \<le> time_sub t u \<longleftrightarrow> d \<le> t - u"
  by (auto simp: time_sub_def)

subsection \<open>Folds and searches\<close>

lemma foldl_invariant:
  assumes "P s" and "\<And>s x. P s \<Longrightarrow> x \<in> set xs \<Longrightarrow> P (f s x)"
  shows "P (foldl f s xs)"
  using assms by (induction xs arbitrary: s) auto

lemma find_Some_iff_distinct:
  "find P xs = Some x \<Longrightarrow> P x \<and> x \<in> set xs"
  by (auto simp: find_Some_iff)

lemma map_le_fun_upd_new: "k \<notin> dom m \<Longrightarrow> m \<subseteq>\<^sub>m m(k \<mapsto> v)"
  by (auto simp: map_le_def)

lemma append_Cons_eq_split:
  "xs = ys @ z # zs \<Longrightarrow> z \<in> set xs"
  by simp

end
