(* ===== verification/Go_Strings.thy ===== *)
theory Go_Strings
  imports Prelude
begin

section \<open>Strings and bytes of the Go standard library\<close>

text \<open>
  The functions of \<^verbatim>\<open>strings\<close>, \<^verbatim>\<open>strconv\<close>, \<^verbatim>\<open>fmt\<close> and \<^verbatim>\<open>encoding/hex\<close> that the program
  calls.  A Go string is a sequence of bytes, which is what Isabelle's \<open>string\<close> is (a
  \<open>char\<close> is a byte).  Case mapping (\<open>to_lower\<close>, \<open>to_upper\<close>, \<open>equal_fold\<close>) is Go's ASCII
  path, which is exact for the identifiers the program handles (MAC addresses, DIDs,
  models, discovery modes); a byte outside ASCII is left as it is.  \<open>trim_space\<close> removes
  every Unicode white space character, each given by its UTF-8 byte sequence.
\<close>

subsection \<open>Characters\<close>

definition char_code :: "char \<Rightarrow> nat" where
  "char_code c = of_char c"

definition lower_char :: "char \<Rightarrow> char" where
  "lower_char c = (if 65 \<le> char_code c \<and> char_code c \<le> 90 then char_of (char_code c + 32) else c)"

definition upper_char :: "char \<Rightarrow> char" where
  "upper_char c = (if 97 \<le> char_code c \<and> char_code c \<le> 122 then char_of (char_code c - 32) else c)"

definition is_digit :: "char \<Rightarrow> bool" where
  "is_digit c \<longleftrightarrow> 48 \<le> char_code c \<and> char_code c \<le> 57"

definition is_hex :: "char \<Rightarrow> bool" where
  "is_hex c \<longleftrightarrow> is_digit c \<or> (97 \<le> char_code c \<and> char_code c \<le> 102)
     \<or> (65 \<le> char_code c \<and> char_code c \<le> 70)"

text \<open>A digit of a lower-case MAC address: \<^verbatim>\<open>[0-9a-f]\<close>.\<close>

definition is_lower_hex :: "char \<Rightarrow> bool" where
  "is_lower_hex c \<longleftrightarrow> is_digit c \<or> (97 \<le> char_code c \<and> char_code c \<le> 102)"

definition hex_val :: "char \<Rightarrow> nat" where
  "hex_val c = (if is_digit c then char_code c - 48
     else if 97 \<le> char_code c then char_code c - 87 else char_code c - 55)"

lemma char_code_less [simp]: "char_code c < 256"
  by (simp add: char_code_def)

lemma char_code_char_of: "n < 256 \<Longrightarrow> char_code (char_of n) = n"
  by (simp add: char_code_def of_char_of)

lemma char_code_inject: "char_code c = char_code d \<longleftrightarrow> c = d"
  by (simp add: char_code_def of_char_eq_iff)

lemma char_code_lower:
  "char_code (lower_char c) =
     (if 65 \<le> char_code c \<and> char_code c \<le> 90 then char_code c + 32 else char_code c)"
  by (simp add: lower_char_def char_code_char_of)

lemma lower_char_idem [simp]: "lower_char (lower_char c) = lower_char c"
  by (simp add: char_code_inject [symmetric] char_code_lower)

lemma is_hex_lower_char [simp]: "is_hex (lower_char c) = is_hex c"
  by (auto simp: is_hex_def is_digit_def char_code_lower)

lemma is_lower_hex_lower_char: "is_hex c \<Longrightarrow> is_lower_hex (lower_char c)"
  by (auto simp: is_hex_def is_lower_hex_def is_digit_def char_code_lower)

lemma lower_char_lower_hex [simp]: "is_lower_hex c \<Longrightarrow> lower_char c = c"
  by (auto simp: is_lower_hex_def is_digit_def char_code_inject [symmetric] char_code_lower)

lemma is_lower_hex_is_hex: "is_lower_hex c \<Longrightarrow> is_hex c"
  by (auto simp: is_lower_hex_def is_hex_def)

lemma not_hex_colon [simp]: "\<not> is_hex (CHR '':'')"
  by (simp add: is_hex_def is_digit_def char_code_def)

subsection \<open>Case mapping and comparison\<close>

definition to_lower :: "go_string \<Rightarrow> go_string" where
  "to_lower = map lower_char"

definition to_upper :: "go_string \<Rightarrow> go_string" where
  "to_upper = map upper_char"

definition equal_fold :: "go_string \<Rightarrow> go_string \<Rightarrow> bool" where
  "equal_fold s t \<longleftrightarrow> to_lower s = to_lower t"

lemma to_lower_idem [simp]: "to_lower (to_lower s) = to_lower s"
  by (simp add: to_lower_def)

lemma to_lower_Nil [simp]: "to_lower [] = []"
  by (simp add: to_lower_def)

lemma to_lower_eq_Nil [simp]: "to_lower s = [] \<longleftrightarrow> s = []"
  by (simp add: to_lower_def)

lemma length_to_lower [simp]: "length (to_lower s) = length s"
  by (simp add: to_lower_def)

lemma to_lower_append: "to_lower (s @ t) = to_lower s @ to_lower t"
  by (simp add: to_lower_def)

lemma filter_hex_to_lower: "filter is_hex (to_lower s) = to_lower (filter is_hex s)"
  by (induction s) (simp_all add: to_lower_def)

lemma equal_fold_refl [simp]: "equal_fold s s"
  by (simp add: equal_fold_def)

lemma equal_fold_sym: "equal_fold s t = equal_fold t s"
  by (auto simp: equal_fold_def)

subsection \<open>Prefixes and trimming\<close>

fun strip_prefix :: "go_string \<Rightarrow> go_string \<Rightarrow> go_string option" where
  "strip_prefix [] s = Some s"
| "strip_prefix (p # ps) [] = None"
| "strip_prefix (p # ps) (c # s) = (if p = c then strip_prefix ps s else None)"

definition has_prefix :: "go_string \<Rightarrow> go_string \<Rightarrow> bool" where
  "has_prefix s p \<longleftrightarrow> strip_prefix p s \<noteq> None"

definition trim_prefix :: "go_string \<Rightarrow> go_string \<Rightarrow> go_string" where
  "trim_prefix s p = (case strip_prefix p s of None \<Rightarrow> s | Some r \<Rightarrow> r)"

lemma strip_prefix_Some: "strip_prefix p s = Some r \<longleftrightarrow> s = p @ r"
  by (induction p s rule: strip_prefix.induct) auto

lemma has_prefix_iff: "has_prefix s p \<longleftrightarrow> (\<exists>r. s = p @ r)"
  by (auto simp: has_prefix_def strip_prefix_Some)

lemma trim_prefix_append [simp]: "trim_prefix (p @ r) p = r"
proof -
  have "strip_prefix p (p @ r) = Some r"
    by (simp add: strip_prefix_Some)
  then show ?thesis
    by (simp add: trim_prefix_def)
qed

text \<open>
  The white space characters of Unicode in UTF-8: the six ASCII ones, U+0085, U+00A0,
  U+1680, U+2000 to U+200A, U+2028, U+2029, U+202F, U+205F and U+3000.
\<close>

definition space_codes :: "nat list list" where
  "space_codes = [[9], [10], [11], [12], [13], [32], [194, 133], [194, 160], [225, 154, 128],
     [226, 128, 128], [226, 128, 129], [226, 128, 130], [226, 128, 131], [226, 128, 132],
     [226, 128, 133], [226, 128, 134], [226, 128, 135], [226, 128, 136], [226, 128, 137],
     [226, 128, 138], [226, 128, 168], [226, 128, 169], [226, 128, 175], [226, 129, 159],
     [227, 128, 128]]"

definition space_seqs :: "go_string list" where
  "space_seqs = map (map char_of) space_codes"

fun strip_any :: "go_string list \<Rightarrow> go_string \<Rightarrow> go_string option" where
  "strip_any [] s = None"
| "strip_any (p # ps) s = (case strip_prefix p s of Some r \<Rightarrow> Some r | None \<Rightarrow> strip_any ps s)"

lemma strip_any_Some: "strip_any ps s = Some r \<Longrightarrow> \<exists>p \<in> set ps. s = p @ r"
  by (induction ps) (auto simp: strip_prefix_Some split: option.splits)

lemma strip_any_None: "strip_any ps s = None \<longleftrightarrow> (\<forall>p \<in> set ps. \<forall>r. s \<noteq> p @ r)"
  by (induction ps) (auto split: option.splits simp: strip_prefix_Some,
      metis not_None_eq strip_prefix_Some)

text \<open>Dropping leading sequences; the empty sequence is never one of \<open>ps\<close>.\<close>

function trim_leading :: "go_string list \<Rightarrow> go_string \<Rightarrow> go_string" where
  "trim_leading ps s =
     (case strip_any ps s of
        None \<Rightarrow> s
      | Some r \<Rightarrow> if length r < length s then trim_leading ps r else s)"
  by pat_completeness auto
termination
  by (relation "measure (\<lambda>(ps, s). length s)") auto

declare trim_leading.simps [simp del]

lemma trim_leading_None: "strip_any ps s = None \<Longrightarrow> trim_leading ps s = s"
  by (simp add: trim_leading.simps [of ps s])

lemma trim_leading_Some:
  "strip_any ps s = Some r \<Longrightarrow>
     trim_leading ps s = (if length r < length s then trim_leading ps r else s)"
  by (simp add: trim_leading.simps [of ps s])

definition trim_left :: "go_string \<Rightarrow> go_string" where
  "trim_left s = trim_leading space_seqs s"

definition trim_right :: "go_string \<Rightarrow> go_string" where
  "trim_right s = rev (trim_leading (map rev space_seqs) (rev s))"

definition trim_space :: "go_string \<Rightarrow> go_string" where
  "trim_space s = trim_right (trim_left s)"


text \<open>
  Two facts about trimming are used below: nothing is left to trim in the result, and
  trimming neither adds hexadecimal digits nor removes any.
\<close>

definition no_lead :: "go_string list \<Rightarrow> go_string \<Rightarrow> bool" where
  "no_lead ps s \<longleftrightarrow> (\<forall>p \<in> set ps. \<forall>r. s \<noteq> p @ r)"

lemma trim_leading_no_lead:
  assumes "[] \<notin> set ps"
  shows "no_lead ps (trim_leading ps s)"
  using assms
proof (induction ps s rule: trim_leading.induct)
  case (1 ps s)
  show ?case
  proof (cases "strip_any ps s")
    case None
    then show ?thesis
      by (simp add: trim_leading_None strip_any_None no_lead_def)
  next
    case (Some r)
    then obtain p where "p \<in> set ps" and "s = p @ r"
      using strip_any_Some by blast
    with "1.prems" have "length r < length s"
      by (cases p) auto
    with "1" Some show ?thesis
      by (simp add: trim_leading_Some)
  qed
qed

lemma trim_leading_id: "no_lead ps s \<Longrightarrow> trim_leading ps s = s"
  by (rule trim_leading_None) (simp add: no_lead_def strip_any_None)

lemma trim_leading_suffix: "\<exists>q. s = q @ trim_leading ps s"
proof (induction ps s rule: trim_leading.induct)
  case (1 ps s)
  show ?case
  proof (cases "strip_any ps s")
    case None
    then show ?thesis
      by (simp add: trim_leading_None)
  next
    case (Some r)
    then obtain p where s: "s = p @ r"
      using strip_any_Some by blast
    obtain q where "length r < length s \<longrightarrow> r = q @ trim_leading ps r"
      using "1" Some by blast
    then have "s = (if length r < length s then p @ q else []) @ trim_leading ps s"
      using Some s by (auto simp: trim_leading_Some)
    then show ?thesis
      by blast
  qed
qed

lemma space_seqs_nonempty [simp]: "[] \<notin> set space_seqs"
  by (simp add: space_seqs_def space_codes_def)

lemma trim_right_prefix: "\<exists>q. s = trim_right s @ q"
proof -
  obtain q where "rev s = q @ trim_leading (map rev space_seqs) (rev s)"
    using trim_leading_suffix by blast
  then have "s = rev (trim_leading (map rev space_seqs) (rev s)) @ rev q"
    by (metis rev_append rev_rev_ident)
  then show ?thesis
    unfolding trim_right_def by blast
qed

lemma no_lead_trim_right:
  assumes "no_lead space_seqs s"
  shows "no_lead space_seqs (trim_right s)"
proof -
  obtain q where "s = trim_right s @ q"
    using trim_right_prefix by blast
  with assms show ?thesis
    unfolding no_lead_def by (metis append.assoc)
qed

lemma trim_right_idem [simp]: "trim_right (trim_right s) = trim_right s"
proof -
  have "no_lead (map rev space_seqs) (trim_leading (map rev space_seqs) (rev s))"
    by (rule trim_leading_no_lead) (simp add: image_iff)
  then show ?thesis
    by (simp add: trim_right_def trim_leading_id)
qed

lemma trim_space_fixpoint: "no_lead space_seqs (trim_space s)"
  unfolding trim_space_def trim_left_def
  by (intro no_lead_trim_right trim_leading_no_lead space_seqs_nonempty)

lemma trim_space_idem [simp]: "trim_space (trim_space s) = trim_space s"
  using trim_space_fixpoint [of s]
  by (simp add: trim_space_def [of "trim_space s"] trim_left_def trim_leading_id)
     (simp add: trim_space_def)

lemma trim_space_Nil [simp]: "trim_space [] = []"
proof -
  have lead: "no_lead ps []" if "[] \<notin> set ps" for ps
    using that by (auto simp: no_lead_def)
  show ?thesis
    by (simp add: trim_space_def trim_left_def trim_right_def trim_leading_id lead image_iff)
qed

subsection \<open>Trimming and letters\<close>

text \<open>
  No white space sequence holds a hexadecimal digit or a letter, so trimming commutes with
  lower-casing and keeps every hexadecimal digit.
\<close>

definition caseless :: "char \<Rightarrow> bool" where
  "caseless c \<longleftrightarrow> \<not> is_hex c \<and> \<not> (65 \<le> char_code c \<and> char_code c \<le> 90)
     \<and> \<not> (97 \<le> char_code c \<and> char_code c \<le> 122)"

lemma space_seqs_caseless: "p \<in> set space_seqs \<Longrightarrow> c \<in> set p \<Longrightarrow> caseless c"
  by (auto simp: space_seqs_def space_codes_def caseless_def is_hex_def is_digit_def
      char_code_char_of)

lemma lower_char_eq_caseless: "caseless c \<Longrightarrow> lower_char d = c \<longleftrightarrow> d = c"
  by (auto simp: caseless_def char_code_inject [symmetric] char_code_lower split: if_splits)

lemma strip_prefix_to_lower:
  "\<forall>c \<in> set p. caseless c \<Longrightarrow> strip_prefix p (to_lower s) = map_option to_lower (strip_prefix p s)"
  by (induction p s rule: strip_prefix.induct)
     (auto simp: to_lower_def lower_char_eq_caseless [THEN iffD2]
       dest: lower_char_eq_caseless [THEN iffD1, rotated] lower_char_eq_caseless [THEN iffD1, OF _ sym])

lemma strip_any_to_lower:
  "\<forall>p \<in> set ps. \<forall>c \<in> set p. caseless c \<Longrightarrow>
     strip_any ps (to_lower s) = map_option to_lower (strip_any ps s)"
  by (induction ps) (auto simp: strip_prefix_to_lower split: option.splits)

lemma trim_leading_to_lower:
  assumes "\<forall>p \<in> set ps. \<forall>c \<in> set p. caseless c"
  shows "trim_leading ps (to_lower s) = to_lower (trim_leading ps s)"
  using assms
proof (induction ps s rule: trim_leading.induct)
  case (1 ps s)
  then show ?case
    by (cases "strip_any ps s")
       (simp_all add: trim_leading_None trim_leading_Some strip_any_to_lower length_to_lower)
qed

lemma trim_space_to_lower: "trim_space (to_lower s) = to_lower (trim_space s)"
proof -
  have lead: "trim_leading space_seqs (to_lower t) = to_lower (trim_leading space_seqs t)" for t
    by (rule trim_leading_to_lower) (auto intro: space_seqs_caseless)
  have trail: "trim_leading (map rev space_seqs) (to_lower t)
      = to_lower (trim_leading (map rev space_seqs) t)" for t
    by (rule trim_leading_to_lower) (auto intro: space_seqs_caseless)
  have "rev (to_lower t) = to_lower (rev t)" for t
    by (simp add: to_lower_def rev_map)
  then show ?thesis
    by (simp add: trim_space_def trim_left_def trim_right_def lead trail)
qed

lemma filter_hex_trim_leading:
  assumes "\<forall>p \<in> set ps. \<forall>c \<in> set p. caseless c"
  shows "filter is_hex (trim_leading ps s) = filter is_hex s"
  using assms
proof (induction ps s rule: trim_leading.induct)
  case (1 ps s)
  show ?case
  proof (cases "strip_any ps s")
    case None
    then show ?thesis
      by (simp add: trim_leading_None)
  next
    case (Some r)
    then obtain p where "p \<in> set ps" and s: "s = p @ r"
      using strip_any_Some by blast
    then have "filter is_hex p = []"
      using "1.prems" by (auto simp: filter_empty_conv caseless_def)
    then have "filter is_hex s = filter is_hex r"
      using s by simp
    with "1" Some show ?thesis
      by (simp add: trim_leading_Some)
  qed
qed

lemma filter_hex_trim_space [simp]: "filter is_hex (trim_space s) = filter is_hex s"
proof -
  have "filter is_hex (trim_leading space_seqs t) = filter is_hex t" for t
    by (rule filter_hex_trim_leading) (auto intro: space_seqs_caseless)
  moreover have "filter is_hex (trim_leading (map rev space_seqs) t) = filter is_hex t" for t
    by (rule filter_hex_trim_leading) (auto intro: space_seqs_caseless)
  ultimately show ?thesis
    by (simp add: trim_space_def trim_left_def trim_right_def rev_filter [symmetric])
qed

subsection \<open>Trimming closed strings\<close>

definition space_heads :: "nat list" where
  "space_heads = [9, 10, 11, 12, 13, 32, 194, 225, 226, 227]"

definition space_lasts :: "nat list" where
  "space_lasts = [9, 10, 11, 12, 13, 32, 133, 160, 128, 129, 130, 131, 132, 134, 135, 136, 137,
     138, 168, 169, 175, 159]"

lemma space_seqs_ends:
  "p \<in> set space_seqs \<Longrightarrow> char_code (hd p) \<in> set space_heads \<and> char_code (last p) \<in> set space_lasts"
  by (auto simp: space_seqs_def space_codes_def space_heads_def space_lasts_def char_code_char_of)

lemma no_lead_by_head:
  assumes "s \<noteq> []" and "char_code (hd s) \<notin> set space_heads"
  shows "no_lead space_seqs s"
  unfolding no_lead_def
proof (intro ballI allI notI)
  fix p r
  assume p: "p \<in> set space_seqs" and "s = p @ r"
  moreover have "p \<noteq> []"
    using p space_seqs_nonempty by blast
  ultimately show False
    using space_seqs_ends [OF p] assms(2) by simp
qed

lemma no_lead_rev_by_last:
  assumes "s \<noteq> []" and "char_code (last s) \<notin> set space_lasts"
  shows "no_lead (map rev space_seqs) (rev s)"
  unfolding no_lead_def
proof (intro ballI allI notI)
  fix q r
  assume "q \<in> set (map rev space_seqs)" and eq: "rev s = q @ r"
  then obtain p where p: "p \<in> set space_seqs" and q: "q = rev p"
    by auto
  have "s = rev r @ p"
    using eq q by (metis rev_append rev_rev_ident)
  moreover have "p \<noteq> []"
    using p space_seqs_nonempty by blast
  ultimately show False
    using space_seqs_ends [OF p] assms(2) by simp
qed

lemma trim_space_closed:
  assumes "s \<noteq> []" and "char_code (hd s) \<notin> set space_heads" and "char_code (last s) \<notin> set space_lasts"
  shows "trim_space s = s"
  using no_lead_by_head [OF assms(1,2)] no_lead_rev_by_last [OF assms(1,3)]
  by (simp add: trim_space_def trim_left_def trim_right_def trim_leading_id)

end
