(* ===== verification/Go_Text.thy ===== *)
theory Go_Text
  imports Go_Strings
begin

section \<open>Numbers in text, hexadecimal data and MAC addresses\<close>

text \<open>
  \<^verbatim>\<open>strconv.Itoa\<close> and \<^verbatim>\<open>strconv.ParseInt\<close> in base ten, \<^verbatim>\<open>strings.Join\<close>,
  \<^verbatim>\<open>hex.DecodeString\<close>, and the two functions called \<^verbatim>\<open>NormalizeMAC\<close>, of which the program
  has one in \<^verbatim>\<open>internal/openmiio/parser.go\<close> (a loop over the bytes) and one in
  \<^verbatim>\<open>internal/config/config.go\<close> (a regular expression).
\<close>

subsection \<open>Decimal numbers\<close>

definition digit_char :: "nat \<Rightarrow> char" where
  "digit_char d = char_of (48 + d)"

definition digit_val :: "char \<Rightarrow> nat" where
  "digit_val c = char_code c - 48"

fun itoa_nat :: "nat \<Rightarrow> go_string" where
  "itoa_nat n = (if n < 10 then [digit_char n] else itoa_nat (n div 10) @ [digit_char (n mod 10)])"

declare itoa_nat.simps [simp del]

definition itoa :: "int \<Rightarrow> go_string" where
  "itoa n = (if n < 0 then CHR ''-'' # itoa_nat (nat (- n)) else itoa_nat (nat n))"

fun digits_val :: "nat \<Rightarrow> go_string \<Rightarrow> nat" where
  "digits_val acc [] = acc"
| "digits_val acc (c # s) = digits_val (10 * acc + digit_val c) s"

definition parse_nat :: "go_string \<Rightarrow> nat option" where
  "parse_nat s = (if s \<noteq> [] \<and> list_all is_digit s then Some (digits_val 0 s) else None)"

text \<open>\<^verbatim>\<open>ParseInt(s, 10, _)\<close> on the text of a JSON number, before the range check.\<close>

definition parse_int :: "go_string \<Rightarrow> int option" where
  "parse_int s =
     (case s of
        [] \<Rightarrow> None
      | c # r \<Rightarrow> if c = CHR ''-'' then map_option (\<lambda>n. - int n) (parse_nat r)
                else map_option int (parse_nat s))"

lemma digit_char_props: "d < 10 \<Longrightarrow> is_digit (digit_char d) \<and> digit_val (digit_char d) = d"
  by (simp add: is_digit_def digit_char_def digit_val_def char_code_char_of)

lemma digits_val_append: "digits_val acc (s @ [c]) = 10 * digits_val acc s + digit_val c"
  by (induction s arbitrary: acc) simp_all

lemma itoa_nat_digits: "itoa_nat n \<noteq> [] \<and> list_all is_digit (itoa_nat n) \<and> digits_val 0 (itoa_nat n) = n"
proof (induction n rule: itoa_nat.induct)
  case (1 n)
  show ?case
  proof (cases "n < 10")
    case True
    then show ?thesis
      by (simp add: itoa_nat.simps [of n] digit_char_props)
  next
    case False
    with "1" show ?thesis
      by (simp add: itoa_nat.simps [of n] digit_char_props digits_val_append)
  qed
qed

lemma parse_nat_itoa_nat [simp]: "parse_nat (itoa_nat n) = Some n"
  by (simp add: parse_nat_def itoa_nat_digits)

lemma parse_int_itoa [simp]: "parse_int (itoa n) = Some n"
proof (cases "n < 0")
  case True
  then show ?thesis
    by (simp add: itoa_def parse_int_def)
next
  case False
  obtain c s where cs: "itoa_nat (nat n) = c # s" and "is_digit c"
    using itoa_nat_digits [of "nat n"] by (cases "itoa_nat (nat n)") auto
  then have "c \<noteq> CHR ''-''"
    by (auto simp: is_digit_def char_code_def)
  with False cs parse_nat_itoa_nat [of "nat n"] show ?thesis
    by (simp add: itoa_def parse_int_def)
qed

lemma itoa_inject [simp]: "itoa m = itoa n \<longleftrightarrow> m = n"
  by (metis option.inject parse_int_itoa)

subsection \<open>Joining\<close>

fun join :: "go_string list \<Rightarrow> go_string \<Rightarrow> go_string" where
  "join [] sep = []"
| "join [s] sep = s"
| "join (s # t # ss) sep = s @ sep @ join (t # ss) sep"

subsection \<open>Hexadecimal data\<close>

text \<open>
  \<^verbatim>\<open>hex.DecodeString\<close>: two digits of either case per byte; any other character and an odd
  length are errors (\<open>None\<close>).
\<close>

fun decode_hex :: "go_string \<Rightarrow> bytes option" where
  "decode_hex [] = Some []"
| "decode_hex [c] = None"
| "decode_hex (c # d # s) =
     (if is_hex c \<and> is_hex d
      then map_option (\<lambda>bs. word_of_nat (16 * hex_val c + hex_val d) # bs) (decode_hex s)
      else None)"

definition hex_digit :: "nat \<Rightarrow> char" where
  "hex_digit n = char_of (if n < 10 then 48 + n else 87 + n)"

fun encode_hex :: "bytes \<Rightarrow> go_string" where
  "encode_hex [] = []"
| "encode_hex (b # bs) = hex_digit (unat b div 16) # hex_digit (unat b mod 16) # encode_hex bs"

lemma hex_digit_props: "n < 16 \<Longrightarrow> is_hex (hex_digit n) \<and> hex_val (hex_digit n) = n"
  by (auto simp: hex_digit_def is_hex_def is_digit_def hex_val_def char_code_char_of)

lemma decode_hex_encode_hex [simp]: "decode_hex (encode_hex bs) = Some bs"
proof (induction bs)
  case Nil
  then show ?case by simp
next
  case (Cons b bs)
  have "unat b < 256"
    using unsigned_less [of b, where ?'a = nat] by simp
  then have "unat b div 16 < 16"
    by (simp add: less_mult_imp_div_less)
  with Cons show ?case
    by (simp add: hex_digit_props)
qed

lemma decode_hex_length: "decode_hex s = Some bs \<Longrightarrow> length s = 2 * length bs"
  by (induction s arbitrary: bs rule: decode_hex.induct) (auto split: if_splits)

subsection \<open>MAC addresses\<close>

text \<open>\<^verbatim>\<open>internal/openmiio/parser.go\<close>: the loop collects the hexadecimal characters.\<close>

fun collect_hex :: "go_string \<Rightarrow> go_string \<Rightarrow> go_string" where
  "collect_hex hexChars [] = hexChars"
| "collect_hex hexChars (c # s) =
     (if is_hex c then collect_hex (hexChars @ [c]) s else collect_hex hexChars s)"

definition mac_parts :: "go_string \<Rightarrow> go_string list" where
  "mac_parts hexChars = map (\<lambda>i. to_lower (take 2 (drop (2 * i) hexChars))) [0..<6]"

definition NormalizeMAC :: "go_string \<Rightarrow> go_string" where
  "NormalizeMAC s =
     (let hexChars = collect_hex [] s
      in if length hexChars \<noteq> 12 then to_lower (trim_space s)
         else join (mac_parts hexChars) '':'')"

text \<open>\<^verbatim>\<open>internal/config/config.go\<close>: everything but hexadecimal digits is replaced by nothing.\<close>

definition config_NormalizeMAC :: "go_string \<Rightarrow> go_string" where
  "config_NormalizeMAC s =
     (let hex = filter is_hex s
      in if length hex \<noteq> 12 then to_lower (trim_space s)
         else join (map (\<lambda>i. to_lower (take 2 (drop (i * 2) hex))) [0..<6]) '':'')"

text \<open>The form of a MAC address the program accepts, \<^verbatim>\<open>^([0-9a-f]{2}:){5}[0-9a-f]{2}$\<close>.\<close>

fun is_mac_groups :: "nat \<Rightarrow> go_string \<Rightarrow> bool" where
  "is_mac_groups 0 s = False"
| "is_mac_groups (Suc 0) s = (length s = 2 \<and> list_all is_lower_hex s)"
| "is_mac_groups (Suc (Suc n)) s =
     (length s > 3 \<and> list_all is_lower_hex (take 2 s) \<and> s ! 2 = CHR '':'' \<and> is_mac_groups (Suc n) (drop 3 s))"

definition valid_mac :: "go_string \<Rightarrow> bool" where
  "valid_mac s = is_mac_groups 6 s"

lemma collect_hex_filter: "collect_hex acc s = acc @ filter is_hex s"
  by (induction s arbitrary: acc) simp_all

lemma length_12_cases:
  assumes "length (h :: 'a list) = 12"
  obtains a b c d e f g i j k l m where "h = [a, b, c, d, e, f, g, i, j, k, l, m]"
  using assms by (auto simp: length_Suc_conv eval_nat_numeral)

lemma mac_parts_explicit:
  "join (mac_parts [a, b, c, d, e, f, g, h, i, j, k, l]) '':'' =
     map lower_char [a, b] @ '':'' @ map lower_char [c, d] @ '':'' @ map lower_char [e, f] @ '':''
     @ map lower_char [g, h] @ '':'' @ map lower_char [i, j] @ '':'' @ map lower_char [k, l]"
  by (simp add: mac_parts_def to_lower_def upt_rec)

lemma filter_hex_mac:
  assumes "length h = 12" and "list_all is_hex h"
  shows "filter is_hex (join (mac_parts h) '':'') = to_lower h"
    and "valid_mac (join (mac_parts h) '':'')"
proof -
  obtain a b c d e f g i j k l m where h: "h = [a, b, c, d, e, f, g, i, j, k, l, m]"
    using assms(1) by (rule length_12_cases)
  show "filter is_hex (join (mac_parts h) '':'') = to_lower h"
    using assms(2) unfolding h mac_parts_explicit by (simp add: to_lower_def)
  show "valid_mac (join (mac_parts h) '':'')"
    using assms(2) unfolding h mac_parts_explicit
    by (simp add: valid_mac_def is_lower_hex_lower_char eval_nat_numeral)
qed

lemma mac_parts_to_lower: "mac_parts (to_lower h) = mac_parts h"
  by (simp add: mac_parts_def to_lower_def take_map drop_map)

lemma NormalizeMAC_filter:
  "NormalizeMAC s = (if length (filter is_hex s) \<noteq> 12 then to_lower (trim_space s)
     else join (mac_parts (filter is_hex s)) '':'')"
  by (simp add: NormalizeMAC_def collect_hex_filter Let_def)

lemma NormalizeMAC_valid:
  "length (filter is_hex s) = 12 \<Longrightarrow> valid_mac (NormalizeMAC s)"
  by (simp add: NormalizeMAC_filter filter_hex_mac list_all_iff)

lemma NormalizeMAC_fixpoint [simp]: "NormalizeMAC (NormalizeMAC s) = NormalizeMAC s"
proof (cases "length (filter is_hex s) = 12")
  case True
  let ?n = "join (mac_parts (filter is_hex s)) '':''"
  have n: "filter is_hex ?n = to_lower (filter is_hex s)"
    using True by (simp add: filter_hex_mac list_all_iff)
  then have "NormalizeMAC ?n = ?n"
    using True by (simp add: NormalizeMAC_filter [of ?n] mac_parts_to_lower)
  with True show ?thesis
    by (simp add: NormalizeMAC_filter [of s])
next
  case False
  then have "NormalizeMAC s = to_lower (trim_space s)"
    by (simp add: NormalizeMAC_filter)
  with False show ?thesis
    by (simp add: NormalizeMAC_filter filter_hex_to_lower trim_space_to_lower)
qed

lemma NormalizeMAC_Nil [simp]: "NormalizeMAC [] = []"
  by (simp add: NormalizeMAC_def)

lemma config_NormalizeMAC_eq: "config_NormalizeMAC s = NormalizeMAC s"
  by (simp add: config_NormalizeMAC_def NormalizeMAC_filter mac_parts_def Let_def mult.commute)

lemma valid_mac_nonempty: "valid_mac s \<Longrightarrow> s \<noteq> []"
  by (auto simp: valid_mac_def eval_nat_numeral)

end
