(* ===== verification/Go_Float.thy ===== *)
theory Go_Float
  imports Complex_Main Go_Text "HOL-Library.Log_Nat"
begin

section \<open>IEEE-754 values as the program uses them\<close>

text \<open>
  A \<^verbatim>\<open>float64\<close> is a finite rational, an infinity or NaN.  Every operation of the program is
  the exact rational operation followed by \<open>fl64\<close>, rounding to nearest with ties to even at 53
  bits, with gradual underflow (smallest exponent -1074) and overflow to an infinity.  The two
  zeros are one value: Go's comparisons do not tell them apart and the program never divides by
  a measured value.

  \<^verbatim>\<open>math.Float32frombits\<close> is decoded bit by bit; \<^verbatim>\<open>strconv.ParseFloat\<close> is modelled on the
  texts the program passes to it, which are JSON number literals.
\<close>

datatype f64 = Fin rat | Inf (negative: bool) | NaN

subsection \<open>Powers of two and binary logarithms\<close>

definition pow2 :: "int \<Rightarrow> rat" where
  "pow2 e = (if 0 \<le> e then 2 ^ nat e else 1 / 2 ^ nat (- e))"

definition ilog2 :: "rat \<Rightarrow> int" where
  "ilog2 q =
     (let k = bitlen (fst (quotient_of q)) - bitlen (snd (quotient_of q))
      in if pow2 k \<le> q then k else k - 1)"

lemma pow2_powi: "pow2 e = 2 powi e"
  by (simp add: pow2_def power_int_def field_simps)

lemma pow2_pos [simp]: "0 < pow2 e"
  by (simp add: pow2_def)

lemma pow2_nonzero [simp]: "pow2 e \<noteq> 0"
  using pow2_pos [of e] by linarith

lemma pow2_nonneg [simp]: "0 \<le> pow2 e"
  using pow2_pos [of e] by linarith

lemma abs_pow2 [simp]: "\<bar>pow2 e\<bar> = pow2 e"
  by simp

lemma pow2_add: "pow2 (d + e) = pow2 d * pow2 e"
  by (simp add: pow2_powi power_int_add)

lemma pow2_mono: "d \<le> e \<Longrightarrow> pow2 d \<le> pow2 e"
  by (simp add: pow2_powi power_int_increasing)

lemma pow2_strict_mono: "d < e \<Longrightarrow> pow2 d < pow2 e"
  by (simp add: pow2_powi power_int_strict_increasing)

lemma pow2_less_iff: "pow2 d < pow2 e \<longleftrightarrow> d < e"
  by (metis linorder_neqE_linordered_idom not_less_iff_gr_or_eq pow2_strict_mono)

lemma pow2_nat [simp]: "pow2 (int n) = 2 ^ n"
  by (simp add: pow2_def)

lemma bitlen_pow2_bounds:
  assumes "0 < a"
  shows "pow2 (bitlen a - 1) \<le> of_int a" and "of_int a < pow2 (bitlen a)"
proof -
  have b: "2 ^ nat (bitlen a - 1) \<le> a \<and> a < 2 ^ nat (bitlen a)"
    using assms by (rule bitlen_bounds)
  have pos: "0 < bitlen a"
    using assms bitlen_nonneg [of a] bitlen_eq_zero_iff [of a] by linarith
  have "(of_int (2 ^ nat (bitlen a - 1)) :: rat) \<le> of_int a"
    using b by (simp only: of_int_le_iff)
  then show "pow2 (bitlen a - 1) \<le> of_int a"
    using pos by (simp add: pow2_def)
  have "(of_int a :: rat) < of_int (2 ^ nat (bitlen a))"
    using b by (simp only: of_int_less_iff)
  then show "of_int a < pow2 (bitlen a)"
    using pos by (simp add: pow2_def)
qed

lemma ilog2_bounds:
  assumes "0 < q"
  shows "pow2 (ilog2 q) \<le> q" and "q < pow2 (ilog2 q + 1)"
proof -
  obtain a b where ab: "quotient_of q = (a, b)"
    by fastforce
  then have b: "0 < b" and q: "q = of_int a / of_int b"
    by (simp_all add: quotient_of_denom_pos quotient_of_div)
  then have a: "0 < a"
    using assms by (simp add: zero_less_divide_iff)
  define k where "k = bitlen a - bitlen b"
  have "q < pow2 (bitlen a) / pow2 (bitlen b - 1)"
    unfolding q using bitlen_pow2_bounds [OF a] bitlen_pow2_bounds [OF b] a b
    by (intro frac_less) simp_all
  also have "\<dots> = pow2 (k + 1)"
    using pow2_add [of "k + 1" "bitlen b - 1"] pow2_pos [of "bitlen b - 1"]
    by (simp add: k_def field_simps)
  finally have up: "q < pow2 (k + 1)" .
  have "pow2 (k - 1) = pow2 (bitlen a - 1) / pow2 (bitlen b)"
    using pow2_add [of "k - 1" "bitlen b"] pow2_pos [of "bitlen b"]
    by (simp add: k_def field_simps)
  also have "\<dots> \<le> q"
    unfolding q using bitlen_pow2_bounds [OF a] bitlen_pow2_bounds [OF b] a b
    by (intro frac_le) simp_all
  finally have low: "pow2 (k - 1) \<le> q" .
  show "pow2 (ilog2 q) \<le> q" and "q < pow2 (ilog2 q + 1)"
    using up low by (auto simp: ilog2_def ab Let_def k_def [symmetric])
qed

lemma ilog2_less:
  assumes "0 < q" and "q < pow2 k"
  shows "ilog2 q < k"
  using ilog2_bounds(1) [OF assms(1)] assms(2) pow2_less_iff [of "ilog2 q" k] by linarith

subsection \<open>Rounding\<close>

definition round_half_even :: "rat \<Rightarrow> int" where
  "round_half_even q =
     (let f = \<lfloor>q\<rfloor>; r = q - of_int f
      in if r < 1 / 2 \<or> (r = 1 / 2 \<and> even f) then f else f + 1)"

definition last_place :: "rat \<Rightarrow> int" where
  "last_place q = max (- 1074) (ilog2 \<bar>q\<bar> - 52)"

definition fl64 :: "rat \<Rightarrow> f64" where
  "fl64 q =
     (if q = 0 then Fin 0
      else let e = last_place q; v = of_int (round_half_even (q / pow2 e)) * pow2 e
           in if pow2 1024 \<le> \<bar>v\<bar> then Inf (v < 0) else Fin v)"

text \<open>\<^verbatim>\<open>math.Round\<close>: to the nearest integer, halves away from zero.\<close>

definition round_away :: "rat \<Rightarrow> int" where
  "round_away q = (if q < 0 then - \<lfloor>- q + 1 / 2\<rfloor> else \<lfloor>q + 1 / 2\<rfloor>)"

lemma round_half_even_error: "\<bar>of_int (round_half_even q) - q\<bar> \<le> 1 / 2"
proof -
  have "of_int \<lfloor>q\<rfloor> \<le> q" and "q < of_int \<lfloor>q\<rfloor> + 1"
    using floor_correct [of q] by simp_all
  then show ?thesis
    by (auto simp: round_half_even_def Let_def abs_le_iff)
qed

lemma round_half_even_int [simp]: "round_half_even (of_int n) = n"
  by (simp add: round_half_even_def)

lemma round_away_error: "\<bar>of_int (round_away q) - q\<bar> \<le> 1 / 2"
proof -
  have f: "of_int \<lfloor>x\<rfloor> \<le> x \<and> x < of_int \<lfloor>x\<rfloor> + 1" for x :: rat
    using floor_correct [of x] by simp
  have "\<bar>of_int (round_away q) - q\<bar> \<le> 1 / 2" if "q < 0"
    using that f [of "- q + 1 / 2"] unfolding round_away_def abs_le_iff by simp linarith
  moreover have "\<bar>of_int (round_away q) - q\<bar> \<le> 1 / 2" if "\<not> q < 0"
    using that f [of "q + 1 / 2"] unfolding round_away_def abs_le_iff by simp linarith
  ultimately show ?thesis
    by blast
qed

lemma round_away_int [simp]: "round_away (of_int n) = n"
proof -
  have "\<lfloor>of_int m + 1 / 2 :: rat\<rfloor> = m" for m
    by (simp add: floor_eq_iff)
  from this [of n] this [of "- n"] show ?thesis
    by (simp add: round_away_def)
qed

lemma fl64_error:
  assumes "fl64 q = Fin v"
  shows "\<bar>v - q\<bar> \<le> pow2 (last_place q) / 2"
proof (cases "q = 0")
  case True
  with assms show ?thesis
    by (simp add: fl64_def less_imp_le)
next
  case False
  define e where "e = last_place q"
  have v: "v = of_int (round_half_even (q / pow2 e)) * pow2 e"
    using assms False by (auto simp: fl64_def Let_def e_def split: if_splits)
  have "v - q = (of_int (round_half_even (q / pow2 e)) - q / pow2 e) * pow2 e"
    using pow2_pos [of e] by (simp add: v left_diff_distrib)
  then have "\<bar>v - q\<bar> = \<bar>of_int (round_half_even (q / pow2 e)) - q / pow2 e\<bar> * pow2 e"
    by (simp add: abs_mult less_imp_le)
  also have "\<dots> \<le> 1 / 2 * pow2 e"
    by (rule mult_right_mono [OF round_half_even_error]) (simp add: less_imp_le)
  finally show ?thesis
    by (simp add: e_def)
qed

lemma fl64_error_bound:
  assumes "fl64 q = Fin v" and "\<bar>q\<bar> < pow2 k" and "- 1021 \<le> k"
  shows "\<bar>v - q\<bar> \<le> pow2 (k - 53) / 2"
proof (cases "q = 0")
  case True
  with assms(1) show ?thesis
    by (simp add: fl64_def less_imp_le)
next
  case False
  then have "ilog2 \<bar>q\<bar> < k"
    using assms(2) by (intro ilog2_less) simp_all
  then have "last_place q \<le> k - 53"
    using assms(3) by (simp add: last_place_def)
  then have "pow2 (last_place q) \<le> pow2 (k - 53)"
    by (rule pow2_mono)
  with fl64_error [OF assms(1)] show ?thesis
    by linarith
qed

lemma fl64_magnitude:
  assumes "fl64 q = Fin v"
  shows "\<bar>q\<bar> \<le> 2 * \<bar>v\<bar> + 2"
proof (cases "q = 0")
  case False
  have half: "pow2 (last_place q) \<le> \<bar>q\<bar> + 1"
  proof (cases "- 1074 \<le> ilog2 \<bar>q\<bar> - 52")
    case True
    then have "pow2 (last_place q) \<le> pow2 (ilog2 \<bar>q\<bar>)"
      by (intro pow2_mono) (simp add: last_place_def)
    also have "\<dots> \<le> \<bar>q\<bar>"
      using False by (intro ilog2_bounds) simp
    finally show ?thesis
      by simp
  next
    case small: False
    have "pow2 (- 1074) \<le> pow2 0"
      by (rule pow2_mono) simp
    with small show ?thesis
      by (simp add: last_place_def pow2_def)
  qed
  have "2 * \<bar>v - q\<bar> \<le> pow2 (last_place q)"
    using fl64_error [OF assms] by simp
  then have "2 * \<bar>v - q\<bar> \<le> \<bar>q\<bar> + 1"
    using half by (rule order_trans)
  moreover have "\<bar>q\<bar> \<le> \<bar>v\<bar> + \<bar>v - q\<bar>"
    using abs_triangle_ineq2 [of q v] by (simp add: abs_minus_commute)
  moreover have "c \<le> 2 * b + 2" if "2 * d \<le> c + 1" and "c \<le> b + d" for b c d :: rat
    using that by linarith
  ultimately show ?thesis
    by blast
qed simp

lemma fl64_exact:
  assumes q: "q = of_int m * pow2 e" and m: "\<bar>m\<bar> < 2 ^ 53" and e: "- 1074 \<le> e" "e \<le> 900"
  shows "fl64 q = Fin q"
proof (cases "q = 0")
  case True
  then show ?thesis
    by (simp add: fl64_def)
next
  case False
  have "(of_int \<bar>m\<bar> :: rat) < of_int (2 ^ 53)"
    using m by (simp only: of_int_less_iff)
  then have "\<bar>of_int m :: rat\<bar> < pow2 53"
    by (simp add: pow2_def)
  then have less: "\<bar>q\<bar> < pow2 (53 + e)"
    by (simp add: q abs_mult pow2_add)
  then have "ilog2 \<bar>q\<bar> < 53 + e"
    using False by (intro ilog2_less) simp_all
  then have lp: "last_place q \<le> e"
    using e by (simp add: last_place_def)
  define l where "l = last_place q"
  have "pow2 (e - l) = 2 ^ nat (e - l)"
    using lp by (simp add: pow2_def l_def)
  then have "pow2 e = 2 ^ nat (e - l) * pow2 l"
    using pow2_add [of "e - l" l] by simp
  then have ql: "q = of_int (m * 2 ^ nat (e - l)) * pow2 l"
    by (simp add: q)
  then have "q / pow2 l = of_int (m * 2 ^ nat (e - l))"
    by (simp only:) simp
  then have "of_int (round_half_even (q / pow2 l)) * pow2 l = q"
    by (simp only: round_half_even_int ql [symmetric])
  moreover have "\<bar>q\<bar> < pow2 1024"
    using less pow2_mono [of "53 + e" 1024] e by linarith
  ultimately show ?thesis
    using False by (simp add: fl64_def Let_def l_def [symmetric])
qed


lemma fl64_int: "\<bar>n\<bar> < 2 ^ 53 \<Longrightarrow> fl64 (of_int n) = Fin (of_int n)"
  by (rule fl64_exact [of _ n 0]) (simp_all add: pow2_def)

subsection \<open>Comparison and the arithmetic of the decoders\<close>

fun f64_less :: "f64 \<Rightarrow> f64 \<Rightarrow> bool" where
  "f64_less NaN y = False"
| "f64_less x NaN = False"
| "f64_less (Fin p) (Fin q) = (p < q)"
| "f64_less (Fin p) (Inf s) = (\<not> s)"
| "f64_less (Inf s) (Fin q) = s"
| "f64_less (Inf s) (Inf t) = (s \<and> \<not> t)"

text \<open>\<^verbatim>\<open>==\<close> on \<^verbatim>\<open>float64\<close>: NaN differs from everything, itself included.\<close>

fun f64_eq :: "f64 \<Rightarrow> f64 \<Rightarrow> bool" where
  "f64_eq NaN y = False"
| "f64_eq x NaN = False"
| "f64_eq x y = (x = y)"

fun f64_times10 :: "f64 \<Rightarrow> f64" where
  "f64_times10 (Fin q) = fl64 (q * 10)"
| "f64_times10 (Inf s) = Inf s"
| "f64_times10 NaN = NaN"

fun f64_div10 :: "f64 \<Rightarrow> f64" where
  "f64_div10 (Fin q) = fl64 (q / 10)"
| "f64_div10 (Inf s) = Inf s"
| "f64_div10 NaN = NaN"

fun math_Round :: "f64 \<Rightarrow> f64" where
  "math_Round (Fin q) = Fin (of_int (round_away q))"
| "math_Round (Inf s) = Inf s"
| "math_Round NaN = NaN"

definition round_tenth :: "f64 \<Rightarrow> f64" where
  "round_tenth v = f64_div10 (math_Round (f64_times10 v))"

definition out_of_range :: "rat \<Rightarrow> rat \<Rightarrow> f64 \<Rightarrow> bool" where
  "out_of_range lo hi v \<longleftrightarrow> f64_less v (Fin lo) \<or> f64_less (Fin hi) v"

definition is_NaN :: "f64 \<Rightarrow> bool" where
  "is_NaN v \<longleftrightarrow> v = NaN"

definition is_Inf :: "f64 \<Rightarrow> bool" where
  "is_Inf v \<longleftrightarrow> (case v of Inf _ \<Rightarrow> True | _ \<Rightarrow> False)"

lemma in_range_Fin:
  "\<not> out_of_range lo hi v \<Longrightarrow> v \<noteq> NaN \<Longrightarrow> \<exists>q. v = Fin q \<and> lo \<le> q \<and> q \<le> hi"
  by (cases v) (auto simp: out_of_range_def)

lemma fl64_not_NaN [simp]: "fl64 q \<noteq> NaN"
  by (simp add: fl64_def Let_def)

lemma round_tenth_NaN [simp]: "round_tenth v = NaN \<longleftrightarrow> v = NaN"
proof -
  have "f64_times10 v = NaN \<longleftrightarrow> v = NaN" for v
    by (cases v) simp_all
  moreover have "math_Round v = NaN \<longleftrightarrow> v = NaN" for v
    by (cases v) simp_all
  moreover have "f64_div10 v = NaN \<longleftrightarrow> v = NaN" for v
    by (cases v) simp_all
  ultimately show ?thesis
    by (simp add: round_tenth_def)
qed

lemma f64_eq_Fin [simp]: "f64_eq (Fin p) (Fin q) \<longleftrightarrow> p = q"
  by simp

lemma f64_eq_imp: "f64_eq x y \<Longrightarrow> x = y"
  by (cases x; cases y) simp_all

subsection \<open>Single precision bits\<close>

definition Float32frombits :: "32 word \<Rightarrow> f64" where
  "Float32frombits b =
     (let sign = bit b 31;
          ex = take_bit 8 (uint b div 2 ^ 23);
          frac = take_bit 23 (uint b);
          sg = (if sign then - 1 else 1)
      in if ex = 255 then (if frac = 0 then Inf sign else NaN)
         else if ex = 0 then Fin (of_int (sg * frac) * pow2 (- 149))
         else Fin (of_int (sg * (frac + 2 ^ 23)) * pow2 (ex - 150)))"

text \<open>\<^verbatim>\<open>binary.LittleEndian.Uint32\<close> of the first four bytes, which the callers ensure exist.\<close>

definition le_uint32 :: "bytes \<Rightarrow> 32 word" where
  "le_uint32 bs = word_of_int (uint (bs ! 0) + 2 ^ 8 * uint (bs ! 1)
     + 2 ^ 16 * uint (bs ! 2) + 2 ^ 24 * uint (bs ! 3))"

text \<open>Every finite single is a 24-bit integer scaled by a power of two between -149 and 104.\<close>

lemma Float32frombits_dyadic:
  assumes "Float32frombits b = Fin x"
  obtains m e where "x = of_int m * pow2 e" and "\<bar>m\<bar> < 2 ^ 24" and "- 149 \<le> e" and "e \<le> 104"
proof -
  define ex where "ex = take_bit 8 (uint b div 2 ^ 23)"
  define frac where "frac = take_bit 23 (uint b)"
  define sg :: int where "sg = (if bit b 31 then - 1 else 1)"
  have ex: "0 \<le> ex" "ex < 256" and frac: "0 \<le> frac" "frac < 2 ^ 23"
    by (simp_all add: ex_def frac_def take_bit_int_less_exp [of 8, simplified]
        take_bit_int_less_exp [of 23, simplified])
  have sg: "sg = 1 \<or> sg = - 1"
    by (simp add: sg_def)
  have eq: "Float32frombits b =
     (if ex = 255 then (if frac = 0 then Inf (bit b 31) else NaN)
      else if ex = 0 then Fin (of_int (sg * frac) * pow2 (- 149))
      else Fin (of_int (sg * (frac + 2 ^ 23)) * pow2 (ex - 150)))"
    unfolding Float32frombits_def Let_def ex_def frac_def sg_def ..
  show thesis
  proof (cases "ex = 0")
    case True
    then have "x = of_int (sg * frac) * pow2 (- 149)"
      using assms eq by simp
    then show thesis
      using sg frac by (intro that [of "sg * frac" "- 149"]) auto
  next
    case False
    then have "ex \<noteq> 255" and "x = of_int (sg * (frac + 2 ^ 23)) * pow2 (ex - 150)"
      using assms eq by (auto split: if_splits)
    then show thesis
      using sg frac ex False by (intro that [of "sg * (frac + 2 ^ 23)" "ex - 150"]) auto
  qed
qed

lemma Float32frombits_times10:
  assumes "Float32frombits b = Fin x"
  shows "f64_times10 (Fin x) = Fin (x * 10)"
proof -
  obtain m e where x: "x = of_int m * pow2 e" and "\<bar>m\<bar> < 2 ^ 24" and "- 149 \<le> e" "e \<le> 104"
    using assms by (rule Float32frombits_dyadic)
  then have "fl64 (x * 10) = Fin (x * 10)"
    by (intro fl64_exact [of _ "m * 10" e]) auto
  then show ?thesis
    by simp
qed

text \<open>
  The rounding of the temperature path: for a single-precision reading the product with ten is
  exact, so the result is the double nearest to a tenth, within one twentieth (and the error of
  one double rounding) of the reading.
\<close>

lemma round_tenth_single:
  assumes "Float32frombits b = Fin x"
  shows "round_tenth (Fin x) = fl64 (of_int (round_away (x * 10)) / 10)"
  by (simp add: round_tenth_def Float32frombits_times10 [OF assms] del: f64_times10.simps)

lemma round_tenth_accuracy:
  assumes "Float32frombits b = Fin x" and "round_tenth (Fin x) = Fin v" and "\<bar>x\<bar> < 1000"
  shows "\<bar>v - x\<bar> \<le> 1 / 20 + 1 / 2 ^ 43"
proof -
  define n where "n = round_away (x * 10)"
  have near: "\<bar>of_int n / 10 - x\<bar> \<le> 1 / 20"
    using round_away_error [of "x * 10"] unfolding n_def abs_le_iff by (auto simp: field_simps)
  have "fl64 (of_int n / 10) = Fin v"
    using assms(2) by (simp add: round_tenth_single [OF assms(1)] n_def)
  moreover have "\<bar>of_int n / 10 :: rat\<bar> < pow2 10"
  proof -
    have "\<bar>of_int n / 10 :: rat\<bar> < 1024"
      using near assms(3) by linarith
    then show ?thesis
      by (simp add: pow2_def)
  qed
  ultimately have "\<bar>v - of_int n / 10\<bar> \<le> pow2 (10 - 53) / 2"
    by (rule fl64_error_bound) simp
  then have "\<bar>v - of_int n / 10\<bar> \<le> 1 / 2 ^ 43"
    by (simp add: pow2_def)
  with near show ?thesis
    by linarith
qed

text \<open>A rounded value that is small comes from a small one.\<close>

lemma round_tenth_small:
  assumes "Float32frombits b = Fin x" and "round_tenth (Fin x) = Fin v" and "\<bar>v\<bar> \<le> 150"
  shows "\<bar>x\<bar> < 1000"
proof -
  define n where "n = round_away (x * 10)"
  have near: "\<bar>of_int n / 10 - x\<bar> \<le> 1 / 20"
    using round_away_error [of "x * 10"] unfolding n_def abs_le_iff by (auto simp: field_simps)
  have "fl64 (of_int n / 10) = Fin v"
    using assms(2) by (simp add: round_tenth_single [OF assms(1)] n_def)
  then have "\<bar>of_int n / 10 :: rat\<bar> \<le> 2 * \<bar>v\<bar> + 2"
    by (rule fl64_magnitude)
  with near assms(3) show ?thesis
    by linarith
qed

subsection \<open>Numbers in text\<close>

definition pow10 :: "int \<Rightarrow> rat" where
  "pow10 e = (if 0 \<le> e then 10 ^ nat e else 1 / 10 ^ nat (- e))"

definition parse_exponent :: "go_string \<Rightarrow> int option" where
  "parse_exponent s =
     (case s of
        [] \<Rightarrow> Some 0
      | c # r \<Rightarrow>
          if c = CHR ''e'' \<or> c = CHR ''E''
          then (case r of
                  [] \<Rightarrow> None
                | d # t \<Rightarrow> if d = CHR ''+'' then map_option int (parse_nat t) else parse_int r)
          else None)"

definition parse_fraction :: "go_string \<Rightarrow> (go_string \<times> go_string) option" where
  "parse_fraction s =
     (case s of
        [] \<Rightarrow> Some ([], [])
      | c # r \<Rightarrow>
          if c = CHR ''.''
          then (if takeWhile is_digit r = [] then None
                else Some (takeWhile is_digit r, dropWhile is_digit r))
          else Some ([], s))"

text \<open>The value of a JSON number literal; \<open>None\<close> for every other text.\<close>

definition parse_decimal :: "go_string \<Rightarrow> rat option" where
  "parse_decimal s =
     (let neg = (s \<noteq> [] \<and> hd s = CHR ''-''); t = (if neg then tl s else s);
          ip = takeWhile is_digit t
      in if ip = [] then None
         else do {
           (fp, r) \<leftarrow> parse_fraction (dropWhile is_digit t);
           e \<leftarrow> parse_exponent r;
           let v = of_nat (digits_val 0 (ip @ fp)) * pow10 (e - int (length fp));
           Some (if neg then - v else v)
         })"

text \<open>
  \<^verbatim>\<open>strconv.ParseFloat(s, 64)\<close> on such texts: the nearest double, and an error when that is
  infinite.
\<close>

definition ParseFloat :: "go_string \<Rightarrow> f64 option" where
  "ParseFloat s =
     (case parse_decimal s of
        None \<Rightarrow> None
      | Some q \<Rightarrow> (case fl64 q of Fin v \<Rightarrow> Some (Fin v) | _ \<Rightarrow> None))"

lemma ParseFloat_finite: "ParseFloat s = Some v \<Longrightarrow> \<exists>q. v = Fin q"
  by (cases "parse_decimal s"; cases "fl64 (the (parse_decimal s))") (auto simp: ParseFloat_def)

subsection \<open>Conversion to int\<close>

text \<open>
  \<^verbatim>\<open>int(f)\<close> truncates when the value fits the type (32 bits on the gateway); otherwise the
  language leaves the result to the implementation, here the parameter \<open>conv\<close>.
\<close>

definition trunc_rat :: "rat \<Rightarrow> int" where
  "trunc_rat q = (if q < 0 then - \<lfloor>- q\<rfloor> else \<lfloor>q\<rfloor>)"

definition f64_to_int :: "(f64 \<Rightarrow> int) \<Rightarrow> f64 \<Rightarrow> int" where
  "f64_to_int conv v =
     (case v of
        Fin q \<Rightarrow> if in_i32 (trunc_rat q) then trunc_rat q else conv v
      | _ \<Rightarrow> conv v)"

lemma trunc_rat_int [simp]: "trunc_rat (of_int n) = n"
proof -
  have "\<lfloor>- (of_int n) :: rat\<rfloor> = - n"
    by (metis floor_of_int of_int_minus)
  then show ?thesis
    by (simp add: trunc_rat_def)
qed

end
