(* ===== verification/Go_Json.thy ===== *)
theory Go_Json
  imports Go_Float
begin

section \<open>JSON documents and their decoding into Go values\<close>

text \<open>
  A document is the syntax tree of its text; a text with a syntax error is \<open>None\<close> where
  documents are read.  A number keeps its literal, since \<^verbatim>\<open>encoding/json\<close> reads it only when the
  target type is known, and an object keeps its keys in order, repetitions included.

  A decoder takes the document and the value already held by the target, as
  \<^verbatim>\<open>json.Unmarshal\<close> does: \<^verbatim>\<open>null\<close> and absent keys leave it unchanged, and a later key of the same
  name overwrites an earlier one.  \<open>None\<close> is an \<^verbatim>\<open>UnmarshalTypeError\<close>; since every caller
  discards the target on error, decoding stops there.  Keys match fields without regard to
  case, the Kelvin sign and the long s included, as \<^verbatim>\<open>foldName\<close> has it (the length tests in
  \<open>fold_name\<close> always hold; they make its termination evident).
\<close>

datatype json =
    JNull
  | JBool bool
  | JNum go_string
  | JStr go_string
  | JArr "json list"
  | JObj "(go_string \<times> json) list"

type_synonym 'a decoder = "json \<Rightarrow> 'a \<Rightarrow> 'a option"

subsection \<open>Field names\<close>

fun fold_name :: "go_string \<Rightarrow> go_string" where
  "fold_name [] = []"
| "fold_name (c # s) =
     (case strip_prefix (map char_of [226, 132, 170 :: nat]) (c # s) of
        Some r \<Rightarrow> if length r < length (c # s) then CHR ''k'' # fold_name r else []
      | None \<Rightarrow>
          (case strip_prefix (map char_of [197, 191 :: nat]) (c # s) of
             Some r \<Rightarrow> if length r < length (c # s) then CHR ''s'' # fold_name r else []
           | None \<Rightarrow> lower_char c # fold_name s))"

definition name_matches :: "go_string \<Rightarrow> go_string \<Rightarrow> bool" where
  "name_matches key field \<longleftrightarrow> fold_name key = fold_name field"

subsection \<open>Decoders\<close>

definition dec_string :: "go_string decoder" where
  "dec_string j old = (case j of JStr s \<Rightarrow> Some s | JNull \<Rightarrow> Some old | _ \<Rightarrow> None)"

definition dec_int :: "(int \<Rightarrow> bool) \<Rightarrow> int decoder" where
  "dec_int fits j old =
     (case j of
        JNum lit \<Rightarrow> (case parse_int lit of
                       None \<Rightarrow> None
                     | Some n \<Rightarrow> if fits n then Some n else None)
      | JNull \<Rightarrow> Some old
      | _ \<Rightarrow> None)"

text \<open>\<^verbatim>\<open>int\<close> has 32 bits on the gateway (\<^verbatim>\<open>GOARCH=mipsle\<close>).\<close>

definition dec_go_int :: "int decoder" where
  "dec_go_int = dec_int in_i32"

definition dec_int64 :: "int decoder" where
  "dec_int64 = dec_int in_i64"

definition dec_uint64 :: "int decoder" where
  "dec_uint64 = dec_int in_u64"

definition dec_raw :: "json option decoder" where
  "dec_raw j old = Some (Some j)"

text \<open>Pointers: \<^verbatim>\<open>null\<close> is \<^verbatim>\<open>nil\<close>.\<close>

definition dec_float_ptr :: "f64 option decoder" where
  "dec_float_ptr j old =
     (case j of
        JNum lit \<Rightarrow> (case ParseFloat lit of None \<Rightarrow> None | Some v \<Rightarrow> Some (Some v))
      | JNull \<Rightarrow> Some None
      | _ \<Rightarrow> None)"

definition dec_int_ptr :: "int option decoder" where
  "dec_int_ptr j old =
     (case j of
        JNull \<Rightarrow> Some None
      | _ \<Rightarrow> map_option Some (dec_go_int j (case old of None \<Rightarrow> 0 | Some n \<Rightarrow> n)))"

text \<open>
  A struct is a table of field names and field decoders; a field decoder updates the struct.
\<close>

type_synonym 'a fields = "(go_string \<times> 'a decoder) list"

definition dec_field :: "'a fields \<Rightarrow> go_string \<Rightarrow> 'a decoder" where
  "dec_field fs key j s =
     (case find (\<lambda>f. name_matches key (fst f)) fs of
        None \<Rightarrow> Some s
      | Some f \<Rightarrow> snd f j s)"

fun dec_pairs :: "'a fields \<Rightarrow> (go_string \<times> json) list \<Rightarrow> 'a \<Rightarrow> 'a option" where
  "dec_pairs fs [] s = Some s"
| "dec_pairs fs ((key, j) # kvs) s =
     (case dec_field fs key j s of None \<Rightarrow> None | Some s' \<Rightarrow> dec_pairs fs kvs s')"

definition dec_struct :: "'a fields \<Rightarrow> 'a decoder" where
  "dec_struct fs j s =
     (case j of JObj kvs \<Rightarrow> dec_pairs fs kvs s | JNull \<Rightarrow> Some s | _ \<Rightarrow> None)"

definition field :: "'b decoder \<Rightarrow> ('a \<Rightarrow> 'b) \<Rightarrow> (('b \<Rightarrow> 'b) \<Rightarrow> 'a \<Rightarrow> 'a) \<Rightarrow> 'a decoder" where
  "field d get upd j s = map_option (\<lambda>v. upd (\<lambda>_. v) s) (d j (get s))"

text \<open>
  A slice: the elements already there are the starting values of the first elements decoded,
  the others start from \<open>zero\<close>.
\<close>

fun dec_items :: "'a decoder \<Rightarrow> 'a \<Rightarrow> json list \<Rightarrow> 'a list \<Rightarrow> 'a list option" where
  "dec_items d zero [] olds = Some []"
| "dec_items d zero (j # js) olds =
     (case d j (case olds of [] \<Rightarrow> zero | x # _ \<Rightarrow> x) of
        None \<Rightarrow> None
      | Some v \<Rightarrow> map_option (\<lambda>vs. v # vs) (dec_items d zero js (tl olds)))"

definition dec_list :: "'a decoder \<Rightarrow> 'a \<Rightarrow> 'a list decoder" where
  "dec_list d zero j olds =
     (case j of JArr js \<Rightarrow> dec_items d zero js olds | JNull \<Rightarrow> Some [] | _ \<Rightarrow> None)"

text \<open>
  A map with string keys: each value is decoded into a fresh element, and a repeated key is
  overwritten.  The map is an association list with distinct keys.
\<close>

fun put :: "'k \<Rightarrow> 'v \<Rightarrow> ('k \<times> 'v) list \<Rightarrow> ('k \<times> 'v) list" where
  "put k v [] = [(k, v)]"
| "put k v ((k', v') # m) = (if k = k' then (k, v) # m else (k', v') # put k v m)"

fun dec_entries :: "'a decoder \<Rightarrow> 'a \<Rightarrow> (go_string \<times> json) list \<Rightarrow> (go_string \<times> 'a) list
    \<Rightarrow> (go_string \<times> 'a) list option" where
  "dec_entries d zero [] m = Some m"
| "dec_entries d zero ((key, j) # kvs) m =
     (case d j zero of None \<Rightarrow> None | Some v \<Rightarrow> dec_entries d zero kvs (put key v m))"

definition dec_map :: "'a decoder \<Rightarrow> 'a \<Rightarrow> (go_string \<times> 'a) list decoder" where
  "dec_map d zero j m =
     (case j of JObj kvs \<Rightarrow> dec_entries d zero kvs m | JNull \<Rightarrow> Some [] | _ \<Rightarrow> None)"

lemma map_of_put [simp]: "map_of (put k v m) = (map_of m)(k \<mapsto> v)"
  by (induction k v m rule: put.induct) (auto simp: fun_eq_iff)

lemma keys_put: "fst ` set (put k v m) = insert k (fst ` set m)"
  by (induction k v m rule: put.induct) auto

lemma distinct_put: "distinct (map fst m) \<Longrightarrow> distinct (map fst (put k v m))"
proof (induction k v m rule: put.induct)
  case (2 k v k' v' m)
  then show ?case
    using keys_put [of k v m] by auto
qed simp

lemma dec_entries_distinct:
  "dec_entries d zero kvs m = Some m' \<Longrightarrow> distinct (map fst m) \<Longrightarrow> distinct (map fst m')"
  by (induction d zero kvs m rule: dec_entries.induct)
     (auto simp: distinct_put split: option.splits)

subsection \<open>What decoding keeps\<close>

text \<open>
  A decoded struct keeps what each of its field decoders keeps, and the elements of a list what
  the decoder of one element keeps; \<open>Q\<close> is what is known of the document's parts.
\<close>

lemma dec_pairs_keeps:
  assumes "\<And>key d j s s'. (key, d) \<in> set fs \<Longrightarrow> Q j \<Longrightarrow> d j s = Some s' \<Longrightarrow> P s \<Longrightarrow> P s'"
  shows "dec_pairs fs kvs s = Some s' \<Longrightarrow> list_all (\<lambda>(k, j). Q j) kvs \<Longrightarrow> P s \<Longrightarrow> P s'"
proof (induction kvs arbitrary: s)
  case (Cons kv kvs)
  obtain key j where kv: "kv = (key, j)"
    by fastforce
  with Cons.prems obtain s1 where s1: "dec_field fs key j s = Some s1" and rest: "dec_pairs fs kvs s1 = Some s'"
    and Q: "Q j" "list_all (\<lambda>(k, j). Q j) kvs"
    by (auto split: option.splits)
  have "P s1"
  proof (cases "find (\<lambda>f. name_matches key (fst f)) fs")
    case None
    with s1 Cons.prems(3) show ?thesis
      by (simp add: dec_field_def)
  next
    case (Some f)
    then have "(fst f, snd f) \<in> set fs"
      by (auto simp: find_Some_iff)
    with assms [OF this Q(1) _ Cons.prems(3)] s1 Some show ?thesis
      by (simp add: dec_field_def)
  qed
  with Cons.IH [OF rest Q(2)] show ?case .
qed simp

lemma dec_items_keeps:
  assumes "\<And>j s s'. Q j \<Longrightarrow> d j s = Some s' \<Longrightarrow> P s \<Longrightarrow> P s'" and "P zero"
  shows "dec_items d zero js olds = Some vs \<Longrightarrow> list_all Q js \<Longrightarrow> list_all P olds \<Longrightarrow> list_all P vs"
proof (induction js arbitrary: olds vs)
  case (Cons j js)
  obtain v vs' where v: "d j (case olds of [] \<Rightarrow> zero | x # _ \<Rightarrow> x) = Some v" and vs: "vs = v # vs'"
    and rest: "dec_items d zero js (tl olds) = Some vs'"
    using Cons.prems(1) by (auto split: option.splits)
  have "P (case olds of [] \<Rightarrow> zero | x # _ \<Rightarrow> x)"
    using assms(2) Cons.prems(3) by (auto split: list.split)
  with assms(1) [OF _ v] Cons.IH [OF rest] Cons.prems(2,3) vs show ?case
    by (cases olds) simp_all
qed simp

lemma dec_entries_keeps:
  assumes "\<And>j s'. Q j \<Longrightarrow> d j zero = Some s' \<Longrightarrow> P s'"
  shows "dec_entries d zero kvs m = Some m' \<Longrightarrow> list_all (\<lambda>(k, j). R k \<and> Q j) kvs \<Longrightarrow> list_all (\<lambda>(k, v). R k \<and> P v) m
    \<Longrightarrow> list_all (\<lambda>(k, v). R k \<and> P v) m'"
proof (induction kvs arbitrary: m)
  case (Cons kv kvs)
  have put: "list_all (\<lambda>(k, v). R k \<and> P v) (put k v m)" if "R k" "P v" for k v
    using Cons.prems(3) that by (induction k v m rule: put.induct) auto
  from Cons assms show ?case
    by (cases kv) (auto split: option.splits intro: put)
qed simp

subsection \<open>Ranges of decoded integers\<close>

lemma dec_int_range: "dec_int fits j old = Some n \<Longrightarrow> fits old \<Longrightarrow> fits n"
  by (auto simp: dec_int_def split: json.splits option.splits if_splits)

lemma dec_int_literal [simp]: "dec_int fits (JNum (itoa n)) old = (if fits n then Some n else None)"
  by (simp add: dec_int_def)

lemma dec_string_literal [simp]: "dec_string (JStr s) old = Some s"
  by (simp add: dec_string_def)

lemma dec_float_ptr_finite: "dec_float_ptr j old = Some (Some v) \<Longrightarrow> \<exists>q. v = Fin q"
  by (auto simp: dec_float_ptr_def dest: ParseFloat_finite split: json.splits option.splits)

end
