(* ===== verification/Decoders.thy ===== *)
theory Decoders
  imports Go_Json
begin

section \<open>BLE payload decoders\<close>

text \<open>
  \<^verbatim>\<open>internal/openmiio/decoders.go\<close> and the types of \<^verbatim>\<open>internal/openmiio/parser.go\<close>: the
  update record that flows through the whole bridge, and the two product decoders, each a
  loop over the events of one BLE report that fills the update and collects errors.

  The results: every decoded value is in its documented range, whatever bytes arrive
  (\<open>valid_update\<close> is kept); a decoder changes the measured fields only; and each field
  holds the value of the last well-formed event for it.
\<close>

subsection \<open>Updates\<close>

record ble_event =
  ev_id :: int
  ev_data :: go_string

record toothbrush_event =
  tb_type :: int
  tb_timestamp :: int
  tb_score :: "int option"

record update =
  u_did :: go_string
  u_mac :: go_string
  u_product_id :: int
  u_kind :: go_string
  u_model :: go_string
  u_frame_count :: int
  u_has_frame_count :: bool
  u_gateway_time :: int
  u_temperature :: "f64 option"
  u_humidity :: "f64 option"
  u_battery :: "int option"
  u_toothbrush :: "toothbrush_event option"

text \<open>The zero value \<^verbatim>\<open>Update{}\<close>.\<close>

definition zero_update :: update where
  "zero_update = \<lparr>u_did = [], u_mac = [], u_product_id = 0, u_kind = [], u_model = [],
     u_frame_count = 0, u_has_frame_count = False, u_gateway_time = 0, u_temperature = None,
     u_humidity = None, u_battery = None, u_toothbrush = None\<rparr>"

definition HasMeasurements :: "update \<Rightarrow> bool" where
  "HasMeasurements u \<longleftrightarrow> u_temperature u \<noteq> None \<or> u_humidity u \<noteq> None \<or> u_battery u \<noteq> None
     \<or> u_toothbrush u \<noteq> None"

definition eventTemperature :: int where "eventTemperature = 19457"
definition eventHumidity :: int where "eventHumidity = 19458"
definition eventBattery :: int where "eventBattery = 18435"
definition eventToothbrushState :: int where "eventToothbrushState = 12291"
definition eventStandardBattery :: int where "eventStandardBattery = 4106"

lemmas event_ids = eventTemperature_def eventHumidity_def eventBattery_def
  eventToothbrushState_def eventStandardBattery_def

text \<open>The messages of \<^verbatim>\<open>fmt.Errorf\<close> and \<^verbatim>\<open>fmt.Sprintf\<close>, each with the value it quotes.\<close>

datatype data_error =
    ExpectedFloat go_string
  | NonFiniteFloat go_string
  | ExpectedByte go_string

datatype decode_error =
    TemperatureError data_error
  | TemperatureOutOfRange f64
  | HumidityError data_error
  | HumidityOutOfRange int
  | BatteryError data_error
  | BatteryOutOfRange int
  | ToothbrushError go_string

subsection \<open>Payloads\<close>

definition decodeFloat32LE :: "go_string \<Rightarrow> data_error + f64" where
  "decodeFloat32LE s =
     (case decode_hex s of
        None \<Rightarrow> Inl (ExpectedFloat s)
      | Some b \<Rightarrow>
          if length b < 4 then Inl (ExpectedFloat s)
          else let v = Float32frombits (le_uint32 b)
               in if is_NaN v \<or> is_Inf v then Inl (NonFiniteFloat s) else Inr v)"

definition decodeByte :: "go_string \<Rightarrow> data_error + int" where
  "decodeByte s =
     (case decode_hex s of
        None \<Rightarrow> Inl (ExpectedByte s)
      | Some b \<Rightarrow> if length b < 1 then Inl (ExpectedByte s) else Inr (uint (b ! 0)))"

type_synonym decoder_state = "update \<times> decode_error list"

definition decodeBattery :: "go_string \<Rightarrow> decoder_state \<Rightarrow> decoder_state" where
  "decodeBattery data st =
     (case st of (u, errs) \<Rightarrow>
        (case decodeByte data of
           Inl err \<Rightarrow> (u, errs @ [BatteryError err])
         | Inr value \<Rightarrow>
             if value > 100 then (u, errs @ [BatteryOutOfRange value])
             else (u\<lparr>u_battery := Some value\<rparr>, errs)))"

subsection \<open>The climate sensor\<close>

definition decodeTemperature :: "go_string \<Rightarrow> decoder_state \<Rightarrow> decoder_state" where
  "decodeTemperature data st =
     (case st of (u, errs) \<Rightarrow>
        (case decodeFloat32LE data of
           Inl err \<Rightarrow> (u, errs @ [TemperatureError err])
         | Inr raw \<Rightarrow>
             let value = round_tenth raw
             in if out_of_range (- 100) 150 value then (u, errs @ [TemperatureOutOfRange value])
                else (u\<lparr>u_temperature := Some value\<rparr>, errs)))"

definition decodeHumidity :: "go_string \<Rightarrow> decoder_state \<Rightarrow> decoder_state" where
  "decodeHumidity data st =
     (case st of (u, errs) \<Rightarrow>
        (case decodeByte data of
           Inl err \<Rightarrow> (u, errs @ [HumidityError err])
         | Inr value \<Rightarrow>
             let f = Fin (of_int value)
             in if f64_less (Fin 100) f then (u, errs @ [HumidityOutOfRange value])
                else (u\<lparr>u_humidity := Some f\<rparr>, errs)))"

definition sensorStep :: "decoder_state \<Rightarrow> ble_event \<Rightarrow> decoder_state" where
  "sensorStep st item =
     (if ev_id item = eventTemperature then decodeTemperature (ev_data item) st
      else if ev_id item = eventHumidity then decodeHumidity (ev_data item) st
      else if ev_id item = eventBattery then decodeBattery (ev_data item) st
      else st)"

definition decodeSensorHTO2 :: "ble_event list \<Rightarrow> update \<Rightarrow> decoder_state" where
  "decodeSensorHTO2 events u = foldl sensorStep (u, []) events"

subsection \<open>The toothbrush\<close>

definition decodeToothbrushState :: "go_string \<Rightarrow> decoder_state \<Rightarrow> decoder_state" where
  "decodeToothbrushState data st =
     (case st of (u, errs) \<Rightarrow>
        (case decode_hex data of
           None \<Rightarrow> (u, errs @ [ToothbrushError data])
         | Some d \<Rightarrow>
             if length d < 5 then (u, errs @ [ToothbrushError data])
             else (u\<lparr>u_toothbrush := Some
                      \<lparr>tb_type = uint (d ! 0),
                       tb_timestamp = uint (le_uint32 (drop 1 d)),
                       tb_score = (if length d \<ge> 6 then Some (uint (d ! 5)) else None)\<rparr>\<rparr>, errs)))"

definition toothbrushStep :: "decoder_state \<Rightarrow> ble_event \<Rightarrow> decoder_state" where
  "toothbrushStep st item =
     (if ev_id item = eventToothbrushState then decodeToothbrushState (ev_data item) st
      else if ev_id item = eventStandardBattery then decodeBattery (ev_data item) st
      else st)"

definition decodeToothbrushT700i :: "ble_event list \<Rightarrow> update \<Rightarrow> decoder_state" where
  "decodeToothbrushT700i events u = foldl toothbrushStep (u, []) events"

subsection \<open>Ranges\<close>

definition valid_f64 :: "rat \<Rightarrow> rat \<Rightarrow> f64 option \<Rightarrow> bool" where
  "valid_f64 lo hi x = (case x of None \<Rightarrow> True | Some v \<Rightarrow>
     (case v of Fin q \<Rightarrow> lo \<le> q \<and> q \<le> hi | _ \<Rightarrow> False))"

definition valid_int :: "int \<Rightarrow> int \<Rightarrow> int option \<Rightarrow> bool" where
  "valid_int lo hi x = (case x of None \<Rightarrow> True | Some n \<Rightarrow> lo \<le> n \<and> n \<le> hi)"

definition valid_event :: "toothbrush_event \<Rightarrow> bool" where
  "valid_event e \<longleftrightarrow> 0 \<le> tb_type e \<and> tb_type e < 256 \<and> 0 \<le> tb_timestamp e
     \<and> tb_timestamp e < 2 ^ 32 \<and> valid_int 0 255 (tb_score e)"

definition valid_update :: "update \<Rightarrow> bool" where
  "valid_update u \<longleftrightarrow> valid_f64 (- 100) 150 (u_temperature u) \<and> valid_f64 0 100 (u_humidity u)
     \<and> valid_int 0 100 (u_battery u)
     \<and> (case u_toothbrush u of None \<Rightarrow> True | Some e \<Rightarrow> valid_event e)"

text \<open>The fields a decoder must not touch.\<close>

definition same_identity :: "update \<Rightarrow> update \<Rightarrow> bool" where
  "same_identity u v \<longleftrightarrow> u_did v = u_did u \<and> u_mac v = u_mac u \<and> u_product_id v = u_product_id u
     \<and> u_kind v = u_kind u \<and> u_model v = u_model u \<and> u_frame_count v = u_frame_count u
     \<and> u_has_frame_count v = u_has_frame_count u \<and> u_gateway_time v = u_gateway_time u"

lemma same_identity_refl [simp]: "same_identity u u"
  by (simp add: same_identity_def)

lemma same_identity_trans: "same_identity u v \<Longrightarrow> same_identity v w \<Longrightarrow> same_identity u w"
  by (simp add: same_identity_def)

lemma valid_f64_None [simp]: "valid_f64 lo hi None"
  by (simp add: valid_f64_def)

lemma valid_int_None [simp]: "valid_int lo hi None"
  by (simp add: valid_int_def)

lemma valid_zero_update [simp]: "valid_update zero_update"
  by (simp add: valid_update_def zero_update_def)

lemma decodeByte_range: "decodeByte s = Inr n \<Longrightarrow> 0 \<le> n \<and> n < 256"
proof -
  assume "decodeByte s = Inr n"
  then obtain b :: "8 word" where "n = uint b"
    by (auto simp: decodeByte_def split: option.splits if_splits)
  then show ?thesis
    using uint_range_size [of b] by (simp add: word_size)
qed

lemma decodeFloat32LE_single:
  assumes "decodeFloat32LE s = Inr v"
  obtains b x where "v = Fin x" and "Float32frombits b = Fin x"
proof -
  obtain b where b: "Float32frombits b = v" and fin: "\<not> is_NaN v" "\<not> is_Inf v"
    using assms by (auto simp: decodeFloat32LE_def Let_def split: option.splits if_splits)
  from fin obtain x where "v = Fin x"
    by (cases v) (simp_all add: is_NaN_def is_Inf_def)
  with b show thesis
    by (intro that) simp_all
qed

lemma decodeTemperature_valid [valid_intros]:
  assumes "valid_update (fst st)"
  shows "valid_update (fst (decodeTemperature data st))"
proof (cases "decodeFloat32LE data")
  case (Inl e)
  with assms show ?thesis
    by (cases st) (simp add: decodeTemperature_def)
next
  case (Inr raw)
  then have "raw \<noteq> NaN"
    by (auto elim: decodeFloat32LE_single)
  then have "\<not> out_of_range (- 100) 150 (round_tenth raw) \<Longrightarrow>
      \<exists>q. round_tenth raw = Fin q \<and> - 100 \<le> q \<and> q \<le> 150"
    by (intro in_range_Fin) simp_all
  with assms Inr show ?thesis
    by (cases st) (auto simp: decodeTemperature_def Let_def valid_update_def valid_f64_def)
qed

lemma decodeHumidity_valid [valid_intros]:
  "valid_update (fst st) \<Longrightarrow> valid_update (fst (decodeHumidity data st))"
  by (cases st; cases "decodeByte data")
     (auto simp: decodeHumidity_def Let_def valid_update_def valid_f64_def dest: decodeByte_range)

lemma decodeBattery_valid [valid_intros]:
  "valid_update (fst st) \<Longrightarrow> valid_update (fst (decodeBattery data st))"
  by (cases st; cases "decodeByte data")
     (auto simp: decodeBattery_def valid_update_def valid_int_def dest: decodeByte_range)

lemma uint8_bounds: "0 \<le> uint (b :: 8 word) \<and> uint b < 256"
  using uint_range_size [of b] by (simp add: word_size)

lemma uint32_bounds: "0 \<le> uint (b :: 32 word) \<and> uint b < 4294967296"
  using uint_range_size [of b] by (simp add: word_size)

lemma decodeToothbrushState_valid [valid_intros]:
  "valid_update (fst st) \<Longrightarrow> valid_update (fst (decodeToothbrushState data st))"
  using uint8_bounds uint32_bounds
  by (cases st; cases "decode_hex data")
     (auto simp: decodeToothbrushState_def valid_update_def valid_event_def valid_int_def
       zle_diff1_eq [symmetric])

lemma sensorStep_valid [valid_intros]:
  "valid_update (fst st) \<Longrightarrow> valid_update (fst (sensorStep st item))"
  by (simp add: sensorStep_def valid_intros)

lemma toothbrushStep_valid [valid_intros]:
  "valid_update (fst st) \<Longrightarrow> valid_update (fst (toothbrushStep st item))"
  by (simp add: toothbrushStep_def valid_intros)

lemmas payload_defs = decodeTemperature_def decodeHumidity_def decodeBattery_def
  decodeToothbrushState_def Let_def

lemma sensorStep_identity: "same_identity (fst st) (fst (sensorStep st item))"
  by (cases st) (auto simp: sensorStep_def payload_defs same_identity_def split: sum.splits)

lemma toothbrushStep_identity: "same_identity (fst st) (fst (toothbrushStep st item))"
  by (cases st) (auto simp: toothbrushStep_def payload_defs same_identity_def
      split: sum.splits option.splits)


subsection \<open>The contract of a decoding step\<close>

text \<open>
  What the parser relies on, whichever product the report is from: a step keeps the validity
  of the update, touches measured fields only, adds to the errors, and decodes a payload
  without regard to the errors so far.
\<close>

locale ble_step =
  fixes step :: "decoder_state \<Rightarrow> ble_event \<Rightarrow> decoder_state"
  assumes step_valid: "valid_update (fst st) \<Longrightarrow> valid_update (fst (step st item))"
    and step_identity: "same_identity (fst st) (fst (step st item))"
    and step_errors: "snd (step (u, errs) item) = errs @ snd (step (u, []) item)"
    and step_errors_local: "fst (step (u, errs) item) = fst (step (u, []) item)"
    and step_errors_item: "snd (step (u, []) item) = snd (step (v, []) item)"
begin

lemma run_valid: "valid_update (fst st) \<Longrightarrow> valid_update (fst (foldl step st items))"
  by (induction items arbitrary: st) (simp_all add: step_valid)

lemma run_identity: "same_identity (fst st) (fst (foldl step st items))"
proof (induction items arbitrary: st)
  case Nil
  then show ?case by simp
next
  case (Cons item items)
  have "same_identity (fst (step st item)) (fst (foldl step (step st item) items))"
    by (rule Cons.IH)
  then have "same_identity (fst st) (fst (foldl step (step st item) items))"
    by (rule same_identity_trans [OF step_identity])
  then show ?case
    by simp
qed

lemma run_errors:
  "snd (foldl step st items) = snd st @ concat (map (\<lambda>item. snd (step (zero_update, []) item)) items)"
proof (induction items arbitrary: st)
  case Nil
  then show ?case by simp
next
  case (Cons item items)
  have "snd (step st item) = snd st @ snd (step (zero_update, []) item)"
    using step_errors [of "fst st" "snd st" item] step_errors_item [of "fst st" item zero_update] by simp
  with Cons.IH [of "step st item"] show ?case
    by simp
qed

end

lemma sensorStep_errors:
  "snd (sensorStep (u, errs) item) = errs @ snd (sensorStep (u, []) item)"
  by (auto simp: sensorStep_def payload_defs split: sum.splits)

lemma sensorStep_local: "fst (sensorStep (u, errs) item) = fst (sensorStep (u, []) item)"
  by (auto simp: sensorStep_def payload_defs split: sum.splits)

lemma toothbrushStep_errors:
  "snd (toothbrushStep (u, errs) item) = errs @ snd (toothbrushStep (u, []) item)"
  by (auto simp: toothbrushStep_def payload_defs split: sum.splits option.splits)

lemma toothbrushStep_local:
  "fst (toothbrushStep (u, errs) item) = fst (toothbrushStep (u, []) item)"
  by (auto simp: toothbrushStep_def payload_defs split: sum.splits option.splits)

lemma sensorStep_errors_item: "snd (sensorStep (u, []) item) = snd (sensorStep (v, []) item)"
  by (auto simp: sensorStep_def payload_defs split: sum.splits)

lemma toothbrushStep_errors_item:
  "snd (toothbrushStep (u, []) item) = snd (toothbrushStep (v, []) item)"
  by (auto simp: toothbrushStep_def payload_defs split: sum.splits option.splits)

interpretation sensor: ble_step sensorStep
  by (unfold_locales; (rule sensorStep_errors sensorStep_local sensorStep_identity
        sensorStep_errors_item)?)
     (rule sensorStep_valid)

interpretation toothbrush: ble_step toothbrushStep
  by (unfold_locales; (rule toothbrushStep_errors toothbrushStep_local toothbrushStep_identity
        toothbrushStep_errors_item)?)
     (rule toothbrushStep_valid)

subsection \<open>What a decoder computes\<close>

text \<open>
  The specification of the loops: the value an event carries for a field, and the error it
  causes; a run yields for each field the value of the last event that carries one.
\<close>

definition last_value :: "('e \<Rightarrow> 'v option) \<Rightarrow> 'v option \<Rightarrow> 'e list \<Rightarrow> 'v option" where
  "last_value f old es =
     (case find (\<lambda>e. f e \<noteq> None) (rev es) of None \<Rightarrow> old | Some e \<Rightarrow> f e)"

definition temperature_value :: "ble_event \<Rightarrow> f64 option" where
  "temperature_value e =
     (if ev_id e \<noteq> eventTemperature then None
      else case decodeFloat32LE (ev_data e) of
             Inl _ \<Rightarrow> None
           | Inr raw \<Rightarrow> if out_of_range (- 100) 150 (round_tenth raw) then None
                        else Some (round_tenth raw))"

definition byte_value :: "int \<Rightarrow> ble_event \<Rightarrow> int option" where
  "byte_value eid e =
     (if ev_id e \<noteq> eid then None
      else case decodeByte (ev_data e) of
             Inl _ \<Rightarrow> None
           | Inr n \<Rightarrow> if n > 100 then None else Some n)"

lemma last_value_Nil [simp]: "last_value f old [] = old"
  by (simp add: last_value_def)

lemma find_append: "find P (xs @ ys) = (case find P xs of None \<Rightarrow> find P ys | Some x \<Rightarrow> Some x)"
  by (induction xs) auto

lemma last_value_Cons [simp]:
  "last_value f old (e # es) = last_value f (case f e of None \<Rightarrow> old | Some v \<Rightarrow> Some v) es"
  by (auto simp: last_value_def find_append split: option.splits)

lemma sensorStep_fields:
  "u_temperature (fst (sensorStep st e)) =
     (case temperature_value e of None \<Rightarrow> u_temperature (fst st) | Some v \<Rightarrow> Some v)"
  "u_humidity (fst (sensorStep st e)) =
     (case byte_value eventHumidity e of None \<Rightarrow> u_humidity (fst st) | Some n \<Rightarrow> Some (Fin (of_int n)))"
  "u_battery (fst (sensorStep st e)) =
     (case byte_value eventBattery e of None \<Rightarrow> u_battery (fst st) | Some n \<Rightarrow> Some n)"
  by (cases st; auto simp: sensorStep_def payload_defs temperature_value_def byte_value_def
      event_ids split: sum.splits)+

lemma decodeSensorHTO2_fields:
  "u_temperature (fst (foldl sensorStep st es)) =
     last_value temperature_value (u_temperature (fst st)) es"
  "u_humidity (fst (foldl sensorStep st es)) =
     last_value (\<lambda>e. map_option (\<lambda>n. Fin (of_int n)) (byte_value eventHumidity e))
       (u_humidity (fst st)) es"
  "u_battery (fst (foldl sensorStep st es)) =
     last_value (byte_value eventBattery) (u_battery (fst st)) es"
  by (induction es arbitrary: st)
     (auto simp: sensorStep_fields intro!: arg_cong [where f = "\<lambda>old. last_value _ old _"]
       split: option.splits)

text \<open>The toothbrush's fields.\<close>

definition toothbrush_value :: "ble_event \<Rightarrow> toothbrush_event option" where
  "toothbrush_value e =
     (if ev_id e \<noteq> eventToothbrushState then None
      else case decode_hex (ev_data e) of
             None \<Rightarrow> None
           | Some d \<Rightarrow>
               if length d < 5 then None
               else Some \<lparr>tb_type = uint (d ! 0), tb_timestamp = uint (le_uint32 (drop 1 d)),
                          tb_score = (if length d \<ge> 6 then Some (uint (d ! 5)) else None)\<rparr>)"

lemma toothbrushStep_fields:
  "u_toothbrush (fst (toothbrushStep st e)) =
     (case toothbrush_value e of None \<Rightarrow> u_toothbrush (fst st) | Some v \<Rightarrow> Some v)"
  "u_battery (fst (toothbrushStep st e)) =
     (case byte_value eventStandardBattery e of None \<Rightarrow> u_battery (fst st) | Some n \<Rightarrow> Some n)"
  "u_temperature (fst (toothbrushStep st e)) = u_temperature (fst st)"
  "u_humidity (fst (toothbrushStep st e)) = u_humidity (fst st)"
  by (cases st; auto simp: toothbrushStep_def payload_defs toothbrush_value_def byte_value_def
      event_ids split: sum.splits option.splits)+

lemma decodeToothbrushT700i_fields:
  "u_toothbrush (fst (foldl toothbrushStep st es)) = last_value toothbrush_value (u_toothbrush (fst st)) es"
  "u_battery (fst (foldl toothbrushStep st es)) =
     last_value (byte_value eventStandardBattery) (u_battery (fst st)) es"
  "u_temperature (fst (foldl toothbrushStep st es)) = u_temperature (fst st)"
  "u_humidity (fst (foldl toothbrushStep st es)) = u_humidity (fst st)"
  by (induction es arbitrary: st)
     (auto simp: toothbrushStep_fields intro!: arg_cong [where f = "\<lambda>old. last_value _ old _"]
       split: option.splits)

text \<open>The temperature that is stored is close to the single-precision number that was sent.\<close>

lemma decodeTemperature_accuracy:
  assumes "decodeTemperature data (u, errs) = (u', errs)"
  shows "\<exists>b x v. decode_hex data = Some b \<and> Float32frombits (le_uint32 b) = Fin x
    \<and> u_temperature u' = Some (Fin v) \<and> \<bar>v - x\<bar> \<le> 1 / 20 + 1 / 2 ^ 43"
proof -
  obtain raw where raw: "decodeFloat32LE data = Inr raw"
    and range: "\<not> out_of_range (- 100) 150 (round_tenth raw)"
    and u': "u' = u\<lparr>u_temperature := Some (round_tenth raw)\<rparr>"
    using assms by (auto simp: decodeTemperature_def Let_def split: sum.splits if_splits)
  from raw obtain b x where b: "decode_hex data = Some b"
    and x: "Float32frombits (le_uint32 b) = Fin x" "raw = Fin x"
    by (cases raw) (auto simp: decodeFloat32LE_def Let_def is_NaN_def is_Inf_def
        split: option.splits if_splits f64.splits)
  obtain v where v: "round_tenth (Fin x) = Fin v" "- 100 \<le> v" "v \<le> 150"
    using in_range_Fin [OF range] x(2) by auto
  then have "\<bar>v\<bar> \<le> 150"
    unfolding abs_le_iff by linarith
  then have "\<bar>v - x\<bar> \<le> 1 / 20 + 1 / 2 ^ 43"
    by (intro round_tenth_accuracy [OF x(1) v(1)] round_tenth_small [OF x(1) v(1)])
  with b x u' v(1) show ?thesis
    by auto
qed

end
