(* ===== verification/Products.thy ===== *)
theory Products
  imports Decoders "HOL-Library.Multiset"
begin

section \<open>The product registry\<close>

text \<open>
  \<^verbatim>\<open>internal/openmiio/products.go\<close>: the supported BLE products, looked up by product id when
  a report is parsed and by id or model when a configured device is given its accessory.  The
  lookup by model ranges over a Go map, whose order is unspecified; it is modelled over any
  enumeration of the map and shown not to depend on it.
\<close>

record product =
  p_id :: int
  p_kind :: go_string
  p_model :: go_string
  p_manufacturer :: go_string
  p_default_name :: go_string
  p_decode :: "(ble_event list \<Rightarrow> update \<Rightarrow> decoder_state) option"

definition ProductKindClimate :: go_string where
  "ProductKindClimate = ''climate''"

definition ProductKindToothbrush :: go_string where
  "ProductKindToothbrush = ''toothbrush''"

definition ProductIDSensorHTO2 :: int where
  "ProductIDSensorHTO2 = 5860"

definition ModelSensorHTO2 :: go_string where
  "ModelSensorHTO2 = ''miaomiaoce.sensor_ht.o2''"

definition ProductIDToothbrushT700i :: int where
  "ProductIDToothbrushT700i = 6032"

definition ModelToothbrushT700i :: go_string where
  "ModelToothbrushT700i = ''k0918.toothbrush.t700i''"

definition product_sensor :: product where
  "product_sensor = \<lparr>p_id = ProductIDSensorHTO2, p_kind = ProductKindClimate,
     p_model = ModelSensorHTO2, p_manufacturer = ''Miaomiaoce'',
     p_default_name = ''Miaomiaoce Temperature Sensor'', p_decode = Some decodeSensorHTO2\<rparr>"

definition product_toothbrush :: product where
  "product_toothbrush = \<lparr>p_id = ProductIDToothbrushT700i, p_kind = ProductKindToothbrush,
     p_model = ModelToothbrushT700i, p_manufacturer = ''Xiaomi'',
     p_default_name = ''Xiaomi Toothbrush T700i'', p_decode = Some decodeToothbrushT700i\<rparr>"

definition products :: "(int \<times> product) list" where
  "products = [(ProductIDSensorHTO2, product_sensor), (ProductIDToothbrushT700i, product_toothbrush)]"

definition LookupProduct :: "int \<Rightarrow> product option" where
  "LookupProduct productID = map_of products productID"

definition SupportedProduct :: "int \<Rightarrow> bool" where
  "SupportedProduct productID \<longleftrightarrow> LookupProduct productID \<noteq> None"

text \<open>The range loop over one enumeration of the map's values.\<close>

definition find_model :: "product list \<Rightarrow> go_string \<Rightarrow> product option" where
  "find_model ps model = find (\<lambda>p. p_model p = model) ps"

definition LookupProductByModel :: "go_string \<Rightarrow> product option" where
  "LookupProductByModel model = find_model (map snd products) model"

lemmas product_defs = products_def product_sensor_def product_toothbrush_def
  ProductIDSensorHTO2_def ProductIDToothbrushT700i_def ModelSensorHTO2_def
  ModelToothbrushT700i_def ProductKindClimate_def ProductKindToothbrush_def

text \<open>The fields of the two products, so that the records themselves stay folded.\<close>

lemma product_fields [simp]:
  "p_id product_sensor = 5860" "p_kind product_sensor = ProductKindClimate"
  "p_model product_sensor = ModelSensorHTO2" "p_decode product_sensor = Some decodeSensorHTO2"
  "p_id product_toothbrush = 6032" "p_kind product_toothbrush = ProductKindToothbrush"
  "p_model product_toothbrush = ModelToothbrushT700i"
  "p_decode product_toothbrush = Some decodeToothbrushT700i"
  by (simp_all add: product_sensor_def product_toothbrush_def ProductIDSensorHTO2_def
      ProductIDToothbrushT700i_def)

lemma model_names [simp]:
  "ModelSensorHTO2 \<noteq> ModelToothbrushT700i" "ModelToothbrushT700i \<noteq> ModelSensorHTO2"
  "ModelSensorHTO2 \<noteq> []" "ModelToothbrushT700i \<noteq> []"
  "[] \<noteq> ModelSensorHTO2" "[] \<noteq> ModelToothbrushT700i"
  by (simp_all add: ModelSensorHTO2_def ModelToothbrushT700i_def)

lemma LookupProduct_eq:
  "LookupProduct n = (if n = 5860 then Some product_sensor
     else if n = 6032 then Some product_toothbrush else None)"
  by (simp add: LookupProduct_def products_def ProductIDSensorHTO2_def ProductIDToothbrushT700i_def)

lemma LookupProductByModel_eq:
  "LookupProductByModel m = (if m = ModelSensorHTO2 then Some product_sensor
     else if m = ModelToothbrushT700i then Some product_toothbrush else None)"
  by (simp add: LookupProductByModel_def find_model_def products_def)

lemma LookupProduct_cases:
  assumes "LookupProduct n = Some p"
  obtains (sensor) "n = 5860" and "p = product_sensor"
    | (toothbrush) "n = 6032" and "p = product_toothbrush"
  using assms by (auto simp: LookupProduct_eq split: if_splits)

lemma LookupProduct_id: "LookupProduct n = Some p \<Longrightarrow> p_id p = n"
  by (erule LookupProduct_cases) simp_all

lemma LookupProduct_zero [simp]: "LookupProduct 0 = None"
  by (simp add: LookupProduct_eq)

lemma LookupProductByModel_empty [simp]: "LookupProductByModel [] = None"
  by (simp add: LookupProductByModel_eq)

lemma LookupProductByModel_id:
  "LookupProductByModel m = Some p \<Longrightarrow> LookupProduct (p_id p) = Some p \<and> p_model p = m"
  by (auto simp: LookupProductByModel_eq LookupProduct_eq split: if_splits)

lemma product_model_nonempty: "LookupProduct n = Some p \<Longrightarrow> p_model p \<noteq> []"
  by (erule LookupProduct_cases) simp_all

lemma find_unique:
  assumes "\<And>x y. x \<in> set xs \<Longrightarrow> y \<in> set xs \<Longrightarrow> P x \<Longrightarrow> P y \<Longrightarrow> x = y" and "set xs = set ys"
  shows "find P xs = find P ys"
proof (cases "find P xs")
  case None
  then show ?thesis
    using assms(2) by (metis find_None_iff)
next
  case (Some x)
  then have x: "x \<in> set xs" "P x"
    by (auto dest: find_Some_iff_distinct)
  then have "find P ys \<noteq> None"
    using assms(2) by (metis find_None_iff)
  then obtain y where "find P ys = Some y"
    by blast
  then show ?thesis
    using x assms Some by (metis find_Some_iff_distinct)
qed

lemma find_model_order:
  assumes "mset ps = mset (map snd products)"
  shows "find_model ps m = LookupProductByModel m"
proof -
  have "set ps = set (map snd products)"
    using assms by (metis set_mset_mset)
  then show ?thesis
    unfolding find_model_def LookupProductByModel_def
    by (intro find_unique) (auto simp: products_def)
qed

text \<open>Every registered decoder keeps its promises: it is one of the two verified ones.\<close>

lemma product_decoder_valid:
  assumes "LookupProduct n = Some p" and "p_decode p = Some dec" and "valid_update u"
  shows "valid_update (fst (dec evs u))"
  using assms
  by (elim LookupProduct_cases)
     (auto simp: decodeSensorHTO2_def decodeToothbrushT700i_def
       intro!: sensor.run_valid toothbrush.run_valid)

lemma product_decoder_identity:
  assumes "LookupProduct n = Some p" and "p_decode p = Some dec"
  shows "same_identity u (fst (dec evs u))"
  using assms sensor.run_identity [of "(u, [])" evs] toothbrush.run_identity [of "(u, [])" evs]
  by (elim LookupProduct_cases)
     (auto simp: decodeSensorHTO2_def decodeToothbrushT700i_def)

end
