(* ===== verification/Parser.thy ===== *)
theory Parser
  imports Products
begin

section \<open>Parsing openmiio reports\<close>

text \<open>
  \<^verbatim>\<open>internal/openmiio/parser.go\<close>: a payload is either a BLE event report of one device or a
  list of MIoT property changes of several; other methods and unknown products give nothing.
  The result is Go's pair of a slice and an error, both of which may be present: a BLE report
  with a malformed event yields its update together with the error.

  A payload is its JSON document, \<open>None\<close> when the text has a syntax error.  The parameter
  \<open>conv\<close> is the implementation's conversion of an out-of-range \<^verbatim>\<open>float64\<close> to \<^verbatim>\<open>int\<close>.
\<close>

datatype parse_error =
    EnvelopeError
  | BLEEventError
  | ProductDecodeError go_string "decode_error list"
  | MIoTPropertiesError
  | MIoTValueError go_string go_string
  | MIoTOutOfRange go_string go_string f64
  | MIoTBatteryOutOfRange go_string int

record envelope =
  env_method :: go_string
  env_params :: "json option"

record ble_dev =
  dev_did :: go_string
  dev_mac :: go_string
  dev_pdid :: int

record ble_report =
  br_dev :: ble_dev
  br_events :: "ble_event list"
  br_frame_count :: int
  br_gateway_time :: int

record miot_prop =
  mp_did :: go_string
  mp_siid :: int
  mp_piid :: int
  mp_value :: "json option"

subsection \<open>Decoding the JSON structures\<close>

definition Unmarshal :: "'a decoder \<Rightarrow> json option \<Rightarrow> 'a \<Rightarrow> 'a option" where
  "Unmarshal d raw zero = (case raw of None \<Rightarrow> None | Some j \<Rightarrow> d j zero)"

definition envelope_fields :: "envelope fields" where
  "envelope_fields =
     [(''method'', field dec_string env_method env_method_update),
      (''params'', field dec_raw env_params env_params_update)]"

definition dev_fields :: "ble_dev fields" where
  "dev_fields =
     [(''did'', field dec_string dev_did dev_did_update),
      (''mac'', field dec_string dev_mac dev_mac_update),
      (''pdid'', field dec_go_int dev_pdid dev_pdid_update)]"

definition event_fields :: "ble_event fields" where
  "event_fields =
     [(''eid'', field dec_go_int ev_id ev_id_update),
      (''edata'', field dec_string ev_data ev_data_update)]"

definition zero_event :: ble_event where
  "zero_event = \<lparr>ev_id = 0, ev_data = []\<rparr>"

definition report_fields :: "ble_report fields" where
  "report_fields =
     [(''dev'', field (dec_struct dev_fields) br_dev br_dev_update),
      (''evt'', field (dec_list (dec_struct event_fields) zero_event) br_events br_events_update),
      (''frmCnt'', field dec_go_int br_frame_count br_frame_count_update),
      (''gwts'', field dec_int64 br_gateway_time br_gateway_time_update)]"

definition prop_fields :: "miot_prop fields" where
  "prop_fields =
     [(''did'', field dec_string mp_did mp_did_update),
      (''siid'', field dec_go_int mp_siid mp_siid_update),
      (''piid'', field dec_go_int mp_piid mp_piid_update),
      (''value'', field dec_raw mp_value mp_value_update)]"

definition zero_envelope :: envelope where
  "zero_envelope = \<lparr>env_method = [], env_params = None\<rparr>"

definition zero_report :: ble_report where
  "zero_report = \<lparr>br_dev = \<lparr>dev_did = [], dev_mac = [], dev_pdid = 0\<rparr>, br_events = [],
     br_frame_count = 0, br_gateway_time = 0\<rparr>"

definition zero_prop :: miot_prop where
  "zero_prop = \<lparr>mp_did = [], mp_siid = 0, mp_piid = 0, mp_value = None\<rparr>"

lemmas json_struct_defs = Unmarshal_def envelope_fields_def dev_fields_def event_fields_def
  report_fields_def prop_fields_def zero_envelope_def zero_event_def zero_report_def zero_prop_def
  dec_struct_def dec_field_def field_def name_matches_def

subsection \<open>BLE event reports\<close>

type_synonym parse_result = "update list \<times> parse_error option"

definition report_update :: "ble_report \<Rightarrow> product \<Rightarrow> update" where
  "report_update event product = zero_update\<lparr>
     u_did := dev_did (br_dev event),
     u_mac := NormalizeMAC (dev_mac (br_dev event)),
     u_product_id := dev_pdid (br_dev event),
     u_kind := p_kind product,
     u_model := p_model product,
     u_frame_count := br_frame_count event,
     u_has_frame_count := True,
     u_gateway_time := br_gateway_time event\<rparr>"

definition parseBLEEvent :: "json option \<Rightarrow> parse_result" where
  "parseBLEEvent raw =
     (case Unmarshal (dec_struct report_fields) raw zero_report of
        None \<Rightarrow> ([], Some BLEEventError)
      | Some event \<Rightarrow>
          (case LookupProduct (dev_pdid (br_dev event)) of
             None \<Rightarrow> ([], None)
           | Some product \<Rightarrow>
               (case p_decode product of
                  None \<Rightarrow> ([], None)
                | Some decode \<Rightarrow>
                    (case decode (br_events event) (report_update event product) of
                       (u, decodeErrors) \<Rightarrow>
                         if length decodeErrors > 0
                         then ([u], Some (ProductDecodeError (p_model product) decodeErrors))
                         else if \<not> HasMeasurements u then ([], None)
                         else ([u], None)))))"

subsection \<open>MIoT property changes\<close>

definition rawNumber :: "json option \<Rightarrow> f64 option" where
  "rawNumber raw = (case raw of Some (JNum lit) \<Rightarrow> ParseFloat (trim_space lit) | _ \<Rightarrow> None)"

definition miot_kind :: "miot_prop \<Rightarrow> go_string" where
  "miot_kind prop =
     (if mp_siid prop = 3 \<and> mp_piid prop = 1001 then ''temperature''
      else if mp_siid prop = 3 \<and> mp_piid prop = 1002 then ''humidity''
      else if mp_siid prop = 2 \<and> mp_piid prop = 1003 then ''battery''
      else [])"

type_synonym miot_state = "(go_string \<rightharpoonup> update) \<times> go_string list"

definition miot_set :: "(f64 \<Rightarrow> int) \<Rightarrow> go_string \<Rightarrow> go_string \<Rightarrow> f64 \<Rightarrow> update \<Rightarrow> parse_error + update" where
  "miot_set conv kind did value u =
     (if kind = ''temperature'' then
        let v = round_tenth value
        in if out_of_range (- 100) 150 v then Inl (MIoTOutOfRange kind did v)
           else Inr (u\<lparr>u_temperature := Some v\<rparr>)
      else if kind = ''humidity'' then
        let v = round_tenth value
        in if out_of_range 0 100 v then Inl (MIoTOutOfRange kind did v)
           else Inr (u\<lparr>u_humidity := Some v\<rparr>)
      else
        let v = f64_to_int conv (math_Round value)
        in if v < 0 \<or> v > 100 then Inl (MIoTBatteryOutOfRange did v)
           else Inr (u\<lparr>u_battery := Some v\<rparr>))"

definition miotStep :: "(f64 \<Rightarrow> int) \<Rightarrow> miot_state \<Rightarrow> miot_prop \<Rightarrow> parse_error + miot_state" where
  "miotStep conv st prop =
     (case st of (byDID, order) \<Rightarrow>
        let kind = miot_kind prop; did = mp_did prop
        in if kind = [] then Inr st
           else
             let order' = (if byDID did = None then order @ [did] else order);
                 u = (case byDID did of
                        None \<Rightarrow> zero_update\<lparr>u_did := did, u_model := ModelSensorHTO2\<rparr>
                      | Some u \<Rightarrow> u)
             in case rawNumber (mp_value prop) of
                  None \<Rightarrow> Inl (MIoTValueError kind did)
                | Some value \<Rightarrow>
                    (case miot_set conv kind did value u of
                       Inl err \<Rightarrow> Inl err
                     | Inr u' \<Rightarrow> Inr (byDID(did \<mapsto> u'), order')))"

fun miotLoop :: "(f64 \<Rightarrow> int) \<Rightarrow> miot_state \<Rightarrow> miot_prop list \<Rightarrow> parse_error + miot_state" where
  "miotLoop conv st [] = Inr st"
| "miotLoop conv st (prop # props) =
     (case miotStep conv st prop of Inl err \<Rightarrow> Inl err | Inr st' \<Rightarrow> miotLoop conv st' props)"

definition parseMIoTProperties :: "(f64 \<Rightarrow> int) \<Rightarrow> json option \<Rightarrow> parse_result" where
  "parseMIoTProperties conv raw =
     (case Unmarshal (dec_list (dec_struct prop_fields) zero_prop) raw [] of
        None \<Rightarrow> ([], Some MIoTPropertiesError)
      | Some props \<Rightarrow>
          (case miotLoop conv (Map.empty, []) props of
             Inl err \<Rightarrow> ([], Some err)
           | Inr (byDID, order) \<Rightarrow>
               (filter HasMeasurements (List.map_filter byDID order), None)))"

subsection \<open>The entry point\<close>

definition Parse :: "(f64 \<Rightarrow> int) \<Rightarrow> json option \<Rightarrow> parse_result" where
  "Parse conv payload =
     (case Unmarshal (dec_struct envelope_fields) payload zero_envelope of
        None \<Rightarrow> ([], Some EnvelopeError)
      | Some env \<Rightarrow>
          if env_method env = ''_async.ble_event'' then parseBLEEvent (env_params env)
          else if env_method env = ''properties_changed'' then parseMIoTProperties conv (env_params env)
          else ([], None))"


subsection \<open>What BLE reports yield\<close>

definition ble_update_ok :: "update \<Rightarrow> bool" where
  "ble_update_ok u \<longleftrightarrow> valid_update u \<and> u_has_frame_count u \<and> SupportedProduct (u_product_id u)
     \<and> NormalizeMAC (u_mac u) = u_mac u
     \<and> map_option p_model (LookupProduct (u_product_id u)) = Some (u_model u)"

lemma valid_report_update: "valid_update (report_update event product)"
  by (simp add: report_update_def valid_update_def zero_update_def)

lemma parseBLEEvent_cases:
  assumes "u \<in> set (fst (parseBLEEvent raw))"
  obtains event product decode decodeErrors
  where "Unmarshal (dec_struct report_fields) raw zero_report = Some event"
    and "LookupProduct (dev_pdid (br_dev event)) = Some product"
    and "p_decode product = Some decode"
    and "decode (br_events event) (report_update event product) = (u, decodeErrors)"
  using assms
  by (auto simp: parseBLEEvent_def split: option.splits prod.splits if_splits)

lemma parseBLEEvent_ok:
  assumes "u \<in> set (fst (parseBLEEvent raw))"
  shows "ble_update_ok u"
proof -
  obtain event product decode errs
    where p: "LookupProduct (dev_pdid (br_dev event)) = Some product"
      and d: "p_decode product = Some decode"
      and u: "decode (br_events event) (report_update event product) = (u, errs)"
    using assms by (rule parseBLEEvent_cases)
  have "valid_update u"
    using product_decoder_valid [OF p d valid_report_update, of "br_events event" event product] u
    by simp
  moreover have "same_identity (report_update event product) u"
    using product_decoder_identity [OF p d, of "report_update event product" "br_events event"] u
    by simp
  ultimately show ?thesis
    using p by (simp add: ble_update_ok_def same_identity_def report_update_def SupportedProduct_def)
qed

lemma parseBLEEvent_measured:
  "snd (parseBLEEvent raw) = None \<Longrightarrow> u \<in> set (fst (parseBLEEvent raw)) \<Longrightarrow> HasMeasurements u"
  by (auto simp: parseBLEEvent_def split: option.splits prod.splits if_splits)

lemma parseBLEEvent_length: "length (fst (parseBLEEvent raw)) \<le> 1"
  by (auto simp: parseBLEEvent_def split: option.splits prod.splits)

subsection \<open>What property changes yield\<close>

definition miot_update_ok :: "update \<Rightarrow> bool" where
  "miot_update_ok u \<longleftrightarrow> valid_update u \<and> HasMeasurements u \<and> \<not> u_has_frame_count u
     \<and> u_mac u = [] \<and> u_product_id u = 0 \<and> u_toothbrush u = None \<and> u_model u = ModelSensorHTO2"

definition miot_inv :: "miot_state \<Rightarrow> bool" where
  "miot_inv st \<longleftrightarrow> (case st of (byDID, order) \<Rightarrow> dom byDID = set order \<and> distinct order
     \<and> (\<forall>did u. byDID did = Some u \<longrightarrow> u_did u = did \<and> miot_update_ok u))"

definition relevant :: "miot_prop \<Rightarrow> bool" where
  "relevant prop \<longleftrightarrow> miot_kind prop \<noteq> []"

definition first_seen :: "'a list \<Rightarrow> 'a list" where
  "first_seen xs = rev (remdups (rev xs))"

lemma rawNumber_finite: "rawNumber raw = Some v \<Longrightarrow> \<exists>q. v = Fin q"
  by (auto simp: rawNumber_def dest: ParseFloat_finite split: option.splits json.splits)

text \<open>
  Setting a property on an update that is fresh or already accepted gives an accepted update;
  the range tests are on the rounded value, so they bound what is stored.
\<close>

definition miot_base :: "go_string \<Rightarrow> update \<Rightarrow> bool" where
  "miot_base did u \<longleftrightarrow> valid_update u \<and> \<not> u_has_frame_count u \<and> u_mac u = [] \<and> u_product_id u = 0
     \<and> u_toothbrush u = None \<and> u_model u = ModelSensorHTO2 \<and> u_did u = did"

lemma in_range_valid_f64:
  "\<not> out_of_range lo hi (round_tenth v) \<Longrightarrow> v \<noteq> NaN \<Longrightarrow> valid_f64 lo hi (Some (round_tenth v))"
  using in_range_Fin [of lo hi "round_tenth v"] by (auto simp: valid_f64_def)

lemma miot_set_ok:
  assumes "miot_set conv kind did vl u = Inr u'" and "miot_base did u" and "vl \<noteq> NaN"
  shows "u_did u' = did \<and> miot_update_ok u'"
  using assms in_range_valid_f64 [OF _ assms(3)]
  by (auto simp: miot_set_def miot_base_def miot_update_ok_def valid_update_def HasMeasurements_def
      Let_def valid_int_def split: if_splits)

lemma miot_base_fresh: "miot_base did (zero_update\<lparr>u_did := did, u_model := ModelSensorHTO2\<rparr>)"
  by (simp add: miot_base_def valid_update_def zero_update_def)

lemma miotStep_inv:
  assumes "miotStep conv st prop = Inr st'" and "miot_inv st"
  shows "miot_inv st'"
proof -
  obtain m ord where st: "st = (m, ord)"
    by fastforce
  show ?thesis
  proof (cases "miot_kind prop = []")
    case True
    with assms show ?thesis
      by (simp add: miotStep_def st)
  next
    case False
    define u where "u = (case m (mp_did prop) of
        None \<Rightarrow> zero_update\<lparr>u_did := mp_did prop, u_model := ModelSensorHTO2\<rparr> | Some u \<Rightarrow> u)"
    obtain vl u' where v: "rawNumber (mp_value prop) = Some vl"
      and s: "miot_set conv (miot_kind prop) (mp_did prop) vl u = Inr u'"
      and st': "st' = (m(mp_did prop \<mapsto> u'),
          if m (mp_did prop) = None then ord @ [mp_did prop] else ord)"
      using assms(1) False
      by (auto simp: miotStep_def st u_def Let_def split: option.splits sum.splits if_splits)
    have "miot_base (mp_did prop) u"
      using assms(2) miot_base_fresh
      by (auto simp: u_def st miot_inv_def miot_base_def miot_update_ok_def split: option.splits)
    moreover have "vl \<noteq> NaN"
      using rawNumber_finite [OF v] by auto
    ultimately have "u_did u' = mp_did prop \<and> miot_update_ok u'"
      using s by (intro miot_set_ok)
    then show ?thesis
      using assms(2) by (auto simp: miot_inv_def st st' domIff)
  qed
qed

lemma miotLoop_inv: "miotLoop conv st props = Inr st' \<Longrightarrow> miot_inv st \<Longrightarrow> miot_inv st'"
  by (induction props arbitrary: st) (auto dest: miotStep_inv split: sum.splits)

lemma miot_inv_init [simp]: "miot_inv (Map.empty, [])"
  by (simp add: miot_inv_def)

lemma first_seen_snoc:
  "first_seen (xs @ [x]) = (if x \<in> set xs then first_seen xs else first_seen xs @ [x])"
  by (simp add: first_seen_def)

lemma set_first_seen [simp]: "set (first_seen xs) = set xs"
  by (simp add: first_seen_def)

lemma distinct_first_seen [simp]: "distinct (first_seen xs)"
  by (simp add: first_seen_def)

lemma miotStep_order:
  assumes "miotStep conv (m, ord) prop = Inr (m', ord')" and "dom m = set dids"
    and "ord = first_seen dids"
  shows "\<exists>dids'. dids' = dids @ map mp_did (filter relevant [prop]) \<and> dom m' = set dids'
    \<and> ord' = first_seen dids'"
proof (cases "relevant prop")
  case False
  with assms show ?thesis
    by (auto simp: miotStep_def relevant_def)
next
  case True
  have "ord' = (if m (mp_did prop) = None then ord @ [mp_did prop] else ord)"
    and "dom m' = insert (mp_did prop) (dom m)"
    using assms(1) True
    by (auto simp: miotStep_def relevant_def Let_def split: option.splits sum.splits if_splits)
  with assms(2,3) True show ?thesis
    by (auto simp: first_seen_snoc domIff)
qed

lemma miotLoop_order:
  assumes "miotLoop conv (m, ord) props = Inr (m', ord')" and "dom m = set dids"
    and "ord = first_seen dids"
  shows "ord' = first_seen (dids @ map mp_did (filter relevant props))"
  using assms
proof (induction props arbitrary: m ord dids)
  case Nil
  then show ?case by simp
next
  case (Cons p ps)
  then obtain m1 ord1 where s: "miotStep conv (m, ord) p = Inr (m1, ord1)"
    and l: "miotLoop conv (m1, ord1) ps = Inr (m', ord')"
    by (auto split: sum.splits)
  from miotStep_order [OF s Cons.prems(2,3)]
  have "dom m1 = set (dids @ map mp_did (filter relevant [p]))"
    and "ord1 = first_seen (dids @ map mp_did (filter relevant [p]))"
    by blast+
  from Cons.IH [OF l this] show ?case
    by simp
qed

lemma parseMIoT_result:
  assumes "parseMIoTProperties conv raw = (us, None)"
  obtains props byDID order
  where "Unmarshal (dec_list (dec_struct prop_fields) zero_prop) raw [] = Some props"
    and "miotLoop conv (Map.empty, []) props = Inr (byDID, order)"
    and "us = map (the \<circ> byDID) order"
    and "miot_inv (byDID, order)"
proof -
  obtain props byDID order
    where p: "Unmarshal (dec_list (dec_struct prop_fields) zero_prop) raw [] = Some props"
      and l: "miotLoop conv (Map.empty, []) props = Inr (byDID, order)"
      and us: "us = filter HasMeasurements (List.map_filter byDID order)"
    using assms
    by (auto simp: parseMIoTProperties_def split: option.splits sum.splits prod.splits)
  have inv: "miot_inv (byDID, order)"
    using miotLoop_inv [OF l] by simp
  then have "\<forall>did \<in> set order. \<exists>u. byDID did = Some u \<and> HasMeasurements u"
    by (simp add: miot_inv_def miot_update_ok_def) (metis domD)
  then have "us = map (the \<circ> byDID) order"
    unfolding us by (induction order) (auto simp: List.map_filter_simps)
  then show thesis
    using p l inv by (intro that)
qed

lemma parseMIoT_none: "snd (parseMIoTProperties conv raw) \<noteq> None \<Longrightarrow> fst (parseMIoTProperties conv raw) = []"
  by (auto simp: parseMIoTProperties_def split: option.splits sum.splits prod.splits)

lemma parseMIoT_ok:
  assumes "u \<in> set (fst (parseMIoTProperties conv raw))"
  shows "miot_update_ok u"
proof -
  obtain us e where r: "parseMIoTProperties conv raw = (us, e)"
    by fastforce
  with assms parseMIoT_none [of conv raw] have "e = None"
    by (cases e) auto
  with r obtain props byDID order where us: "us = map (the \<circ> byDID) order"
    and inv: "miot_inv (byDID, order)"
    using parseMIoT_result by blast
  with assms r obtain did where "did \<in> set order" and u: "u = the (byDID did)"
    by auto
  with inv have "did \<in> dom byDID"
    by (simp add: miot_inv_def)
  then obtain v where "byDID did = Some v"
    by blast
  with inv u show ?thesis
    by (simp add: miot_inv_def)
qed

lemma Parse_cases:
  assumes "u \<in> set (fst (Parse conv payload))"
  shows "ble_update_ok u \<or> miot_update_ok u"
  using assms parseBLEEvent_ok parseMIoT_ok
  by (auto simp: Parse_def split: option.splits if_splits)

end
