(* ===== verification/Report_Documents.thy ===== *)
theory Report_Documents
  imports Parser
begin

section \<open>Reports as documents\<close>

text \<open>
  The documents openmiio sends for BLE reports, built from their parts, and what \<open>Parse\<close> makes
  of them.  The examples are the messages of \<^verbatim>\<open>parser_test.go\<close>.
\<close>

definition event_doc :: "ble_event \<Rightarrow> json" where
  "event_doc e = JObj [(''eid'', JNum (itoa (ev_id e))), (''edata'', JStr (ev_data e))]"

definition dev_doc :: "ble_dev \<Rightarrow> json" where
  "dev_doc d = JObj [(''did'', JStr (dev_did d)), (''mac'', JStr (dev_mac d)),
     (''pdid'', JNum (itoa (dev_pdid d)))]"

definition report_doc :: "ble_report \<Rightarrow> json" where
  "report_doc r = JObj [(''dev'', dev_doc (br_dev r)), (''evt'', JArr (map event_doc (br_events r))),
     (''frmCnt'', JNum (itoa (br_frame_count r))), (''gwts'', JNum (itoa (br_gateway_time r)))]"

definition ble_doc :: "ble_report \<Rightarrow> json" where
  "ble_doc r = JObj [(''method'', JStr ''_async.ble_event''), (''params'', report_doc r)]"

text \<open>A report whose numbers fit the Go types they are read into.\<close>

definition report_fits :: "ble_report \<Rightarrow> bool" where
  "report_fits r \<longleftrightarrow> in_i32 (dev_pdid (br_dev r)) \<and> in_i32 (br_frame_count r)
     \<and> in_i64 (br_gateway_time r) \<and> list_all (\<lambda>e. in_i32 (ev_id e)) (br_events r)"

definition other_product :: "int \<Rightarrow> bool" where
  "other_product pdid \<longleftrightarrow> pdid \<noteq> 5860 \<and> pdid \<noteq> 6032"

text \<open>ASCII field names fold to lower case.\<close>

lemma fold_name_ascii:
  "list_all (\<lambda>c. char_code c < 128) s \<Longrightarrow> fold_name s = map lower_char s"
proof (induction s)
  case (Cons c s)
  then have "c \<noteq> char_of (226 :: nat)" and "c \<noteq> char_of (197 :: nat)"
    by (auto simp: char_code_def)
  with Cons show ?case
    by simp
qed simp

lemma field_names:
  "name_matches ''eid'' ''eid''" "\<not> name_matches ''edata'' ''eid''" "name_matches ''edata'' ''edata''"
  "name_matches ''did'' ''did''" "\<not> name_matches ''mac'' ''did''" "name_matches ''mac'' ''mac''"
  "\<not> name_matches ''pdid'' ''did''" "\<not> name_matches ''pdid'' ''mac''" "name_matches ''pdid'' ''pdid''"
  "name_matches ''dev'' ''dev''" "\<not> name_matches ''evt'' ''dev''" "name_matches ''evt'' ''evt''"
  "\<not> name_matches ''frmCnt'' ''dev''" "\<not> name_matches ''frmCnt'' ''evt''" "name_matches ''frmCnt'' ''frmCnt''"
  "\<not> name_matches ''gwts'' ''dev''" "\<not> name_matches ''gwts'' ''evt''" "\<not> name_matches ''gwts'' ''frmCnt''"
  "name_matches ''gwts'' ''gwts''" "name_matches ''method'' ''method''"
  "\<not> name_matches ''params'' ''method''" "name_matches ''params'' ''params''"
  by (simp_all add: name_matches_def fold_name_ascii lower_char_def char_code_def)

lemma dec_struct_obj: "dec_struct fs (JObj kvs) s = dec_pairs fs kvs s"
  by (simp add: dec_struct_def)

lemmas struct_eval = dec_struct_obj dec_field_def field_def field_names

lemma dec_event: "in_i32 (ev_id e) \<Longrightarrow> dec_struct event_fields (event_doc e) z = Some e"
  by (cases e; cases z) (simp add: event_doc_def event_fields_def struct_eval dec_go_int_def)

lemma dec_events:
  "list_all (\<lambda>e. in_i32 (ev_id e)) es \<Longrightarrow>
     dec_items (dec_struct event_fields) zero_event (map event_doc es) olds = Some es"
  by (induction es arbitrary: olds) (simp_all add: dec_event)

lemma dec_dev: "in_i32 (dev_pdid d) \<Longrightarrow> dec_struct dev_fields (dev_doc d) z = Some d"
  by (cases d; cases z) (simp add: dev_doc_def dev_fields_def struct_eval dec_go_int_def)

lemma dec_report:
  "report_fits r \<Longrightarrow> dec_struct report_fields (report_doc r) z = Some r"
  by (cases r; cases z) (simp add: report_fits_def report_doc_def report_fields_def struct_eval
      dec_go_int_def dec_int64_def dec_dev dec_list_def dec_events)

lemma Parse_ble_doc:
  "report_fits r \<Longrightarrow> Parse conv (Some (ble_doc r)) =
     (case LookupProduct (dev_pdid (br_dev r)) of
        None \<Rightarrow> ([], None)
      | Some product \<Rightarrow>
          (let (u, errs) = (the (p_decode product)) (br_events r) (report_update r product)
           in if errs \<noteq> [] then ([u], Some (ProductDecodeError (p_model product) errs))
              else if HasMeasurements u then ([u], None) else ([], None)))"
  by (auto simp: Parse_def ble_doc_def envelope_fields_def zero_envelope_def struct_eval Unmarshal_def
      dec_raw_def parseBLEEvent_def dec_report LookupProduct_eq split: prod.split)

subsection \<open>Examples\<close>

definition sensor_report :: ble_report where
  "sensor_report = \<lparr>br_dev = \<lparr>dev_did = ''blt.3.test'', dev_mac = ''AA:BB:CC:DD:EE:FF'', dev_pdid = 5860\<rparr>,
     br_events = [\<lparr>ev_id = 19457, ev_data = ''3333bb41''\<rparr>, \<lparr>ev_id = 19458, ev_data = ''2d''\<rparr>,
                  \<lparr>ev_id = 18435, ev_data = ''58''\<rparr>],
     br_frame_count = 36, br_gateway_time = 1636208932\<rparr>"

definition start_report :: ble_report where
  "start_report = \<lparr>br_dev = \<lparr>dev_did = ''blt.1.toothbrush'', dev_mac = ''C0:B5:86:1F:E4:5F'', dev_pdid = 6032\<rparr>,
     br_events = [\<lparr>ev_id = 12291, ev_data = ''009b5d776a''\<rparr>],
     br_frame_count = 234, br_gateway_time = 1786207645\<rparr>"

definition malformed_report :: ble_report where
  "malformed_report = \<lparr>br_dev = \<lparr>dev_did = ''x'', dev_mac = ''C0B5861FE45F'', dev_pdid = 6032\<rparr>,
     br_events = [\<lparr>ev_id = 12291, ev_data = ''01ff''\<rparr>], br_frame_count = 1, br_gateway_time = 0\<rparr>"

text \<open>The updates that parsing these yields.\<close>

definition sensor_update :: update where
  "sensor_update = \<lparr>u_did = ''blt.3.test'', u_mac = ''aa:bb:cc:dd:ee:ff'', u_product_id = 5860,
     u_kind = ''climate'', u_model = ''miaomiaoce.sensor_ht.o2'', u_frame_count = 36,
     u_has_frame_count = True, u_gateway_time = 1636208932, u_temperature = ParseFloat ''23.4'',
     u_humidity = Some (Fin 45), u_battery = Some 88, u_toothbrush = None\<rparr>"

definition start_update :: update where
  "start_update = \<lparr>u_did = ''blt.1.toothbrush'', u_mac = ''c0:b5:86:1f:e4:5f'', u_product_id = 6032,
     u_kind = ''toothbrush'', u_model = ''k0918.toothbrush.t700i'', u_frame_count = 234,
     u_has_frame_count = True, u_gateway_time = 1786207645, u_temperature = None, u_humidity = None,
     u_battery = None,
     u_toothbrush = Some \<lparr>tb_type = 0, tb_timestamp = 1786207643, tb_score = None\<rparr>\<rparr>"

lemma report_fits_examples [simp]:
  "report_fits sensor_report" "report_fits start_report" "report_fits malformed_report"
  by (simp_all add: report_fits_def sensor_report_def start_report_def malformed_report_def
      in_i32_def in_i64_def)

lemma sensor_report_parsed: "Parse conv (Some (ble_doc sensor_report)) = ([sensor_update], None)"
proof -
  have "decodeSensorHTO2 (br_events sensor_report) (report_update sensor_report product_sensor)
      = (sensor_update, [])"
    by code_simp
  moreover have "HasMeasurements sensor_update"
    by (simp add: HasMeasurements_def sensor_update_def)
  moreover have "LookupProduct (dev_pdid (br_dev sensor_report)) = Some product_sensor"
    by (simp add: sensor_report_def LookupProduct_eq)
  ultimately show ?thesis
    by (simp add: Parse_ble_doc)
qed

lemma start_report_parsed: "Parse conv (Some (ble_doc start_report)) = ([start_update], None)"
proof -
  have "decodeToothbrushT700i (br_events start_report) (report_update start_report product_toothbrush)
      = (start_update, [])"
    by code_simp
  moreover have "HasMeasurements start_update"
    by (simp add: HasMeasurements_def start_update_def)
  moreover have "LookupProduct (dev_pdid (br_dev start_report)) = Some product_toothbrush"
    by (simp add: start_report_def LookupProduct_eq)
  ultimately show ?thesis
    by (simp add: Parse_ble_doc)
qed

end
