(* ===== verification/Deduplicator.thy ===== *)
theory Deduplicator
  imports Parser
begin

section \<open>Frame de-duplication\<close>

text \<open>
  \<^verbatim>\<open>internal/openmiio/deduplicator.go\<close>: per device the last accepted one-byte frame
  counter and when it was seen.  \<open>Classify\<close> takes the clock reading as an argument and returns
  the disposition with the new state.

  The abstract specification numbers the frames a device sends without wrapping.  The theorems
  at the end show that the byte comparison decides correctly, as long as a frame is at most 127
  ahead of the last accepted one or at most 128 behind it.
\<close>

record frame_state =
  counter :: "8 word"
  seen_at :: time

record deduplicator =
  ResetAfter :: duration
  frames :: "go_string \<rightharpoonup> frame_state"

datatype disposition = FrameAccepted | FrameDuplicate | FrameStale

definition NewDeduplicator :: "duration \<Rightarrow> deduplicator" where
  "NewDeduplicator resetAfter = \<lparr>ResetAfter = resetAfter, frames = Map.empty\<rparr>"

text \<open>The identity of a device, and whether it has one at all.\<close>

definition frame_key :: "update \<Rightarrow> go_string" where
  "frame_key u = (if to_lower (u_mac u) = [] then ''did:'' @ u_did u else to_lower (u_mac u))"

definition Classify :: "time \<Rightarrow> deduplicator \<Rightarrow> update \<Rightarrow> disposition \<times> deduplicator" where
  "Classify now d u =
     (if \<not> u_has_frame_count u then (FrameAccepted, d)
      else
        let key = frame_key u
        in if key = ''did:'' then (FrameAccepted, d)
           else
             let next = word_of_int (u_frame_count u);
                 accepted = d\<lparr>frames := (frames d)(key \<mapsto> \<lparr>counter = next, seen_at = now\<rparr>)\<rparr>
             in case frames d key of
                  None \<Rightarrow> (FrameAccepted, accepted)
                | Some previous \<Rightarrow>
                    if ResetAfter d \<le> 0 \<or> time_sub now (seen_at previous) \<ge> ResetAfter d
                    then (FrameAccepted, accepted)
                    else
                      let delta = next - counter previous
                      in if delta = 0 then (FrameDuplicate, d)
                         else if delta > 127 then (FrameStale, d)
                         else (FrameAccepted, accepted))"

definition Accept :: "time \<Rightarrow> deduplicator \<Rightarrow> update \<Rightarrow> bool \<times> deduplicator" where
  "Accept now d u = (case Classify now d u of (disp, d') \<Rightarrow> (disp = FrameAccepted, d'))"

subsection \<open>State changes\<close>

definition tracked :: "update \<Rightarrow> bool" where
  "tracked u \<longleftrightarrow> u_has_frame_count u \<and> frame_key u \<noteq> ''did:''"

definition fresh :: "time \<Rightarrow> deduplicator \<Rightarrow> frame_state \<Rightarrow> bool" where
  "fresh now d previous \<longleftrightarrow> 0 < ResetAfter d \<and> time_sub now (seen_at previous) < ResetAfter d"

lemma Classify_untracked: "\<not> tracked u \<Longrightarrow> Classify now d u = (FrameAccepted, d)"
  by (simp add: Classify_def tracked_def Let_def)

lemma Classify_tracked:
  assumes "tracked u"
  shows "Classify now d u =
     (case frames d (frame_key u) of
        Some previous \<Rightarrow>
          if fresh now d previous then
            (let delta = word_of_int (u_frame_count u) - counter previous
             in if delta = 0 then (FrameDuplicate, d)
                else if delta > 127 then (FrameStale, d)
                else (FrameAccepted, d\<lparr>frames := (frames d)(frame_key u \<mapsto>
                       \<lparr>counter = word_of_int (u_frame_count u), seen_at = now\<rparr>)\<rparr>))
          else (FrameAccepted, d\<lparr>frames := (frames d)(frame_key u \<mapsto>
                  \<lparr>counter = word_of_int (u_frame_count u), seen_at = now\<rparr>)\<rparr>)
      | None \<Rightarrow> (FrameAccepted, d\<lparr>frames := (frames d)(frame_key u \<mapsto>
                  \<lparr>counter = word_of_int (u_frame_count u), seen_at = now\<rparr>)\<rparr>))"
  using assms by (auto simp: Classify_def tracked_def fresh_def Let_def split: option.splits)

lemma Classify_ResetAfter [simp]: "ResetAfter (snd (Classify now d u)) = ResetAfter d"
  by (simp add: Classify_def Let_def split: option.splits)

text \<open>Only an accepted frame moves the baseline, and only that of its own device.\<close>

lemma Classify_rejected:
  "Classify now d u = (disp, d') \<Longrightarrow> disp \<noteq> FrameAccepted \<Longrightarrow> d' = d"
  by (auto simp: Classify_def Let_def split: option.splits if_splits)

lemma Classify_accepted:
  assumes "Classify now d u = (FrameAccepted, d')" and "tracked u"
  shows "d' = d\<lparr>frames := (frames d)(frame_key u \<mapsto>
     \<lparr>counter = word_of_int (u_frame_count u), seen_at = now\<rparr>)\<rparr>"
  using assms by (auto simp: Classify_tracked Let_def split: option.splits if_splits)

lemma Classify_frame:
  "key \<noteq> frame_key u \<Longrightarrow> frames (snd (Classify now d u)) key = frames d key"
  by (auto simp: Classify_def Let_def split: option.splits)

subsection \<open>Byte distances\<close>

text \<open>
  The distance of two counters as bytes, when they stand for frame numbers \<open>m\<close> and \<open>n\<close>.
\<close>

lemma byte_delta:
  "uint (word_of_int n - word_of_int m :: 8 word) = (n - m) mod 256"
proof -
  have "(word_of_int n - word_of_int m :: 8 word) = word_of_int (n - m)"
    by (rule wi_hom_sub)
  then show ?thesis
    by (simp only: uint_word_of_int) simp
qed

lemma byte_delta_zero:
  "(word_of_int n :: 8 word) = word_of_int m \<longleftrightarrow> (n - m) mod 256 = 0"
  unfolding byte_delta [symmetric] uint_0_iff by (rule right_minus_eq [symmetric])

lemma byte_delta_gt:
  "(word_of_int n - word_of_int m :: 8 word) > 127 \<longleftrightarrow> (n - m) mod 256 > 127"
  unfolding byte_delta [symmetric] word_less_def by simp

lemma near_mod_256:
  fixes n m :: int
  assumes "n - m \<le> 127" and "m - n \<le> 128"
  shows "(n - m) mod 256 = 0 \<longleftrightarrow> n = m" and "(n - m) mod 256 > 127 \<longleftrightarrow> n < m"
proof -
  have "(n - m) mod 256 = n - m" if "m \<le> n"
    using assms that by (intro mod_pos_pos_trivial) simp_all
  moreover have "(n - m) mod 256 = n - m + 256" if "n < m"
  proof -
    have "(n - m + 256) mod 256 = n - m + 256"
      using assms that by (intro mod_pos_pos_trivial) simp_all
    then show ?thesis
      by simp
  qed
  ultimately show "(n - m) mod 256 = 0 \<longleftrightarrow> n = m" and "(n - m) mod 256 > 127 \<longleftrightarrow> n < m"
    using assms by (cases "n < m"; simp)+
qed

subsection \<open>Abstract specification: unbounded frame numbers\<close>

text \<open>
  A device numbers its frames without wrapping; the specification keeps the number of the last
  accepted frame and its time.  A frame is a triple of the clock reading, the update and the
  number the update's counter byte stands for.
\<close>

type_synonym numbering = "go_string \<rightharpoonup> int \<times> time"
type_synonym arrival = "time \<times> update \<times> int"

definition spec_fresh :: "time \<Rightarrow> duration \<Rightarrow> time \<Rightarrow> bool" where
  "spec_fresh now reset t \<longleftrightarrow> 0 < reset \<and> time_sub now t < reset"

definition spec_classify :: "duration \<Rightarrow> numbering \<Rightarrow> arrival \<Rightarrow> disposition \<times> numbering" where
  "spec_classify reset s a =
     (case a of (now, u, n) \<Rightarrow>
        if \<not> tracked u then (FrameAccepted, s)
        else case s (frame_key u) of
            None \<Rightarrow> (FrameAccepted, s(frame_key u \<mapsto> (n, now)))
          | Some (m, t) \<Rightarrow>
              if \<not> spec_fresh now reset t then (FrameAccepted, s(frame_key u \<mapsto> (n, now)))
              else if n = m then (FrameDuplicate, s)
              else if n < m then (FrameStale, s)
              else (FrameAccepted, s(frame_key u \<mapsto> (n, now))))"

text \<open>What the byte counters show of the numbering.\<close>

definition counters :: "numbering \<Rightarrow> (go_string \<rightharpoonup> frame_state)" where
  "counters s = (\<lambda>key. map_option (\<lambda>(m, t). \<lparr>counter = word_of_int m, seen_at = t\<rparr>) (s key))"

text \<open>
  The numbers a frame may have: it shows the right byte, and is near the last accepted frame
  while that one still counts.
\<close>

definition near :: "duration \<Rightarrow> numbering \<Rightarrow> arrival \<Rightarrow> bool" where
  "near reset s a =
     (case a of (now, u, n) \<Rightarrow>
        (word_of_int (u_frame_count u) :: 8 word) = word_of_int n
        \<and> (case s (frame_key u) of
             None \<Rightarrow> True
           | Some (m, t) \<Rightarrow> spec_fresh now reset t \<longrightarrow> n - m \<le> 127 \<and> m - n \<le> 128))"

lemma counters_upd: "counters (s(k \<mapsto> (n, t))) = (counters s)(k \<mapsto> \<lparr>counter = word_of_int n, seen_at = t\<rparr>)"
  by (auto simp: counters_def fun_eq_iff)

lemma Classify_refines:
  assumes "frames d = counters s" and "near (ResetAfter d) s (now, u, n)"
  shows "fst (Classify now d u) = fst (spec_classify (ResetAfter d) s (now, u, n))"
    and "frames (snd (Classify now d u)) = counters (snd (spec_classify (ResetAfter d) s (now, u, n)))"
proof -
  have "fst (Classify now d u) = fst (spec_classify (ResetAfter d) s (now, u, n))
    \<and> frames (snd (Classify now d u)) = counters (snd (spec_classify (ResetAfter d) s (now, u, n)))"
  proof (cases "tracked u")
    case False
    with assms show ?thesis
      by (simp add: Classify_untracked spec_classify_def)
  next
    case tracked: True
    have byte: "(word_of_int (u_frame_count u) :: 8 word) = word_of_int n"
      using assms(2) by (simp add: near_def)
    show ?thesis
    proof (cases "s (frame_key u)")
      case None
      with tracked assms byte show ?thesis
        by (simp add: Classify_tracked spec_classify_def counters_upd) (simp add: counters_def)
    next
      case (Some mt)
      obtain m t where mt: "mt = (m, t)"
        by fastforce
      have f: "frames d (frame_key u) = Some \<lparr>counter = word_of_int m, seen_at = t\<rparr>"
        using assms(1) Some mt by (simp add: counters_def)
      show ?thesis
      proof (cases "spec_fresh now (ResetAfter d) t")
        case False
        with tracked assms byte Some mt f show ?thesis
          by (simp add: Classify_tracked spec_classify_def counters_upd fresh_def spec_fresh_def)
      next
        case True
        then have "n - m \<le> 127" and "m - n \<le> 128"
          using assms(2) Some mt by (simp_all add: near_def)
        note delta = near_mod_256 [OF this]
        note zero = delta(1) [folded byte_delta_zero] and gt = delta(2) [folded byte_delta_gt]
        from True tracked assms(1) byte Some mt f zero gt show ?thesis
          by (simp add: Classify_tracked spec_classify_def counters_upd fresh_def spec_fresh_def Let_def)
      qed
    qed
  qed
  then show "fst (Classify now d u) = fst (spec_classify (ResetAfter d) s (now, u, n))"
    and "frames (snd (Classify now d u)) = counters (snd (spec_classify (ResetAfter d) s (now, u, n)))"
    by simp_all
qed


subsection \<open>Runs\<close>

fun classify_run :: "deduplicator \<Rightarrow> arrival list \<Rightarrow> disposition list" where
  "classify_run d [] = []"
| "classify_run d ((now, u, n) # as) =
     fst (Classify now d u) # classify_run (snd (Classify now d u)) as"

fun spec_run :: "duration \<Rightarrow> numbering \<Rightarrow> arrival list \<Rightarrow> disposition list" where
  "spec_run reset s [] = []"
| "spec_run reset s (a # as) =
     fst (spec_classify reset s a) # spec_run reset (snd (spec_classify reset s a)) as"

fun near_run :: "duration \<Rightarrow> numbering \<Rightarrow> arrival list \<Rightarrow> bool" where
  "near_run reset s [] = True"
| "near_run reset s (a # as) =
     (near reset s a \<and> near_run reset (snd (spec_classify reset s a)) as)"

lemma classify_run_refines:
  assumes "frames d = counters s" and "near_run (ResetAfter d) s as"
  shows "classify_run d as = spec_run (ResetAfter d) s as"
  using assms
proof (induction as arbitrary: d s)
  case Nil
  then show ?case by simp
next
  case (Cons a as)
  obtain now u n where a: "a = (now, u, n)"
    by (cases a) auto
  let ?d = "snd (Classify now d u)" and ?s = "snd (spec_classify (ResetAfter d) s a)"
  have "near (ResetAfter d) s (now, u, n)"
    using Cons.prems(2) a by simp
  from Classify_refines [OF Cons.prems(1) this]
  have "fst (Classify now d u) = fst (spec_classify (ResetAfter d) s a)"
    and "frames ?d = counters ?s"
    by (simp_all add: a)
  moreover have "near_run (ResetAfter ?d) ?s as"
    using Cons.prems(2) by simp
  ultimately show ?case
    using Cons.IH [of ?d ?s] by (simp add: a)
qed

lemma counters_empty [simp]: "counters Map.empty = Map.empty"
  by (simp add: counters_def fun_eq_iff)

text \<open>The numbers of the accepted frames of one device, in order of arrival.\<close>

fun accepted :: "go_string \<Rightarrow> arrival list \<Rightarrow> disposition list \<Rightarrow> int list" where
  "accepted key ((now, u, n) # as) (disp # ds) =
     (if disp = FrameAccepted \<and> tracked u \<and> frame_key u = key then n # accepted key as ds
      else accepted key as ds)"
| "accepted key as ds = []"

text \<open>
  Without a reset (all clock readings within one window), the accepted numbers of a device
  strictly increase.
\<close>

definition in_window :: "duration \<Rightarrow> time \<Rightarrow> arrival list \<Rightarrow> bool" where
  "in_window reset t0 as \<longleftrightarrow> (\<forall>a \<in> set as. t0 \<le> fst a \<and> fst a < t0 + reset)"

lemma spec_fresh_window:
  assumes "0 < reset" and "reset \<le> 9223372036854775807" and "t0 \<le> t" and "now < t0 + reset"
  shows "spec_fresh now reset t"
  using assms by (auto simp: spec_fresh_def time_sub_def)

lemma spec_accepted_above:
  assumes "in_window reset t0 as" and "0 < reset" and "reset \<le> 9223372036854775807"
    and "s key = Some (m, t)" and "t0 \<le> t"
  shows "sorted_wrt (<) (m # accepted key as (spec_run reset s as))"
  using assms
proof (induction as arbitrary: s m t)
  case Nil
  then show ?case by simp
next
  case (Cons a as)
  obtain now u n where a: "a = (now, u, n)"
    by (cases a) auto
  have w: "in_window reset t0 as" and now: "t0 \<le> now" "now < t0 + reset"
    using Cons.prems(1) by (simp_all add: in_window_def a)
  let ?s = "snd (spec_classify reset s a)"
  show ?case
  proof (cases "tracked u \<and> frame_key u = key")
    case False
    then have "?s key = s key"
      by (auto simp: a spec_classify_def split: option.splits)
    with Cons.IH [OF w Cons.prems(2,3), of ?s m t] Cons.prems(4,5) False show ?thesis
      by (auto simp: a)
  next
    case True
    then have fresh: "spec_fresh now reset t"
      using spec_fresh_window Cons.prems(2,3,5) now by blast
    show ?thesis
    proof (cases "m < n")
      case False
      with True fresh Cons.prems(4) have "?s = s" and "fst (spec_classify reset s a) \<noteq> FrameAccepted"
        by (auto simp: a spec_classify_def)
      with Cons.IH [OF w Cons.prems(2,3), of s m t] Cons.prems(4,5) show ?thesis
        by (simp add: a)
    next
      case less: True
      with True fresh Cons.prems(4) have cl: "spec_classify reset s a = (FrameAccepted, s(key \<mapsto> (n, now)))"
        by (auto simp: a spec_classify_def)
      have "sorted_wrt (<) (n # accepted key as (spec_run reset (s(key \<mapsto> (n, now))) as))"
        by (rule Cons.IH [OF w Cons.prems(2,3) _ now(1)]) simp
      with less cl True show ?thesis
        by (auto simp: a)
    qed
  qed
qed

lemma spec_accepted_increasing:
  assumes "in_window reset t0 as" and "0 < reset" and "reset \<le> 9223372036854775807"
    and "s key = None"
  shows "sorted_wrt (<) (accepted key as (spec_run reset s as))"
  using assms
proof (induction as arbitrary: s)
  case Nil
  then show ?case by simp
next
  case (Cons a as)
  obtain now u n where a: "a = (now, u, n)"
    by (cases a) auto
  have w: "in_window reset t0 as" and now: "t0 \<le> now"
    using Cons.prems(1) by (simp_all add: in_window_def a)
  show ?case
  proof (cases "tracked u \<and> frame_key u = key")
    case False
    then have "snd (spec_classify reset s a) key = s key"
      by (auto simp: a spec_classify_def split: option.splits)
    with Cons.IH [OF w Cons.prems(2,3)] Cons.prems(4) False show ?thesis
      by (auto simp: a)
  next
    case True
    with Cons.prems(4) have "spec_classify reset s a = (FrameAccepted, s(key \<mapsto> (n, now)))"
      by (auto simp: a spec_classify_def)
    moreover have "sorted_wrt (<) (n # accepted key as (spec_run reset (s(key \<mapsto> (n, now))) as))"
      by (rule spec_accepted_above [OF w Cons.prems(2,3) _ now]) simp
    ultimately show ?thesis
      using True by (simp add: a)
  qed
qed

end
