(* ===== verification/Report_Properties.thy ===== *)
theory Report_Properties
  imports Report_Documents Deduplicator
begin

section \<open>Properties of report parsing and de-duplication\<close>

text \<open>
  What the rest of the program may rely on when a message has been parsed and classified: the
  values are in range, the decoders compute what the events say, and the one-byte frame counter
  orders the frames of each device.
\<close>

subsection \<open>Parsing\<close>

text \<open>
  C23. Whatever payload arrives, every update that \<open>Parse\<close> yields has all its values in range
  (temperature -100 to 150, humidity and battery 0 to 100, a well-formed toothbrush event), and
  is either a BLE update of a supported product, with a frame count, a normalised address and
  the product's model, or a MIoT update of the climate sensor with at least one measurement.
\<close>

theorem parse_updates_ok:
  assumes "u \<in> set (fst (Parse conv payload))"
  shows "valid_update u \<and> (ble_update_ok u \<or> miot_update_ok u)"
  using Parse_cases [OF assms] by (auto simp: ble_update_ok_def miot_update_ok_def)

theorem parse_updates_ok_witness:
  "valid_update sensor_update \<and> (ble_update_ok sensor_update \<or> miot_update_ok sensor_update)"
  by (rule parse_updates_ok [of _ "\<lambda>_. 0" "Some (ble_doc sensor_report)"])
     (simp add: sensor_report_parsed)

text \<open>
  C24. A climate report, whatever its events: each measurement is the value of the last event
  that carries an acceptable one, every malformed event adds its error in order, the identity
  is taken from the report, and a report without errors and measurements yields nothing.
\<close>

theorem parse_climate_report:
  assumes "report_fits r" and "dev_pdid (br_dev r) = ProductIDSensorHTO2"
  shows "Parse conv (Some (ble_doc r)) =
    (let es = br_events r;
         u = (report_update r product_sensor)\<lparr>
               u_temperature := last_value temperature_value None es,
               u_humidity := last_value (\<lambda>e. map_option (\<lambda>n. Fin (of_int n)) (byte_value eventHumidity e)) None es,
               u_battery := last_value (byte_value eventBattery) None es\<rparr>;
         errs = concat (map (\<lambda>e. snd (sensorStep (zero_update, []) e)) es)
     in if errs \<noteq> [] then ([u], Some (ProductDecodeError ModelSensorHTO2 errs))
        else if HasMeasurements u then ([u], None) else ([], None))"
proof -
  let ?u0 = "report_update r product_sensor"
  let ?st = "decodeSensorHTO2 (br_events r) ?u0"
  have id: "same_identity ?u0 (fst ?st)"
    using sensor.run_identity [of "(?u0, [])"] by (simp add: decodeSensorHTO2_def)
  have "u_toothbrush (fst (foldl sensorStep st es)) = u_toothbrush (fst st)" for st es
    by (induction es arbitrary: st) (auto simp: sensorStep_def payload_defs split: sum.splits prod.splits)
  then have "u_toothbrush (fst ?st) = u_toothbrush ?u0"
    by (simp add: decodeSensorHTO2_def)
  moreover have "u_temperature ?u0 = None" "u_humidity ?u0 = None" "u_battery ?u0 = None"
    by (simp_all add: report_update_def zero_update_def)
  ultimately have "fst ?st = ?u0\<lparr>u_temperature := last_value temperature_value None (br_events r),
      u_humidity := last_value (\<lambda>e. map_option (\<lambda>n. Fin (of_int n)) (byte_value eventHumidity e)) None (br_events r),
      u_battery := last_value (byte_value eventBattery) None (br_events r)\<rparr>"
    using id by (simp add: decodeSensorHTO2_def decodeSensorHTO2_fields same_identity_def
        update.equality)
  moreover have "snd ?st = concat (map (\<lambda>e. snd (sensorStep (zero_update, []) e)) (br_events r))"
    by (simp add: decodeSensorHTO2_def sensor.run_errors)
  moreover have "LookupProduct (dev_pdid (br_dev r)) = Some product_sensor"
    using assms(2) by (simp add: LookupProduct_eq ProductIDSensorHTO2_def)
  ultimately show ?thesis
    using assms(1) by (simp add: Parse_ble_doc case_prod_beta' Let_def)
qed

theorem parse_climate_report_witness:
  "(let es = br_events sensor_report;
        u = (report_update sensor_report product_sensor)\<lparr>
              u_temperature := last_value temperature_value None es,
              u_humidity := last_value (\<lambda>e. map_option (\<lambda>n. Fin (of_int n)) (byte_value eventHumidity e)) None es,
              u_battery := last_value (byte_value eventBattery) None es\<rparr>;
        errs = concat (map (\<lambda>e. snd (sensorStep (zero_update, []) e)) es)
    in if errs \<noteq> [] then ([u], Some (ProductDecodeError ModelSensorHTO2 errs))
       else if HasMeasurements u then ([u], None) else ([], None)) = ([sensor_update], None)"
  using parse_climate_report [of sensor_report "\<lambda>_. 0"]
  by (simp add: sensor_report_parsed) (simp add: sensor_report_def ProductIDSensorHTO2_def)

text \<open>
  C25. A toothbrush report: the event is the last complete one, the battery level the last
  acceptable one, and no climate value is ever set.
\<close>

theorem parse_toothbrush_report:
  assumes "report_fits r" and "dev_pdid (br_dev r) = ProductIDToothbrushT700i"
    and "Parse conv (Some (ble_doc r)) = (us, err)" and "u \<in> set us"
  shows "u_toothbrush u = last_value toothbrush_value None (br_events r)
    \<and> u_battery u = last_value (byte_value eventStandardBattery) None (br_events r)
    \<and> u_temperature u = None \<and> u_humidity u = None
    \<and> same_identity (report_update r product_toothbrush) u"
proof -
  let ?u0 = "report_update r product_toothbrush"
  have "LookupProduct (dev_pdid (br_dev r)) = Some product_toothbrush"
    using assms(2) by (simp add: LookupProduct_eq ProductIDToothbrushT700i_def)
  with assms(1,3,4) have u: "u = fst (decodeToothbrushT700i (br_events r) ?u0)"
    by (auto simp: Parse_ble_doc split: prod.splits if_splits)
  have "u_toothbrush ?u0 = None" "u_battery ?u0 = None" "u_temperature ?u0 = None" "u_humidity ?u0 = None"
    by (simp_all add: report_update_def zero_update_def)
  with u toothbrush.run_identity [of "(?u0, [])"] show ?thesis
    by (simp add: decodeToothbrushT700i_def decodeToothbrushT700i_fields)
qed

theorem parse_toothbrush_report_witness:
  "u_toothbrush start_update = last_value toothbrush_value None (br_events start_report)
    \<and> u_battery start_update = last_value (byte_value eventStandardBattery) None (br_events start_report)
    \<and> u_temperature start_update = None \<and> u_humidity start_update = None
    \<and> same_identity (report_update start_report product_toothbrush) start_update"
  by (rule parse_toothbrush_report [of start_report "\<lambda>_. 0" "[start_update]" None])
     (simp_all add: start_report_parsed, simp add: start_report_def ProductIDToothbrushT700i_def)

text \<open>
  An accepted temperature is within a twentieth of a degree (and a rounding error of
  \<open>2 ^ -43\<close>) of the single-precision number in the event.
\<close>

theorem temperature_accuracy:
  assumes "decodeTemperature data (u, errs) = (u', errs)"
  shows "\<exists>b x v. decode_hex data = Some b \<and> Float32frombits (le_uint32 b) = Fin x
    \<and> u_temperature u' = Some (Fin v) \<and> \<bar>v - x\<bar> \<le> 1 / 20 + 1 / 2 ^ 43"
  using assms by (rule decodeTemperature_accuracy)

text \<open>
  C38. A BLE report yields at most one update.  Without an error that update has a measurement;
  but a report whose events are malformed still yields its update, next to the error, even when
  that update carries no measurement at all.
\<close>

theorem malformed_report_yields_update:
  "length (fst (parseBLEEvent raw)) \<le> 1
    \<and> (snd (parseBLEEvent raw) = None \<longrightarrow> list_all HasMeasurements (fst (parseBLEEvent raw)))
    \<and> Parse conv (Some (ble_doc malformed_report))
        = ([report_update malformed_report product_toothbrush],
           Some (ProductDecodeError ModelToothbrushT700i [ToothbrushError ''01ff'']))
    \<and> \<not> HasMeasurements (report_update malformed_report product_toothbrush)"
proof -
  have "decodeToothbrushT700i (br_events malformed_report) (report_update malformed_report product_toothbrush)
      = (report_update malformed_report product_toothbrush, [ToothbrushError ''01ff''])"
    by code_simp
  moreover have "LookupProduct (dev_pdid (br_dev malformed_report)) = Some product_toothbrush"
    by (simp add: malformed_report_def LookupProduct_eq)
  ultimately have "Parse conv (Some (ble_doc malformed_report))
        = ([report_update malformed_report product_toothbrush],
           Some (ProductDecodeError ModelToothbrushT700i [ToothbrushError ''01ff'']))"
    by (simp add: Parse_ble_doc)
  moreover have "\<not> HasMeasurements (report_update malformed_report product_toothbrush)"
    by (simp add: HasMeasurements_def report_update_def zero_update_def)
  ultimately show ?thesis
    using parseBLEEvent_length parseBLEEvent_measured by (auto simp: list_all_iff)
qed

theorem malformed_report_yields_update_witness:
  "snd (parseBLEEvent (Some (report_doc sensor_report))) = None
    \<and> list_all HasMeasurements (fst (parseBLEEvent (Some (report_doc sensor_report))))"
proof -
  have "snd (parseBLEEvent (Some (report_doc sensor_report))) = None"
    using sensor_report_parsed [of "\<lambda>_. 0"]
    by (simp add: Parse_def ble_doc_def envelope_fields_def zero_envelope_def struct_eval
        Unmarshal_def dec_raw_def)
  with malformed_report_yields_update [of "Some (report_doc sensor_report)" "\<lambda>_. 0"] show ?thesis
    by blast
qed

text \<open>
  C26. A list of property changes is all or nothing: with an error there are no updates.  Without
  one, there is exactly one update per device that has a recognised property, in the order in
  which the devices first appear.
\<close>

theorem miot_devices_once:
  assumes "parseMIoTProperties conv raw = (us, err)"
  shows "(err \<noteq> None \<longrightarrow> us = []) \<and>
    (err = None \<longrightarrow> (\<exists>props. Unmarshal (dec_list (dec_struct prop_fields) zero_prop) raw [] = Some props
       \<and> map u_did us = first_seen (map mp_did (filter relevant props))
       \<and> list_all HasMeasurements us))"
proof (cases "err = None")
  case False
  then show ?thesis
    using parseMIoT_none [of conv raw] assms by auto
next
  case True
  with assms obtain props byDID order
    where p: "Unmarshal (dec_list (dec_struct prop_fields) zero_prop) raw [] = Some props"
      and l: "miotLoop conv (Map.empty, []) props = Inr (byDID, order)"
      and us: "us = map (the \<circ> byDID) order" and inv: "miot_inv (byDID, order)"
    using parseMIoT_result by blast
  have did: "u_did (the (byDID did)) = did" if "did \<in> set order" for did
    using inv that unfolding miot_inv_def by (force simp: domIff)
  then have "map u_did us = order"
    unfolding us by (simp add: map_idI)
  moreover have "order = first_seen (map mp_did (filter relevant props))"
    using miotLoop_order [OF l, of "[]"] by (simp add: first_seen_def)
  moreover have "list_all HasMeasurements us"
    using parseMIoT_ok [of _ conv raw] assms by (auto simp: list_all_iff miot_update_ok_def)
  ultimately show ?thesis
    using p True by auto
qed

definition miot_props :: "miot_prop list" where
  "miot_props =
     [\<lparr>mp_did = ''blt.3.test'', mp_siid = 3, mp_piid = 1001, mp_value = Some (JNum ''21'')\<rparr>,
      \<lparr>mp_did = ''blt.3.other'', mp_siid = 3, mp_piid = 1002, mp_value = Some (JNum ''48'')\<rparr>,
      \<lparr>mp_did = ''blt.3.test'', mp_siid = 2, mp_piid = 1003, mp_value = Some (JNum ''79'')\<rparr>]"

definition prop_doc :: "miot_prop \<Rightarrow> json" where
  "prop_doc p = JObj [(''did'', JStr (mp_did p)), (''siid'', JNum (itoa (mp_siid p))),
     (''piid'', JNum (itoa (mp_piid p))), (''value'', the (mp_value p))]"

lemma prop_names:
  "\<not> name_matches ''siid'' ''did''" "name_matches ''siid'' ''siid''" "\<not> name_matches ''piid'' ''did''"
  "\<not> name_matches ''piid'' ''siid''" "name_matches ''piid'' ''piid''" "\<not> name_matches ''value'' ''did''"
  "\<not> name_matches ''value'' ''siid''" "\<not> name_matches ''value'' ''piid''" "name_matches ''value'' ''value''"
  by (simp_all add: name_matches_def fold_name_ascii lower_char_def char_code_def)

lemma miot_props_decoded:
  "Unmarshal (dec_list (dec_struct prop_fields) zero_prop) (Some (JArr (map prop_doc miot_props))) []
     = Some miot_props"
proof -
  have "dec_struct prop_fields (prop_doc p) z = Some p"
    if "in_i32 (mp_siid p)" "in_i32 (mp_piid p)" "mp_value p \<noteq> None" for p z
    using that by (cases p; cases z)
      (auto simp: prop_doc_def prop_fields_def struct_eval prop_names dec_go_int_def dec_raw_def)
  then show ?thesis
    by (simp add: Unmarshal_def dec_list_def miot_props_def in_i32_def)
qed

theorem miot_devices_once_witness:
  "map u_did (fst (parseMIoTProperties (\<lambda>_. 0) (Some (JArr (map prop_doc miot_props)))))
     = [''blt.3.test'', ''blt.3.other'']"
proof -
  let ?r = "parseMIoTProperties (\<lambda>_. 0) (Some (JArr (map prop_doc miot_props)))"
  have raw: "rawNumber (Some (JNum ''21'')) = Some (Fin 21)" "rawNumber (Some (JNum ''48'')) = Some (Fin 48)"
    "rawNumber (Some (JNum ''79'')) = Some (Fin 79)"
    by (simp_all add: rawNumber_def trim_space_closed space_heads_def space_lasts_def char_code_def)
       code_simp+
  have round: "round_tenth (Fin 21) = Fin 21" "round_tenth (Fin 48) = Fin 48"
    using fl64_int [of 210] fl64_int [of 21] fl64_int [of 480] fl64_int [of 48]
      round_away_int [of 210] round_away_int [of 480] by (simp_all add: round_tenth_def)
  have "\<not> isl (miotLoop (\<lambda>_. 0) (Map.empty, []) miot_props)"
    using round_away_int [of 79] trunc_rat_int [of 79]
    by (simp add: miot_props_def miotStep_def miot_kind_def miot_set_def raw round out_of_range_def
        f64_to_int_def in_i32_def Let_def)
  then have "snd ?r = None"
    by (auto simp: parseMIoTProperties_def miot_props_decoded isl_def split: sum.splits prod.splits)
  then have "map u_did (fst ?r) = first_seen (map mp_did (filter relevant miot_props))"
    using miot_devices_once [OF surjective_pairing, of "\<lambda>_. 0" "Some (JArr (map prop_doc miot_props))"]
    by (simp add: miot_props_decoded)
  moreover have "first_seen (map mp_did (filter relevant miot_props)) = [''blt.3.test'', ''blt.3.other'']"
    by code_simp
  ultimately show ?thesis
    by simp
qed

text \<open>
  C35. The two implementations of \<^verbatim>\<open>NormalizeMAC\<close>, by a loop over the characters and by a
  regular expression, agree on every string; normalising twice changes nothing; and a string
  with twelve hex digits becomes six lower-case pairs joined by colons.
\<close>

theorem normalize_mac:
  "config_NormalizeMAC s = NormalizeMAC s \<and> NormalizeMAC (NormalizeMAC s) = NormalizeMAC s
    \<and> (length (filter is_hex s) = 12 \<longrightarrow> valid_mac (NormalizeMAC s))"
  by (simp add: config_NormalizeMAC_eq NormalizeMAC_valid)

theorem normalize_mac_witness: "valid_mac (NormalizeMAC ''AA-BB-CC-DD-EE-0f'')"
proof -
  have "length (filter is_hex ''AA-BB-CC-DD-EE-0f'') = 12"
    by (simp add: is_hex_def is_digit_def char_code_def)
  with normalize_mac [of "''AA-BB-CC-DD-EE-0f''"] show ?thesis
    by blast
qed

subsection \<open>De-duplication\<close>

text \<open>
  C7. De-duplication by one byte refines de-duplication by unbounded frame numbers: over any run
  of updates from any devices in which every counter byte stands for a number at most 127 ahead
  of and 128 behind the device's last accepted frame (as long as that is recent), the
  dispositions are those of the specification.
\<close>

theorem dedup_refines:
  assumes "near_run reset Map.empty as"
  shows "classify_run (NewDeduplicator reset) as = spec_run reset Map.empty as"
  using classify_run_refines [of "NewDeduplicator reset" Map.empty as] assms
  by (simp add: NewDeduplicator_def)

definition frame_update :: "int \<Rightarrow> update" where
  "frame_update n = zero_update\<lparr>u_mac := ''aa:bb:cc:dd:ee:ff'', u_has_frame_count := True, u_frame_count := n\<rparr>"

definition frame_arrivals :: "arrival list" where
  "frame_arrivals = [(0, frame_update 254, 254), (second, frame_update 0, 256),
     (2 * second, frame_update 255, 255), (3 * second, frame_update 0, 256), (4 * second, frame_update 1, 257)]"

lemma frame_arrivals_near: "near_run (10 * minute) Map.empty frame_arrivals"
  by code_simp

theorem dedup_refines_witness:
  "classify_run (NewDeduplicator (10 * minute)) frame_arrivals
    = [FrameAccepted, FrameAccepted, FrameStale, FrameDuplicate, FrameAccepted]"
proof -
  have "spec_run (10 * minute) Map.empty frame_arrivals
      = [FrameAccepted, FrameAccepted, FrameStale, FrameDuplicate, FrameAccepted]"
    by code_simp
  with dedup_refines [OF frame_arrivals_near] show ?thesis
    by simp
qed

text \<open>
  C33. Within one reset window the frame numbers accepted from a device strictly increase: no
  frame is accepted twice, and none after a newer one, as long as every arriving byte is that of a
  frame number within half a cycle of the last accepted one of its device.  Without that the one byte
  of the counter cannot tell frame 100 after frame 300 from a newer frame.
\<close>

theorem accepted_frames_increase:
  assumes "near_run reset Map.empty as" and "in_window reset t0 as"
    and "0 < reset" and "reset \<le> 9223372036854775807"
  shows "sorted_wrt (<) (accepted key as (classify_run (NewDeduplicator reset) as))"
proof -
  have "classify_run (NewDeduplicator reset) as = spec_run reset Map.empty as"
    using classify_run_refines [of "NewDeduplicator reset" Map.empty as] assms(1)
    by (simp add: NewDeduplicator_def)
  then show ?thesis
    using spec_accepted_increasing [OF assms(2-4), of Map.empty key] by simp
qed

theorem accepted_frames_increase_witness:
  "sorted_wrt (<) (accepted ''aa:bb:cc:dd:ee:ff'' frame_arrivals
     (classify_run (NewDeduplicator (10 * minute)) frame_arrivals))"
  by (rule accepted_frames_increase [OF frame_arrivals_near, of 0])
     (simp_all add: in_window_def frame_arrivals_def)

text \<open>
  Classifying a frame never touches the state of another device, a frame that is not
  accepted changes nothing at all, and an accepted one becomes the device's new baseline.
\<close>

theorem dedup_isolated:
  assumes "Classify now d u = (disp, d')"
  shows "(key \<noteq> frame_key u \<longrightarrow> frames d' key = frames d key)
    \<and> (disp \<noteq> FrameAccepted \<longrightarrow> d' = d)
    \<and> (disp = FrameAccepted \<and> tracked u \<longrightarrow>
         frames d' (frame_key u) = Some \<lparr>counter = word_of_int (u_frame_count u), seen_at = now\<rparr>)"
  using Classify_frame [of key u now d] Classify_rejected [OF assms] Classify_accepted [of now d u d'] assms
  by auto

end
