(* ===== verification/Mqtt_Packets.thy ===== *)
theory Mqtt_Packets
  imports Go_Text "HOL-Library.Sublist"
begin

unbundle bit_operations_syntax

section \<open>MQTT packets\<close>

text \<open>
  The wire format of \<^verbatim>\<open>internal/mqttmini/client.go\<close>: the variable-length \<open>remaining length\<close>,
  framed packets, the CONNECT and SUBSCRIBE payloads and the parsing of PUBLISH.

  A reader is the list of what is still to come: octets, and the places where the read deadline
  passes before the next octet arrives.  \<^verbatim>\<open>io.ReadFull\<close> drops the octets it has read when it
  fails, with \<open>ReadTimeout\<close> at a deadline and with \<open>ShortRead\<close> at the end of the stream (the
  connection is closed or broken).  Lengths are \<open>nat\<close>: every number here is below \<open>2 ^ 28\<close>.
\<close>

datatype item = Octet (octet: "8 word") | Deadline

datatype packet_error =
    ShortRead
  | ReadTimeout
  | WriteFailed
  | MalformedLength
  | PacketTooLarge nat
  | ShortPublish
  | InvalidTopic
  | UnsupportedQoS nat
  | MissingPacketID

definition maxPacketSize :: nat where
  "maxPacketSize = 1024 * 1024"

definition byte_of :: "nat \<Rightarrow> 8 word" where
  "byte_of n = word_of_nat n"

definition bytes_of_string :: "go_string \<Rightarrow> bytes" where
  "bytes_of_string s = map (\<lambda>c. byte_of (char_code c)) s"

definition string_of_bytes :: "bytes \<Rightarrow> go_string" where
  "string_of_bytes bs = map (\<lambda>b. char_of (unat b)) bs"

subsection \<open>Remaining length\<close>

fun encodeRemainingLength :: "nat \<Rightarrow> bytes" where
  "encodeRemainingLength n =
     (let encoded = byte_of (n mod 128); n' = n div 128
      in if n' > 0 then (encoded OR 128) # encodeRemainingLength n' else [encoded])"

declare encodeRemainingLength.simps [simp del]

text \<open>
  \<^verbatim>\<open>io.ReadFull\<close> of \<open>n\<close> bytes: the result and the reader after it.  A deadline counts only when
  one is set on the connection, which the first argument says.
\<close>

fun readFull :: "bool \<Rightarrow> nat \<Rightarrow> item list \<Rightarrow> (packet_error + bytes) \<times> item list" where
  "readFull armed 0 r = (Inr [], r)"
| "readFull armed (Suc n) [] = (Inl ShortRead, [])"
| "readFull armed (Suc n) (Deadline # r) =
     (if armed then (Inl ReadTimeout, r) else readFull armed (Suc n) r)"
| "readFull armed (Suc n) (Octet b # r) =
     (case readFull armed n r of
        (Inl err, r') \<Rightarrow> (Inl err, r')
      | (Inr bs, r') \<Rightarrow> (Inr (b # bs), r'))"

text \<open>The loop \<^verbatim>\<open>for i := 0; i < 4; i++\<close>, by the number of iterations left.\<close>

fun decode_length_loop :: "bool \<Rightarrow> nat \<Rightarrow> nat \<Rightarrow> nat \<Rightarrow> item list \<Rightarrow> (packet_error + nat) \<times> item list" where
  "decode_length_loop armed 0 multiplier val r = (Inl MalformedLength, r)"
| "decode_length_loop armed (Suc i) multiplier val r =
     (case readFull armed 1 r of
        (Inl err, r') \<Rightarrow> (Inl err, r')
      | (Inr bs, r') \<Rightarrow>
          let b = bs ! 0; val' = val + unat (b AND 127) * multiplier
          in if b AND 128 = 0 then (Inr val', r')
             else decode_length_loop armed i (multiplier * 128) val' r')"

definition decodeRemainingLength :: "bool \<Rightarrow> item list \<Rightarrow> (packet_error + nat) \<times> item list" where
  "decodeRemainingLength armed r = decode_length_loop armed 4 1 0 r"

subsection \<open>Packets\<close>

definition writePacket :: "8 word \<Rightarrow> bytes \<Rightarrow> packet_error + bytes" where
  "writePacket header payload =
     (if length payload > maxPacketSize then Inl (PacketTooLarge (length payload))
      else Inr ([header] @ encodeRemainingLength (length payload) @ payload))"

definition readPacket :: "bool \<Rightarrow> item list \<Rightarrow> (packet_error + 8 word \<times> bytes) \<times> item list" where
  "readPacket armed r =
     (case readFull armed 1 r of
        (Inl err, r1) \<Rightarrow> (Inl err, r1)
      | (Inr first, r1) \<Rightarrow>
          (case decodeRemainingLength armed r1 of
             (Inl err, r2) \<Rightarrow> (Inl err, r2)
           | (Inr len, r2) \<Rightarrow>
               if len > maxPacketSize then (Inl (PacketTooLarge len), r2)
               else
                 (case readFull armed len r2 of
                    (Inl err, r3) \<Rightarrow> (Inl err, r3)
                  | (Inr payload, r3) \<Rightarrow> (Inr (first ! 0, payload), r3))))"

subsection \<open>Payloads\<close>

definition be_uint16 :: "nat \<Rightarrow> bytes" where
  "be_uint16 n = [byte_of (n div 256 mod 256), byte_of (n mod 256)]"

definition be_value :: "8 word \<Rightarrow> 8 word \<Rightarrow> nat" where
  "be_value hi lo = 256 * unat hi + unat lo"

text \<open>\<^verbatim>\<open>uint16(len(s))\<close> drops the high bits of a length beyond 65535.\<close>

definition writeUTF8 :: "go_string \<Rightarrow> bytes" where
  "writeUTF8 s = be_uint16 (length s mod 65536) @ bytes_of_string s"

definition connectPayload :: "go_string \<Rightarrow> bytes" where
  "connectPayload clientID = writeUTF8 ''MQTT'' @ [4, 2] @ be_uint16 60 @ writeUTF8 clientID"

definition subscribePayload :: "nat \<Rightarrow> go_string list \<Rightarrow> bytes" where
  "subscribePayload packetID topics =
     be_uint16 packetID @ concat (map (\<lambda>t. writeUTF8 t @ [0]) topics)"

fun normalize_topics_loop :: "go_string list \<Rightarrow> go_string list \<Rightarrow> go_string list" where
  "normalize_topics_loop out [] = out"
| "normalize_topics_loop out (t # ts) =
     (let topic = trim_space t
      in if topic = [] \<or> topic \<in> set out then normalize_topics_loop out ts
         else normalize_topics_loop (out @ [topic]) ts)"

definition normalizedTopics :: "go_string list \<Rightarrow> go_string list" where
  "normalizedTopics topics = normalize_topics_loop [] topics"

record publish =
  pub_topic :: go_string
  pub_message :: bytes
  pub_packet_id :: nat
  pub_qos :: nat

definition publish_qos :: "8 word \<Rightarrow> nat" where
  "publish_qos header = unat (drop_bit 1 header AND 3)"

definition parsePublish :: "8 word \<Rightarrow> bytes \<Rightarrow> packet_error + publish" where
  "parsePublish header payload =
     (if length payload < 2 then Inl ShortPublish
      else
        let topicLen = be_value (payload ! 0) (payload ! 1)
        in if topicLen = 0 \<or> length payload < 2 + topicLen then Inl InvalidTopic
           else
             let topic = string_of_bytes (take topicLen (drop 2 payload));
                 pos = 2 + topicLen;
                 qos = publish_qos header
             in if qos > 1 then Inl (UnsupportedQoS qos)
                else if qos = 1 then
                  (if length payload < pos + 2 then Inl MissingPacketID
                   else Inr \<lparr>pub_topic = topic, pub_message = drop (pos + 2) payload,
                             pub_packet_id = be_value (payload ! pos) (payload ! (pos + 1)),
                             pub_qos = qos\<rparr>)
                else Inr \<lparr>pub_topic = topic, pub_message = drop pos payload, pub_packet_id = 0,
                          pub_qos = qos\<rparr>)"

text \<open>\<^verbatim>\<open>PUBACK\<close>, two bytes of the packet id.\<close>

definition ackPayload :: "nat \<Rightarrow> bytes" where
  "ackPayload packetID = [byte_of (packetID div 256), byte_of packetID]"

subsection \<open>Bytes\<close>

lemma unat_byte_of: "unat (byte_of n) = n mod 256"
  by (simp add: byte_of_def unat_of_nat)

lemma byte_of_unat [simp]: "byte_of (unat b) = b"
  by (simp add: byte_of_def)

lemma string_bytes_inverse [simp]: "string_of_bytes (bytes_of_string s) = s"
  by (induction s) (simp_all add: string_of_bytes_def bytes_of_string_def unat_byte_of,
      simp add: char_code_def)

lemma length_bytes_of_string [simp]: "length (bytes_of_string s) = length s"
  by (simp add: bytes_of_string_def)

lemma byte_of_mod [simp]: "byte_of (n mod 256) = byte_of n"
  by (rule word_unat_eq_iff [THEN iffD2]) (simp add: unat_byte_of)

lemma be_value_uint16 [simp]: "n < 65536 \<Longrightarrow> be_value (byte_of (n div 256)) (byte_of n) = n"
  by (simp add: be_value_def unat_byte_of)

lemma low7_and: "unat (b AND 127 :: 8 word) = unat b mod 128"
proof -
  have "b AND 127 = take_bit 7 b"
    by (simp only: take_bit_eq_mask mask_eq_exp_minus_1) simp
  then have "unat (b AND 127) = take_bit 7 (unat b)"
    by (simp only: unsigned_take_bit_eq)
  then show ?thesis
    by (simp add: take_bit_eq_mod)
qed

lemma bit7_and: "(b AND 128 :: 8 word) = 0 \<longleftrightarrow> unat b < 128"
proof -
  have "b AND 128 = 0 \<longleftrightarrow> \<not> bit b 7"
    using and_exp_eq_0_iff_not_bit [of b 7] by simp
  also have "bit b 7 \<longleftrightarrow> bit (unat b) 7"
    by (simp add: bit_unsigned_iff)
  also have "bit (unat b) 7 \<longleftrightarrow> odd (unat b div 128)"
    by (simp add: bit_iff_odd)
  also have "\<not> odd (unat b div 128) \<longleftrightarrow> unat b < 128"
  proof -
    have "unat b < 256"
      using unsigned_less [of b, where ?'a = nat] by simp
    then have "unat b div 128 < 2"
      by (simp add: less_mult_imp_div_less)
    then have "unat b div 128 = 0 \<or> unat b div 128 = 1"
      by linarith
    then show ?thesis
      by (auto simp: div_eq_0_iff)
  qed
  finally show ?thesis .
qed

lemma continuation_byte:
  assumes "m < 128"
  shows "unat ((byte_of m OR 128) AND 127) = m" and "(byte_of m OR 128) AND 128 \<noteq> 0"
proof -
  have "(b OR 128) AND 127 = b AND 127" for b :: "8 word"
    by (simp add: bit.conj_disj_distrib2)
  then show "unat ((byte_of m OR 128) AND 127) = m"
    using assms by (simp add: low7_and unat_byte_of)
  have "(b OR 128) AND 128 = 128" for b :: "8 word"
    by (simp add: bit.conj_disj_distrib2 or.commute)
  then show "(byte_of m OR 128) AND 128 \<noteq> 0"
    by simp
qed

lemma final_byte:
  assumes "m < 128"
  shows "unat (byte_of m AND 127) = m" and "byte_of m AND 128 = 0"
  using assms by (simp_all add: low7_and bit7_and unat_byte_of)

subsection \<open>The length codec\<close>

lemma readFull_octets: "length bs = n \<Longrightarrow> readFull armed n (map Octet bs @ r) = (Inr bs, r)"
  by (induction n arbitrary: bs) (auto simp: length_Suc_conv)

lemma readFull_short: "length bs < n \<Longrightarrow> readFull armed n (map Octet bs) = (Inl ShortRead, [])"
proof (induction bs arbitrary: n)
  case Nil
  then show ?case
    by (cases n) simp_all
next
  case (Cons b bs)
  then show ?case
    by (cases n) simp_all
qed

lemma readFull_one [simp]: "readFull armed (Suc 0) (Octet b # r) = (Inr [b], r)"
  by simp

text \<open>Every read that succeeds on a positive count, or fails, leaves a suffix of the reader.\<close>

lemma readFull_shrinks: "readFull armed n r = (res, r') \<Longrightarrow> length r' \<le> length r"
  by (induction armed n r arbitrary: res r' rule: readFull.induct)
     (auto split: sum.splits prod.splits if_splits intro: le_SucI)

lemma readFull_consumes:
  "readFull armed (Suc n) r = (res, r') \<Longrightarrow> r \<noteq> [] \<Longrightarrow> length r' < length r"
proof (induction r)
  case (Cons x r)
  show ?case
  proof (cases x)
    case (Octet b)
    with Cons.prems show ?thesis
      by (auto simp: less_Suc_eq_le split: sum.splits prod.splits dest: readFull_shrinks)
  next
    case Deadline
    with Cons.prems show ?thesis
      by (auto simp: less_Suc_eq_le split: if_splits dest: readFull_shrinks)
  qed
qed simp

lemma decode_length_shrinks: "decode_length_loop armed i m v r = (res, r') \<Longrightarrow> length r' \<le> length r"
proof (induction i arbitrary: m v r)
  case (Suc i)
  obtain x r1 where x: "readFull armed 1 r = (x, r1)"
    by (cases "readFull armed 1 r")
  then have "length r1 \<le> length r"
    by (rule readFull_shrinks)
  with x Suc.prems show ?case
    by (auto simp: Let_def split: sum.splits if_splits dest: Suc.IH)
qed simp

lemma readPacket_consumes:
  assumes "readPacket armed r = (res, r')" and "r \<noteq> []"
  shows "length r' < length r"
proof -
  obtain x r1 where x: "readFull armed 1 r = (x, r1)"
    by (cases "readFull armed 1 r")
  then have "length r1 < length r"
    using readFull_consumes [of armed 0] assms(2) by simp
  with x assms(1) show ?thesis
    by (auto simp: readPacket_def decodeRemainingLength_def
        split: sum.splits prod.splits if_splits dest!: decode_length_shrinks readFull_shrinks)
qed

lemma decode_encode_loop:
  assumes "n < 128 ^ i" and "0 < i"
  shows "decode_length_loop armed i multiplier val (map Octet (encodeRemainingLength n) @ r)
     = (Inr (val + n * multiplier), r)"
  using assms
proof (induction i arbitrary: n multiplier val)
  case 0
  then show ?case by simp
next
  case (Suc i)
  show ?case
  proof (cases "n div 128 > 0")
    case False
    then have "n < 128"
      by (simp add: div_eq_0_iff)
    with False show ?thesis
      by (simp add: encodeRemainingLength.simps [of n] final_byte Let_def)
  next
    case True
    then have "0 < i"
      using Suc.prems by (cases i) auto
    moreover have "n div 128 < 128 ^ i"
      using Suc.prems(1) by (simp add: less_mult_imp_div_less mult.commute)
    ultimately have IH: "decode_length_loop armed i (multiplier * 128) v
          (map Octet (encodeRemainingLength (n div 128)) @ r)
        = (Inr (v + n div 128 * (multiplier * 128)), r)" for v
      by (intro Suc.IH)
    have split_length: "v + t * m + q * (m * 128) = v + (q * 128 + t) * m" for v t q m :: nat
      by (simp add: algebra_simps)
    have "val + n mod 128 * multiplier + n div 128 * (multiplier * 128) = val + n * multiplier"
      by (simp only: split_length div_mult_mod_eq)
    with True IH show ?thesis
      by (simp add: encodeRemainingLength.simps [of n] continuation_byte Let_def)
  qed
qed

lemma encodeRemainingLength_length:
  "n < 128 ^ k \<Longrightarrow> 0 < k \<Longrightarrow> length (encodeRemainingLength n) \<le> k"
proof (induction k arbitrary: n)
  case 0
  then show ?case by simp
next
  case (Suc k)
  show ?case
  proof (cases "n div 128 > 0")
    case False
    then show ?thesis
      by (simp add: encodeRemainingLength.simps [of n] Let_def)
  next
    case True
    then have "0 < k"
      using Suc.prems by (cases k) auto
    moreover have "n div 128 < 128 ^ k"
      using Suc.prems(1) by (simp add: less_mult_imp_div_less mult.commute)
    ultimately have "length (encodeRemainingLength (n div 128)) \<le> k"
      by (intro Suc.IH)
    with True show ?thesis
      by (simp add: encodeRemainingLength.simps [of n] Let_def)
  qed
qed

text \<open>A packet that was written is read back, whatever follows it.\<close>

lemma readPacket_written:
  assumes "writePacket header payload = Inr packet"
  shows "readPacket armed (map Octet packet @ r) = (Inr (header, payload), r)"
proof -
  have len: "length payload \<le> maxPacketSize"
    and packet: "packet = [header] @ encodeRemainingLength (length payload) @ payload"
    using assms by (auto simp: writePacket_def split: if_splits)
  have "length payload < 128 ^ 4"
    using len by (simp add: maxPacketSize_def)
  then have "decodeRemainingLength armed (map Octet (encodeRemainingLength (length payload)) @ s)
      = (Inr (length payload), s)" for s
    by (simp add: decodeRemainingLength_def decode_encode_loop)
  then show ?thesis
    using len by (simp add: readPacket_def packet readFull_octets)
qed

text \<open>A deadline anywhere inside a packet: the read fails there, and what was read is gone.\<close>

lemma readFull_torn: "length bs < n \<Longrightarrow> readFull True n (map Octet bs @ Deadline # r) = (Inl ReadTimeout, r)"
proof (induction bs arbitrary: n)
  case Nil
  then show ?case
    by (cases n) simp_all
next
  case (Cons b bs)
  then show ?case
    by (cases n) simp_all
qed

lemma decode_length_torn:
  assumes "strict_prefix p (encodeRemainingLength n)" and "n < 128 ^ i" and "0 < i"
  shows "decode_length_loop True i multiplier val (map Octet p @ Deadline # r) = (Inl ReadTimeout, r)"
  using assms
proof (induction i arbitrary: n multiplier val p)
  case (Suc i)
  show ?case
  proof (cases p)
    case Nil
    then show ?thesis
      by simp
  next
    case (Cons b p')
    have more: "n div 128 > 0" and b: "b = byte_of (n mod 128) OR 128"
      and p': "strict_prefix p' (encodeRemainingLength (n div 128))"
      using Suc.prems(1) Cons by (auto simp: encodeRemainingLength.simps [of n] Let_def split: if_splits)
    from more have "0 < i"
      using Suc.prems(2) by (cases i) auto
    moreover have "n div 128 < 128 ^ i"
      using Suc.prems(2) by (simp add: less_mult_imp_div_less mult.commute)
    ultimately show ?thesis
      using Suc.IH [OF p'] by (simp add: Cons b continuation_byte Let_def)
  qed
qed simp

lemma readPacket_torn:
  assumes "writePacket header payload = Inr packet" and "strict_prefix p packet"
  shows "readPacket True (map Octet p @ Deadline # r) = (Inl ReadTimeout, r)"
proof (cases p)
  case Nil
  then show ?thesis
    by (simp add: readPacket_def)
next
  case (Cons b q)
  let ?enc = "encodeRemainingLength (length payload)"
  have len: "length payload \<le> maxPacketSize" and packet: "packet = header # ?enc @ payload"
    using assms(1) by (auto simp: writePacket_def split: if_splits)
  have bound: "length payload < 128 ^ 4"
    using len by (simp add: maxPacketSize_def)
  have "prefix q (?enc @ payload)" and "q \<noteq> ?enc @ payload"
    using assms(2) Cons packet by (auto simp: strict_prefix_def)
  then consider "strict_prefix q ?enc" | bs where "q = ?enc @ bs" "strict_prefix bs payload"
    unfolding strict_prefix_def prefix_append by (metis append_Nil2 Nil_prefix)
  then show ?thesis
  proof cases
    case 1
    then show ?thesis
      using decode_length_torn [OF 1 bound] by (simp add: readPacket_def decodeRemainingLength_def Cons)
  next
    case (2 bs)
    have "decodeRemainingLength True (map Octet q @ Deadline # r) = (Inr (length payload), map Octet bs @ Deadline # r)"
      using bound by (simp add: 2(1) decodeRemainingLength_def decode_encode_loop)
    moreover have "length bs < length payload"
      using 2(2) by (rule prefix_length_less)
    ultimately show ?thesis
      using len by (simp add: readPacket_def Cons readFull_torn)
  qed
qed

subsection \<open>Topics and PUBLISH\<close>

text \<open>The topics that are subscribed: the trimmed, non-blank ones, each at its first place.\<close>

lemma normalize_topics_loop_eq:
  "distinct out \<Longrightarrow> normalize_topics_loop out ts
     = rev (remdups (rev (out @ filter (\<lambda>t. t \<noteq> []) (map trim_space ts))))"
proof (induction out ts rule: normalize_topics_loop.induct)
  case (1 out)
  then show ?case
    by (simp add: distinct_remdups_id)
next
  case (2 out t ts)
  show ?case
  proof (cases "trim_space t = [] \<or> trim_space t \<in> set out")
    case True
    then have "normalize_topics_loop out (t # ts)
        = rev (remdups (rev (out @ filter (\<lambda>t. t \<noteq> []) (map trim_space ts))))"
      using "2.IH"(1) [OF refl True "2.prems"] by (simp add: Let_def)
    moreover have "remdups (xs @ a # ys) = remdups (xs @ ys)" if "a \<in> set ys" for xs ys and a :: go_string
      using that by (induction xs) auto
    ultimately show ?thesis
      using True by auto
  next
    case False
    then have "distinct (out @ [trim_space t])"
      using "2.prems" by simp
    with "2.IH"(2) [OF refl False] False show ?thesis
      by (simp add: Let_def)
  qed
qed

lemma normalizedTopics_eq:
  "normalizedTopics ts = rev (remdups (rev (filter (\<lambda>t. t \<noteq> []) (map trim_space ts))))"
  by (simp add: normalizedTopics_def normalize_topics_loop_eq)

lemma set_normalizedTopics: "set (normalizedTopics ts) = trim_space ` set ts - {[]}"
  by (auto simp: normalizedTopics_eq)

lemma distinct_normalizedTopics: "distinct (normalizedTopics ts)"
  by (simp add: normalizedTopics_eq)

lemma normalizedTopics_idem: "normalizedTopics (normalizedTopics ts) = normalizedTopics ts"
proof -
  have "map trim_space (normalizedTopics ts) = normalizedTopics ts"
    by (rule map_idI) (auto simp: set_normalizedTopics)
  moreover have "filter (\<lambda>t. t \<noteq> []) (normalizedTopics ts) = normalizedTopics ts"
    by (rule filter_True) (auto simp: set_normalizedTopics)
  ultimately show ?thesis
    by (simp add: normalizedTopics_eq [of "normalizedTopics ts"] distinct_remdups_id
        distinct_normalizedTopics)
qed

text \<open>The payload of a PUBLISH, as the protocol lays it out.\<close>

definition publishPayload :: "publish \<Rightarrow> bytes" where
  "publishPayload p = be_uint16 (length (pub_topic p)) @ bytes_of_string (pub_topic p)
     @ (if pub_qos p = 1 then be_uint16 (pub_packet_id p) else []) @ pub_message p"

definition publish_ok :: "8 word \<Rightarrow> publish \<Rightarrow> bool" where
  "publish_ok header p \<longleftrightarrow> publish_qos header = pub_qos p \<and> pub_qos p \<le> 1
     \<and> 0 < length (pub_topic p) \<and> length (pub_topic p) < 65536
     \<and> pub_packet_id p < (if pub_qos p = 1 then 65536 else 1)"

lemma bytes_string_inverse [simp]: "bytes_of_string (string_of_bytes bs) = bs"
proof (induction bs)
  case (Cons b bs)
  have "unat b < 256"
    using unsigned_less [of b, where ?'a = nat] by simp
  then have "byte_of (char_code (char_of (unat b))) = b"
    by (simp add: char_code_def)
  with Cons show ?case
    by (simp add: string_of_bytes_def bytes_of_string_def)
qed (simp add: string_of_bytes_def bytes_of_string_def)

lemma length_string_of_bytes [simp]: "length (string_of_bytes bs) = length bs"
  by (simp add: string_of_bytes_def)

lemma string_of_bytes_empty [simp]: "string_of_bytes bs = [] \<longleftrightarrow> bs = []"
  by (simp add: string_of_bytes_def)

lemma be_value_bound: "be_value hi lo < 65536"
  using unsigned_less [of hi, where ?'a = nat] unsigned_less [of lo, where ?'a = nat]
  by (simp add: be_value_def)

lemma be_uint16_value [simp]: "be_uint16 (be_value hi lo) = [hi, lo]"
proof -
  have "unat lo < 256" "unat hi < 256"
    using unsigned_less [of hi, where ?'a = nat] unsigned_less [of lo, where ?'a = nat] by simp_all
  then show ?thesis
    by (simp add: be_uint16_def be_value_def)
qed

lemma parsePublish_encoded:
  assumes "publish_ok header p"
  shows "parsePublish header (publishPayload p) = Inr p"
proof -
  have q: "publish_qos header = pub_qos p" "pub_qos p = 0 \<or> pub_qos p = 1"
    and l: "0 < length (pub_topic p)" "length (pub_topic p) < 65536"
    and i: "pub_packet_id p < (if pub_qos p = 1 then 65536 else 1)"
    using assms by (auto simp: publish_ok_def)
  show ?thesis
  proof (cases "pub_qos p = 1")
    case True
    with q l i show ?thesis
      by (cases p) (simp add: parsePublish_def publishPayload_def Let_def be_uint16_def
          nth_append)
  next
    case False
    with q l i show ?thesis
      by (cases p) (simp add: parsePublish_def publishPayload_def Let_def be_uint16_def)
  qed
qed

text \<open>Conversely, what is parsed is all there was: nothing of the payload is lost.\<close>

lemma parsePublish_complete:
  assumes "parsePublish header payload = Inr p"
  shows "publish_ok header p \<and> publishPayload p = payload"
proof -
  have "Suc (Suc 0) \<le> length payload"
    using assms by (auto simp: parsePublish_def split: if_splits)
  then obtain hi lo rest where payload: "payload = hi # lo # rest"
    by (auto simp: Suc_le_length_iff)
  let ?n = "be_value hi lo" and ?q = "publish_qos header"
  have n: "0 < ?n" "?n \<le> length rest" and q: "?q = 0 \<or> ?q = 1"
    using assms by (auto simp: parsePublish_def payload Let_def split: if_splits)
  show ?thesis
  proof (cases "?q = 1")
    case True
    then have "Suc (Suc ?n) \<le> length rest"
      using assms n by (auto simp: parsePublish_def payload Let_def split: if_splits)
    then obtain a b m where rest: "drop ?n rest = a # b # m"
      by (metis Cons_nth_drop_Suc Suc_le_lessD Suc_lessD)
    then have "rest = take ?n rest @ a # b # m"
      by (metis append_take_drop_id)
    then obtain t where "rest = t @ a # b # m" "length t = ?n"
      using n(2) by (metis length_take min_absorb2)
    with assms True n show ?thesis
      by (auto simp: parsePublish_def payload Let_def publish_ok_def publishPayload_def be_value_bound
          nth_append)
  next
    case False
    with assms n q show ?thesis
      by (auto simp: parsePublish_def payload Let_def publish_ok_def publishPayload_def be_value_bound)
  qed
qed

end
