(* ===== verification/Mqtt_Client.thy ===== *)
theory Mqtt_Client
  imports Mqtt_Packets
begin

unbundle bit_operations_syntax

section \<open>The MQTT client\<close>

text \<open>
  \<^verbatim>\<open>Client.Run\<close> and \<^verbatim>\<open>Client.serve\<close> of \<^verbatim>\<open>internal/mqttmini/client.go\<close>.  One connection is a
  \<open>session\<close>: what is still to be read, the packets written, the messages handed to the handler
  and the states reported to \<^verbatim>\<open>OnState\<close>.  The network is a parameter: \<open>dial\<close> says whether the
  connection is made, \<open>wok n\<close> whether the write after \<open>n\<close> packets succeeds.  Cancelling the
  context closes the connection, which ends the reader.

  \<open>serve_loop\<close> is the endless loop of \<^verbatim>\<open>serve\<close>; it ends because each round consumes the reader,
  and a reader that is empty is a connection that is gone.
\<close>

record client =
  Address :: go_string
  Topics :: "go_string list"
  ClientID :: go_string

record session =
  reader :: "item list"
  sent :: "bytes list"
  delivered :: "bytes list"
  states :: "bool list"

datatype serve_error =
    MissingAddress
  | ConnectFailed
  | SendConnect packet_error
  | ReadConnack packet_error
  | ConnectionRejected "8 word" bytes
  | SendSubscribe packet_error
  | PingTimeout
  | SendPingreq packet_error
  | ReadPacketFailed packet_error
  | PublishFailed packet_error
  | SendPuback packet_error
  | SubscriptionRejected bytes

definition send :: "(nat \<Rightarrow> bool) \<Rightarrow> 8 word \<Rightarrow> bytes \<Rightarrow> session \<Rightarrow> packet_error option \<times> session" where
  "send wok header payload s =
     (case writePacket header payload of
        Inl err \<Rightarrow> (Some err, s)
      | Inr packet \<Rightarrow>
          if wok (length (sent s)) then (None, s\<lparr>sent := sent s @ [packet]\<rparr>)
          else (Some WriteFailed, s))"

text \<open>The \<^verbatim>\<open>switch header >> 4\<close> of the loop; the result is the error \<^verbatim>\<open>serve\<close> returns, if any.\<close>

definition handlePublish ::
  "(nat \<Rightarrow> bool) \<Rightarrow> go_string list \<Rightarrow> 8 word \<Rightarrow> bytes \<Rightarrow> session \<Rightarrow> serve_error option \<times> session" where
  "handlePublish wok topics header payload s =
     (case parsePublish header payload of
        Inl err \<Rightarrow> (Some (PublishFailed err), s)
      | Inr p \<Rightarrow>
          let s1 = (if pub_topic p \<in> set topics then s\<lparr>delivered := delivered s @ [pub_message p]\<rparr> else s)
          in if pub_qos p = 1 then
               (case send wok 0x40 (ackPayload (pub_packet_id p)) s1 of
                  (Some err, s2) \<Rightarrow> (Some (SendPuback err), s2)
                | (None, s2) \<Rightarrow> (None, s2))
             else (None, s1))"

definition handlePacket ::
  "(nat \<Rightarrow> bool) \<Rightarrow> go_string list \<Rightarrow> 8 word \<Rightarrow> bytes \<Rightarrow> session \<Rightarrow> serve_error option \<times> session" where
  "handlePacket wok topics header payload s =
     (let kind = drop_bit 4 header
      in if kind = 3 then handlePublish wok topics header payload s
         else if kind = 9 then
           (if length payload < 2 + length topics then (Some (SubscriptionRejected payload), s)
            else if list_ex (\<lambda>result. result = 0x80) (drop 2 payload)
            then (Some (SubscriptionRejected payload), s)
            else (None, s))
         else (None, s))"

lemma send_reader: "send wok header payload s = (res, s') \<Longrightarrow> reader s' = reader s"
  by (auto simp: send_def split: sum.splits if_splits)

lemma handlePacket_reader: "handlePacket wok topics header payload s = (res, s') \<Longrightarrow> reader s' = reader s"
  by (auto simp: handlePacket_def handlePublish_def Let_def
      split: sum.splits if_splits prod.splits option.splits dest!: send_reader)

function serve_loop ::
  "(nat \<Rightarrow> bool) \<Rightarrow> go_string list \<Rightarrow> bool \<Rightarrow> session \<Rightarrow> serve_error \<times> session" where
  "serve_loop wok topics awaitingPing s =
     (case readPacket True (reader s) of
        (Inl err, r) \<Rightarrow>
          if err = ReadTimeout then
            (if awaitingPing then (PingTimeout, s\<lparr>reader := r\<rparr>)
             else
               (case send wok 0xC0 [] (s\<lparr>reader := r\<rparr>) of
                  (Some e, s') \<Rightarrow> (SendPingreq e, s')
                | (None, s') \<Rightarrow> serve_loop wok topics True s'))
          else (ReadPacketFailed err, s\<lparr>reader := r\<rparr>)
      | (Inr (header, payload), r) \<Rightarrow>
          (case handlePacket wok topics header payload (s\<lparr>reader := r\<rparr>) of
             (Some e, s') \<Rightarrow> (e, s')
           | (None, s') \<Rightarrow> serve_loop wok topics False s'))"
  by pat_completeness auto

lemma readPacket_empty: "readPacket armed [] = (Inl ShortRead, [])"
  by (simp add: readPacket_def)

lemma readPacket_shorter:
  "readPacket armed r = (res, r') \<Longrightarrow> res \<noteq> Inl ShortRead \<Longrightarrow> length r' < length r"
  using readPacket_consumes [of armed r res r'] by (cases "r = []") (auto simp: readPacket_empty)

text \<open>What a round of the loop leaves to be read.\<close>

lemma timeout_round:
  assumes "(Inl ReadTimeout, r) = readPacket True (reader s)"
    and "(res, s') = send wok header payload (s\<lparr>reader := r\<rparr>)"
  shows "length (reader s') < length (reader s)"
  using readPacket_shorter [OF assms(1) [symmetric]] send_reader [OF assms(2) [symmetric]] by simp

lemma packet_round:
  assumes "(Inr x, r) = readPacket True (reader s)"
    and "(res, s') = handlePacket wok topics header payload (s\<lparr>reader := r\<rparr>)"
  shows "length (reader s') < length (reader s)"
  using readPacket_shorter [OF assms(1) [symmetric]] handlePacket_reader [OF assms(2) [symmetric]]
  by simp

termination serve_loop
  by (relation "measure (\<lambda>(wok, topics, awaiting, s). length (reader s))")
     (auto intro: timeout_round packet_round)

declare serve_loop.simps [simp del]

text \<open>
  The client id that is sent when none is configured.  No deadline is set on the connection
  before the loop, so the reply to CONNECT is waited for without bound.
\<close>

definition serve :: "(nat \<Rightarrow> bool) \<Rightarrow> bool \<Rightarrow> client \<Rightarrow> session \<Rightarrow> serve_error \<times> session" where
  "serve wok dial c s =
     (let topics = normalizedTopics (Topics c)
      in if trim_space (Address c) = [] \<or> length topics = 0 then (MissingAddress, s)
         else
           let clientID = (if ClientID c = [] then ''mgl03-homekit-bridge'' else ClientID c)
           in if \<not> dial then (ConnectFailed, s)
              else
                (case send wok 0x10 (connectPayload clientID) s of
                   (Some err, s1) \<Rightarrow> (SendConnect err, s1)
                 | (None, s1) \<Rightarrow>
                     (case readPacket False (reader s1) of
                        (Inl err, r) \<Rightarrow> (ReadConnack err, s1\<lparr>reader := r\<rparr>)
                      | (Inr (header, payload), r) \<Rightarrow>
                          let s2 = s1\<lparr>reader := r\<rparr>
                          in if drop_bit 4 header \<noteq> 2 \<or> length payload \<noteq> 2 \<or> payload ! 1 \<noteq> 0
                             then (ConnectionRejected header payload, s2)
                             else
                               (case send wok 0x82 (subscribePayload 1 topics) s2 of
                                  (Some err, s3) \<Rightarrow> (SendSubscribe err, s3)
                                | (None, s3) \<Rightarrow>
                                    serve_loop wok topics False (s3\<lparr>states := states s3 @ [True]\<rparr>)))))"

subsection \<open>Sessions as packets\<close>

text \<open>
  What a broker does on one connection when it sends whole packets: a packet, or silence until
  the read deadline passes.  \<open>run_events\<close> is the client over these events.
\<close>

datatype broker_event = Packet "8 word" bytes | Idle

fun wire_frame :: "broker_event \<Rightarrow> item list" where
  "wire_frame (Packet header payload) =
     map Octet ([header] @ encodeRemainingLength (length payload) @ payload)"
| "wire_frame Idle = [Deadline]"

definition wire_frames :: "broker_event list \<Rightarrow> item list" where
  "wire_frames evs = concat (map wire_frame evs)"

fun event_fits :: "broker_event \<Rightarrow> bool" where
  "event_fits (Packet header payload) \<longleftrightarrow> length payload \<le> maxPacketSize"
| "event_fits Idle \<longleftrightarrow> True"

fun run_events ::
  "(nat \<Rightarrow> bool) \<Rightarrow> go_string list \<Rightarrow> bool \<Rightarrow> session \<Rightarrow> broker_event list \<Rightarrow> serve_error \<times> session" where
  "run_events wok topics awaiting s [] = (ReadPacketFailed ShortRead, s\<lparr>reader := []\<rparr>)"
| "run_events wok topics awaiting s (Idle # evs) =
     (if awaiting then (PingTimeout, s\<lparr>reader := wire_frames evs\<rparr>)
      else
        (case send wok 0xC0 [] (s\<lparr>reader := wire_frames evs\<rparr>) of
           (Some e, s') \<Rightarrow> (SendPingreq e, s')
         | (None, s') \<Rightarrow> run_events wok topics True s' evs))"
| "run_events wok topics awaiting s (Packet header payload # evs) =
     (case handlePacket wok topics header payload (s\<lparr>reader := wire_frames evs\<rparr>) of
        (Some e, s') \<Rightarrow> (e, s')
      | (None, s') \<Rightarrow> run_events wok topics False s' evs)"

lemma readPacket_wire_frame:
  "length payload \<le> maxPacketSize \<Longrightarrow>
     readPacket armed (wire_frame (Packet header payload) @ r) = (Inr (header, payload), r)"
  by (simp only: wire_frame.simps) (rule readPacket_written, simp add: writePacket_def)

lemma readPacket_deadline: "readPacket True (Deadline # r) = (Inl ReadTimeout, r)"
  by (simp add: readPacket_def)

lemma serve_loop_events:
  assumes "list_all event_fits evs"
  shows "reader s = wire_frames evs \<Longrightarrow>
    serve_loop wok topics awaiting s = run_events wok topics awaiting s evs"
  using assms
proof (induction wok topics awaiting s evs rule: run_events.induct)
  case (1 wok topics awaiting s)
  then show ?case
    by (simp add: serve_loop.simps [of wok topics awaiting s] wire_frames_def readPacket_empty)
next
  case (2 wok topics awaiting s evs)
  then have "readPacket True (reader s) = (Inl ReadTimeout, wire_frames evs)"
    by (simp add: wire_frames_def readPacket_deadline)
  moreover have "reader s' = wire_frames evs" if "send wok 0xC0 [] (s\<lparr>reader := wire_frames evs\<rparr>) = (res, s')" for res s'
    using send_reader [OF that] by simp
  ultimately show ?case
    using 2 by (auto simp: serve_loop.simps [of wok topics awaiting s] split: prod.splits option.splits)
next
  case (3 wok topics awaiting s header payload evs)
  then have "readPacket True (reader s) = (Inr (header, payload), wire_frames evs)"
    using readPacket_wire_frame [of payload True header "wire_frames evs"] by (simp add: wire_frames_def)
  moreover have "reader s' = wire_frames evs"
    if "handlePacket wok topics header payload (s\<lparr>reader := wire_frames evs\<rparr>) = (res, s')" for res s'
    using handlePacket_reader [OF that] by simp
  ultimately show ?case
    using 3 by (auto simp: serve_loop.simps [of wok topics awaiting s] split: prod.splits option.splits)
qed

text \<open>
  What an event means: the messages it brings to the handler and the packets it is answered
  with.  A PUBLISH of QoS 1 is acknowledged whether or not its topic was subscribed.
\<close>

fun event_messages :: "go_string list \<Rightarrow> broker_event \<Rightarrow> bytes list" where
  "event_messages topics Idle = []"
| "event_messages topics (Packet header payload) =
     (case parsePublish header payload of
        Inr p \<Rightarrow> if drop_bit 4 header = 3 \<and> pub_topic p \<in> set topics then [pub_message p] else []
      | Inl _ \<Rightarrow> [])"

fun event_replies :: "broker_event \<Rightarrow> bytes list" where
  "event_replies Idle = [[0xC0, 0]]"
| "event_replies (Packet header payload) =
     (case parsePublish header payload of
        Inr p \<Rightarrow> if drop_bit 4 header = 3 \<and> pub_qos p = 1 then [0x40 # 2 # be_uint16 (pub_packet_id p)] else []
      | Inl _ \<Rightarrow> [])"

fun event_accepted :: "go_string list \<Rightarrow> broker_event \<Rightarrow> bool" where
  "event_accepted topics Idle \<longleftrightarrow> True"
| "event_accepted topics (Packet header payload) \<longleftrightarrow>
     (drop_bit 4 header = 3 \<longrightarrow> \<not> isl (parsePublish header payload))
     \<and> (drop_bit 4 header = 9 \<longrightarrow> 2 + length topics \<le> length payload \<and> 0x80 \<notin> set (drop 2 payload))"

fun answered :: "bool \<Rightarrow> broker_event list \<Rightarrow> bool" where
  "answered awaiting [] \<longleftrightarrow> True"
| "answered awaiting (Idle # evs) \<longleftrightarrow> \<not> awaiting \<and> answered True evs"
| "answered awaiting (Packet header payload # evs) \<longleftrightarrow> answered False evs"

lemma send_empty:
  "wok (length (sent s)) \<Longrightarrow> send wok header [] s = (None, s\<lparr>sent := sent s @ [[header, 0]]\<rparr>)"
  by (simp add: send_def writePacket_def encodeRemainingLength.simps [of 0] byte_of_def)

lemma encode_two: "encodeRemainingLength (Suc (Suc 0)) = [2]"
  by (simp add: encodeRemainingLength.simps [of "Suc (Suc 0)"] byte_of_def)

lemma send_ack:
  assumes "wok (length (sent s))"
  shows "send wok header (ackPayload n) s = (None, s\<lparr>sent := sent s @ [header # 2 # be_uint16 n]\<rparr>)"
  using assms by (simp add: send_def writePacket_def encode_two ackPayload_def be_uint16_def maxPacketSize_def)

lemma handlePacket_accepted:
  assumes "event_accepted topics (Packet header payload)" and "\<And>n. wok n"
  shows "handlePacket wok topics header payload s
    = (None, s\<lparr>delivered := delivered s @ event_messages topics (Packet header payload),
               sent := sent s @ event_replies (Packet header payload)\<rparr>)"
proof (cases "drop_bit 4 header = 3")
  case True
  with assms(1) obtain p where "parsePublish header payload = Inr p"
    by (auto simp: isl_def) (meson sum.exhaust)
  with True assms(2) show ?thesis
    by (auto simp: handlePacket_def handlePublish_def Let_def send_ack)
next
  case False
  with assms(1) show ?thesis
    by (auto simp: handlePacket_def Let_def list_ex_iff split: sum.splits)
qed

lemma run_events_accepted:
  assumes "\<And>n. wok n"
  shows "list_all (event_accepted topics) evs \<Longrightarrow> answered awaiting evs \<Longrightarrow>
    run_events wok topics awaiting s evs
      = (ReadPacketFailed ShortRead,
         s\<lparr>reader := [], delivered := delivered s @ concat (map (event_messages topics) evs),
           sent := sent s @ concat (map event_replies evs)\<rparr>)"
proof (induction awaiting evs arbitrary: s rule: answered.induct)
  case (1 awaiting)
  then show ?case
    by simp
next
  case (2 awaiting evs)
  then show ?case
    using assms by (simp add: send_empty)
next
  case (3 awaiting header payload evs)
  then show ?case
    using handlePacket_accepted [of topics header payload "\<lambda>_. True"] assms
    by (simp del: event_messages.simps event_replies.simps event_accepted.simps)
qed

text \<open>Two silences in a row end the session at the second one.\<close>

lemma run_events_silence:
  assumes "\<And>n. wok n" and "list_all (event_accepted topics) evs" and "answered awaiting evs"
    and "evs \<noteq> []" and "last evs = Idle"
  shows "fst (run_events wok topics awaiting s (evs @ Idle # rest)) = PingTimeout"
  using assms(2-)
proof (induction awaiting evs arbitrary: s rule: answered.induct)
  case (2 awaiting evs)
  then show ?case
    using assms(1) by (cases "evs = []") (simp_all add: send_empty)
next
  case (3 awaiting header payload evs)
  then show ?case
    using handlePacket_accepted [of topics header payload "\<lambda>_. True"] assms(1)
    by (cases "evs = []") (simp_all del: event_messages.simps event_replies.simps event_accepted.simps)
qed simp

text \<open>
  A silence inside a packet is taken for one between packets: the octets read so far are gone, and
  the rest of the packet is read as if a packet began there.
\<close>

lemma serve_loop_torn:
  assumes "writePacket header payload = Inr packet" and "strict_prefix p packet"
    and "reader s = map Octet p @ Deadline # r"
  shows "serve_loop wok topics awaiting s =
    (if awaiting then (PingTimeout, s\<lparr>reader := r\<rparr>)
     else if wok (length (sent s)) then serve_loop wok topics True (s\<lparr>reader := r, sent := sent s @ [[0xC0, 0]]\<rparr>)
     else (SendPingreq WriteFailed, s\<lparr>reader := r\<rparr>))"
proof -
  have "send wok 0xC0 [] x = (Some WriteFailed, x)" if "\<not> wok (length (sent x))" for x
    using that by (simp add: send_def writePacket_def)
  with readPacket_torn [OF assms(1,2), of r] show ?thesis
    by (simp add: serve_loop.simps [of wok topics awaiting s] assms(3) send_empty)
qed

subsection \<open>The whole session\<close>

text \<open>The packets a client opens a session with.\<close>

definition connectPacket :: "client \<Rightarrow> packet_error + bytes" where
  "connectPacket c =
     writePacket 0x10 (connectPayload (if ClientID c = [] then ''mgl03-homekit-bridge'' else ClientID c))"

definition subscribePacket :: "client \<Rightarrow> packet_error + bytes" where
  "subscribePacket c = writePacket 0x82 (subscribePayload 1 (normalizedTopics (Topics c)))"

definition connack :: broker_event where
  "connack = Packet 0x20 [0, 0]"

definition opened :: "item list \<Rightarrow> session" where
  "opened r = \<lparr>reader = r, sent = [], delivered = [], states = []\<rparr>"

lemma serve_session:
  assumes "trim_space (Address c) \<noteq> []" and "normalizedTopics (Topics c) \<noteq> []"
    and "connectPacket c = Inr p1" and "subscribePacket c = Inr p2"
    and "list_all event_fits evs" and "list_all (event_accepted (normalizedTopics (Topics c))) evs"
    and "answered False evs"
  shows "serve (\<lambda>_. True) True c (opened (wire_frames (connack # evs)))
    = (ReadPacketFailed ShortRead,
       \<lparr>reader = [],
        sent = p1 # p2 # concat (map event_replies evs),
        delivered = concat (map (event_messages (normalizedTopics (Topics c))) evs),
        states = [True]\<rparr>)"
proof -
  let ?topics = "normalizedTopics (Topics c)"
  have connack: "readPacket False (wire_frames (connack # evs)) = (Inr (0x20, [0, 0]), wire_frames evs)"
    using readPacket_wire_frame [of "[0, 0]" False "0x20" "wire_frames evs"]
    by (simp add: wire_frames_def connack_def maxPacketSize_def)
  have loop: "serve_loop (\<lambda>_. True) ?topics False s = run_events (\<lambda>_. True) ?topics False s evs"
    if "reader s = wire_frames evs" for s
    using assms(5) that by (rule serve_loop_events)
  have "drop_bit 4 (0x20 :: 8 word) = 2"
    by simp
  then show ?thesis
    using assms(1-4) by (simp add: serve_def send_def connectPacket_def subscribePacket_def opened_def
        connack Let_def loop run_events_accepted [OF TrueI assms(6,7)])
qed

subsection \<open>Reconnection\<close>

text \<open>
  \<^verbatim>\<open>Run\<close>, by the attempts it makes: how long \<^verbatim>\<open>serve\<close> took, and whether the context was
  cancelled when it returned or during the wait that follows.  The result is the list of
  waits.  \<^verbatim>\<open>serve\<close> never returns without an error, and after each attempt \<^verbatim>\<open>OnState(false)\<close> is
  called.
\<close>

record attempt =
  elapsed :: int
  cancelled :: bool
  wait_cancelled :: bool

definition next_backoff :: "int \<Rightarrow> int" where
  "next_backoff backoff = (if backoff < 30 * second then backoff * 2 else backoff)"

fun run_loop :: "int \<Rightarrow> attempt list \<Rightarrow> int list" where
  "run_loop backoff [] = []"
| "run_loop backoff (a # as) =
     (if cancelled a then []
      else
        let wait = (if elapsed a \<ge> minute then second else backoff)
        in wait # (if wait_cancelled a then [] else run_loop (next_backoff wait) as))"

definition Run :: "attempt list \<Rightarrow> int list" where
  "Run attempts = run_loop second attempts"

definition backoffs :: "int set" where
  "backoffs = {second, 2 * second, 4 * second, 8 * second, 16 * second, 32 * second}"

lemma next_backoff_in: "b \<in> backoffs \<Longrightarrow> next_backoff b \<in> backoffs"
  by (auto simp: backoffs_def next_backoff_def)

lemma run_loop_in: "b \<in> backoffs \<Longrightarrow> set (run_loop b as) \<subseteq> backoffs"
proof (induction b as rule: run_loop.induct)
  case (2 backoff a as)
  moreover have "second \<in> backoffs"
    by (simp add: backoffs_def)
  ultimately show ?case
    by (auto simp: Let_def next_backoff_in)
qed simp

text \<open>While every attempt fails within a minute, the waits double up to 32 seconds.\<close>

lemma run_loop_quick:
  assumes "\<And>a. a \<in> set as \<Longrightarrow> elapsed a < minute \<and> \<not> cancelled a \<and> \<not> wait_cancelled a"
  shows "run_loop (2 ^ min k 5 * second) as = map (\<lambda>i. 2 ^ min (k + i) 5 * second) [0..<length as]"
  using assms
proof (induction as arbitrary: k)
  case (Cons a as)
  have "next_backoff (2 ^ min k 5 * second) = 2 ^ min (Suc k) 5 * second"
  proof (cases "k < 5")
    case True
    then have "k \<in> {0, 1, 2, 3, 4}"
      by auto
    then show ?thesis
      by (auto simp: next_backoff_def min_def)
  qed (simp add: next_backoff_def min_def)
  moreover have "run_loop (2 ^ min (Suc k) 5 * second) as
      = map (\<lambda>i. 2 ^ min (Suc k + i) 5 * second) [0..<length as]"
    using Cons.prems by (intro Cons.IH) simp
  moreover have "[0..<length (a # as)] = 0 # map Suc [0..<length as]"
    by (simp add: upt_conv_Cons map_Suc_upt del: upt_Suc)
  moreover have "elapsed a < minute \<and> \<not> cancelled a \<and> \<not> wait_cancelled a"
    using Cons.prems by simp
  ultimately show ?case
    by (simp add: Let_def not_le del: upt_Suc)
qed simp

end
