(* ===== verification/Mqtt_Properties.thy ===== *)
theory Mqtt_Properties
  imports Mqtt_Client
begin

unbundle bit_operations_syntax

section \<open>Properties of the MQTT client\<close>

text \<open>
  The wire format round trips, a session with a well-behaved broker, its watchdog, and the
  waits between connections.
\<close>

text \<open>
  C10. Every packet that can be written is read back exactly, with what follows it untouched,
  whether or not a deadline is set; its header takes at most five bytes.
\<close>

theorem packet_roundtrip:
  assumes "writePacket header payload = Inr packet"
  shows "readPacket armed (map Octet packet @ r) = (Inr (header, payload), r)
    \<and> length packet \<le> 5 + length payload"
proof -
  have "length payload \<le> maxPacketSize"
    using assms by (auto simp: writePacket_def split: if_splits)
  then have "length (encodeRemainingLength (length payload)) \<le> 4"
    by (intro encodeRemainingLength_length) (simp_all add: maxPacketSize_def)
  moreover have "packet = [header] @ encodeRemainingLength (length payload) @ payload"
    using assms by (auto simp: writePacket_def split: if_splits)
  ultimately show ?thesis
    using readPacket_written [OF assms] by simp
qed

theorem packet_roundtrip_witness:
  "readPacket True (map Octet [0x30, 3, 1, 2, 3] @ [Deadline]) = (Inr (0x30, [1, 2, 3]), [Deadline])"
proof -
  have "writePacket 0x30 [1, 2, 3] = Inr [0x30, 3, 1, 2, 3]"
    by (simp add: writePacket_def maxPacketSize_def byte_of_def encodeRemainingLength.simps)
  from packet_roundtrip [OF this] show ?thesis
    by blast
qed

text \<open>
  C27. \<open>parsePublish\<close> accepts exactly the payloads of well-formed PUBLISH packets of QoS 0 and 1,
  and returns their parts: nothing is lost and nothing else is accepted.
\<close>

theorem publish_exact:
  "parsePublish header payload = Inr p \<longleftrightarrow> publish_ok header p \<and> payload = publishPayload p"
  using parsePublish_encoded parsePublish_complete by blast

text \<open>
  C5. A session in which every write succeeds, with a broker that accepts the connection and then
  sends whole packets that the client accepts and that fit its limit (the PUBLISH packets well-formed and of
  QoS 0 or 1, the SUBACK granting every topic) and is never silent for two deadlines in a row: the
  handler gets exactly the messages
  published to subscribed topics, in order; every QoS 1 publication is acknowledged with its
  packet id and every silence answered with a ping, in order; and the session ends only because
  the connection does.
\<close>

theorem session_with_broker:
  assumes "trim_space (Address c) \<noteq> []" and "normalizedTopics (Topics c) \<noteq> []"
    and "connectPacket c = Inr p1" and "subscribePacket c = Inr p2"
    and "list_all event_fits evs" and "list_all (event_accepted (normalizedTopics (Topics c))) evs"
    and "answered False evs"
  shows "serve (\<lambda>_. True) True c (opened (wire_frames (connack # evs)))
    = (ReadPacketFailed ShortRead,
       \<lparr>reader = [],
        sent = p1 # p2 # concat (map event_replies evs),
        delivered = concat (map (event_messages (normalizedTopics (Topics c))) evs),
        states = [True]\<rparr>)"
  using assms by (rule serve_session)

definition test_client :: client where
  "test_client = \<lparr>Address = ''b:1'', Topics = [''a'', ''c''], ClientID = ''x''\<rparr>"

lemma test_client_topics: "normalizedTopics (Topics test_client) = [''a'', ''c'']"
proof -
  have "trim_space ''a'' = ''a''" "trim_space ''c'' = ''c''"
    by (rule trim_space_closed; simp add: space_heads_def space_lasts_def char_code_def)+
  then show ?thesis
    by (simp add: test_client_def normalizedTopics_def)
qed

lemma test_client_address: "trim_space (Address test_client) = ''b:1''"
  unfolding test_client_def client.simps
  by (rule trim_space_closed) (simp_all add: space_heads_def space_lasts_def char_code_def)

text \<open>A subscription is granted, a message of QoS 1 arrives on a topic, one on another topic.\<close>

definition test_events :: "broker_event list" where
  "test_events = [Packet 0x90 [0, 1, 0, 0], Packet 0x32 ([0, 1, 97, 0, 5] @ [7, 8]), Idle,
     Packet 0xD0 [], Packet 0x30 [0, 1, 98, 9]]"

lemma test_events_accepted: "list_all (event_accepted [''a'', ''c'']) test_events"
  by code_simp

theorem session_with_broker_witness:
  "\<exists>p1 p2. serve (\<lambda>_. True) True test_client (opened (wire_frames (connack # test_events)))
    = (ReadPacketFailed ShortRead,
       \<lparr>reader = [], sent = [p1, p2, [0x40, 2, 0, 5], [0xC0, 0]], delivered = [[7, 8]], states = [True]\<rparr>)"
proof -
  have "connectPacket test_client \<noteq> Inl e" for e
    by (simp add: connectPacket_def writePacket_def connectPayload_def writeUTF8_def be_uint16_def
        maxPacketSize_def test_client_def)
  moreover have "subscribePacket test_client \<noteq> Inl e" for e
    unfolding subscribePacket_def test_client_topics
    by (simp add: writePacket_def subscribePayload_def writeUTF8_def be_uint16_def maxPacketSize_def)
  ultimately obtain p1 p2 where "connectPacket test_client = Inr p1" "subscribePacket test_client = Inr p2"
    by (meson sum.exhaust)
  moreover have "list_all event_fits test_events"
    by (simp add: test_events_def maxPacketSize_def)
  moreover have "answered False test_events"
    by (simp add: test_events_def)
  moreover have "concat (map event_replies test_events) = [[0x40, 2, 0, 5], [0xC0, 0]]"
    and "concat (map (event_messages [''a'', ''c'']) test_events) = [[7, 8]]"
    by code_simp+
  ultimately show ?thesis
    using session_with_broker [of test_client p1 p2 test_events] test_events_accepted
    by (auto simp: test_client_topics test_client_address)
qed

text \<open>
  A dead connection is noticed: when a second deadline passes without a packet in between,
  the session ends with a ping timeout, whatever would still arrive.
\<close>

theorem silence_ends_session:
  assumes "list_all event_fits evs" and "list_all event_fits rest"
    and "list_all (event_accepted topics) evs" and "answered awaiting evs"
    and "evs \<noteq> []" and "last evs = Idle" and "reader s = wire_frames (evs @ Idle # rest)"
  shows "fst (serve_loop (\<lambda>_. True) topics awaiting s) = PingTimeout"
proof -
  have "serve_loop (\<lambda>_. True) topics awaiting s = run_events (\<lambda>_. True) topics awaiting s (evs @ Idle # rest)"
    using assms(1,2,7) by (intro serve_loop_events) simp_all
  then show ?thesis
    using run_events_silence [OF TrueI assms(3-6)] by simp
qed

text \<open>
  C40. A deadline that passes anywhere inside a packet, after any number of its octets, tears it: the
  octets that were read are dropped and the silence is taken for one between packets.  With a ping
  outstanding the session ends with a ping timeout; otherwise a ping is sent, and unless that write
  fails, which ends the session, the rest of the packet is read as if a new packet began there.
\<close>

theorem deadline_tears_packet:
  assumes "writePacket header payload = Inr packet" and "strict_prefix p packet"
    and "reader s = map Octet p @ Deadline # r"
  shows "serve_loop wok topics awaiting s =
    (if awaiting then (PingTimeout, s\<lparr>reader := r\<rparr>)
     else if wok (length (sent s)) then serve_loop wok topics True (s\<lparr>reader := r, sent := sent s @ [[0xC0, 0]]\<rparr>)
     else (SendPingreq WriteFailed, s\<lparr>reader := r\<rparr>))"
  using assms by (rule serve_loop_torn)

text \<open>
  The PUBLISH \<^verbatim>\<open>30 04 00 01 61 07\<close> to topic \<^verbatim>\<open>a\<close> with a pause after its fourth octet: what follows
  the pause reads as the start of another packet, and the message is lost.
\<close>

theorem deadline_tears_packet_witness:
  "delivered (snd (serve_loop (\<lambda>_. True) [''a''] False (opened (map Octet [0x30, 4, 0, 1, 97, 7])))) = [[7]]
    \<and> delivered (snd (serve_loop (\<lambda>_. True) [''a''] False
        (opened (map Octet [0x30, 4, 0, 1] @ Deadline # map Octet [97, 7])))) = []"
proof -
  have packet: "writePacket 0x30 [0, 1, 97, 7] = Inr [0x30, 4, 0, 1, 97, 7]"
    by (simp add: writePacket_def maxPacketSize_def byte_of_def encodeRemainingLength.simps)
  from readPacket_written [OF this, of True "[]"]
  have whole: "readPacket True (map Octet [0x30, 4, 0, 1, 97, 7]) = (Inr (0x30, [0, 1, 97, 7]), [])"
    by simp
  have "encodeRemainingLength 7 = [7]"
    by (simp add: encodeRemainingLength.simps byte_of_def)
  then have "decodeRemainingLength True (map Octet [7]) = (Inr 7, [])"
    using decode_encode_loop [of 7 4 True 1 0 "[]"] by (simp add: decodeRemainingLength_def)
  then have rest: "readPacket True (map Octet [97, 7]) = (Inl ShortRead, [])"
    using readFull_short [of "[]" 7 True] by (simp add: readPacket_def maxPacketSize_def)
  have topic: "char_of (97 :: nat) = CHR ''a''"
    by code_simp
  have deliver: "handlePacket (\<lambda>_. True) [''a''] 0x30 [0, 1, 97, 7] s
      = (None, s\<lparr>delivered := delivered s @ [[7]]\<rparr>)" for s
    using handlePacket_accepted [of "[''a'']" "0x30" "[0, 1, 97, 7]" "\<lambda>_. True" s]
    by (simp add: parsePublish_def publish_qos_def be_value_def string_of_bytes_def topic)
  have "delivered (snd (serve_loop (\<lambda>_. True) [''a''] False (opened (map Octet [0x30, 4, 0, 1, 97, 7])))) = [[7]]"
    using whole deliver
    by (simp add: serve_loop.simps [of _ _ False "opened _"] opened_def)
       (simp add: serve_loop.simps readPacket_empty)
  moreover have "delivered (snd (serve_loop (\<lambda>_. True) [''a''] False
        (opened (map Octet [0x30, 4, 0, 1] @ Deadline # map Octet [97, 7])))) = []"
    using deadline_tears_packet [OF packet, of "[0x30, 4, 0, 1]"
        "opened (map Octet [0x30, 4, 0, 1] @ Deadline # map Octet [97, 7])" "map Octet [97, 7]" "\<lambda>_. True" "[''a'']" False] rest
    by (simp add: opened_def) (simp add: serve_loop.simps)
  ultimately show ?thesis
    by blast
qed

text \<open>
  C34. The wait before a reconnection is always 1, 2, 4, 8, 16 or 32 seconds, and while attempts
  keep failing within a minute the waits double from one second up to 32 and stay there.
\<close>

theorem backoff_bounded:
  "set (Run attempts) \<subseteq> backoffs
    \<and> (list_all (\<lambda>a. elapsed a < minute \<and> \<not> cancelled a \<and> \<not> wait_cancelled a) attempts \<longrightarrow>
         Run attempts = map (\<lambda>i. 2 ^ min i 5 * second) [0..<length attempts])"
proof -
  have "second \<in> backoffs"
    by (simp add: backoffs_def)
  then show ?thesis
    using run_loop_in [of second attempts] run_loop_quick [of attempts 0]
    by (auto simp: Run_def list_all_iff)
qed

theorem backoff_bounded_witness:
  "Run (replicate 7 \<lparr>elapsed = 5, cancelled = False, wait_cancelled = False\<rparr>)
    = map (\<lambda>i. 2 ^ min i 5 * second) [0..<7]"
  using backoff_bounded [of "replicate 7 \<lparr>elapsed = 5, cancelled = False, wait_cancelled = False\<rparr>"]
  by (simp add: list_all_iff del: upt.simps)

end
