(* ===== verification/Go_Path.thy ===== *)
theory Go_Path
  imports Go_Strings
begin

section \<open>Lexical paths\<close>

text \<open>
  \<^verbatim>\<open>filepath.Clean\<close>, \<^verbatim>\<open>filepath.Dir\<close> and \<^verbatim>\<open>filepath.Join\<close> on Unix, as their documentation
  describes them: repeated and trailing slashes, \<^verbatim>\<open>.\<close> elements and inner \<^verbatim>\<open>..\<close> elements are
  removed, \<^verbatim>\<open>..\<close> at the root is dropped, and an empty result is written \<^verbatim>\<open>.\<close>.
\<close>

definition slash :: char where
  "slash = CHR ''/''"

text \<open>The elements between slashes, empty ones included.\<close>

fun split_slash :: "go_string \<Rightarrow> go_string list" where
  "split_slash [] = [[]]"
| "split_slash (c # s) =
     (if c = slash then [] # split_slash s
      else (case split_slash s of [] \<Rightarrow> [[c]] | e # es \<Rightarrow> (c # e) # es))"

text \<open>The elements kept so far, last one first.\<close>

definition clean_step :: "bool \<Rightarrow> go_string list \<Rightarrow> go_string \<Rightarrow> go_string list" where
  "clean_step rooted kept e =
     (if e = [] \<or> e = ''.'' then kept
      else if e = ''..'' then
        (case kept of
           [] \<Rightarrow> if rooted then [] else [e]
         | k # ks \<Rightarrow> if k = ''..'' then e # kept else ks)
      else e # kept)"

fun join_slash :: "go_string list \<Rightarrow> go_string" where
  "join_slash [] = []"
| "join_slash [e] = e"
| "join_slash (e # f # es) = e @ slash # join_slash (f # es)"

definition is_rooted :: "go_string \<Rightarrow> bool" where
  "is_rooted p \<longleftrightarrow> p \<noteq> [] \<and> hd p = slash"

definition path_Clean :: "go_string \<Rightarrow> go_string" where
  "path_Clean p =
     (let rooted = is_rooted p;
          body = join_slash (rev (foldl (clean_step rooted) [] (split_slash p)))
      in if rooted then slash # body else if body = [] then ''.'' else body)"

text \<open>Everything up to and including the last slash.\<close>

definition dir_part :: "go_string \<Rightarrow> go_string" where
  "dir_part p = rev (dropWhile (\<lambda>c. c \<noteq> slash) (rev p))"

definition path_Dir :: "go_string \<Rightarrow> go_string" where
  "path_Dir p = path_Clean (dir_part p)"

definition path_Join :: "go_string \<Rightarrow> go_string \<Rightarrow> go_string" where
  "path_Join a b =
     (if a = [] \<and> b = [] then []
      else if a = [] then path_Clean b
      else if b = [] then path_Clean a
      else path_Clean (a @ slash # b))"

lemma path_Clean_nonempty: "path_Clean p \<noteq> []"
  by (simp add: path_Clean_def Let_def)

lemma path_Dir_nonempty: "path_Dir p \<noteq> []"
  by (simp add: path_Dir_def path_Clean_nonempty)

lemma path_Dir_config: "path_Dir ''/data/mgl03-homekit/config.json'' = ''/data/mgl03-homekit''"
  by (simp add: path_Dir_def dir_part_def path_Clean_def Let_def is_rooted_def slash_def clean_step_def)

end
