(* ===== verification/Config.thy ===== *)
theory Config
  imports Go_Text Go_Path
begin

section \<open>Configuration\<close>

text \<open>
  \<^verbatim>\<open>internal/config/config.go\<close>: the configuration and device records, the defaults, the
  pairing PIN, and \<^verbatim>\<open>NormalizeAndValidate\<close>, which fills in defaults and rejects what cannot
  be used.  Its result is the error or the configuration it leaves behind.
\<close>

record mqtt_config =
  m_address :: go_string
  m_topic :: go_string
  m_client_id :: go_string

record device =
  d_name :: go_string
  d_mac :: go_string
  d_did :: go_string
  d_product_id :: int
  d_model :: go_string
  d_aid :: nat

record discovery =
  ds_mode :: go_string
  ds_window_seconds :: int

record config =
  c_bridge_name :: go_string
  c_pin :: go_string
  c_port :: int
  c_interfaces :: "go_string list"
  c_state_dir :: go_string
  c_discovery :: discovery
  c_mqtt :: mqtt_config
  c_devices :: "device list"

definition DefaultBroker :: go_string where "DefaultBroker = ''127.0.0.1:1883''"
definition DefaultTopic :: go_string where "DefaultTopic = ''central/report''"
definition DefaultPort :: int where "DefaultPort = 51826"
definition DefaultDiscoveryWindowSeconds :: int where "DefaultDiscoveryWindowSeconds = 30"
definition DiscoveryModeFirst :: go_string where "DiscoveryModeFirst = ''first''"
definition DiscoveryModeAuto :: go_string where "DiscoveryModeAuto = ''auto''"
definition DiscoveryModeManual :: go_string where "DiscoveryModeManual = ''manual''"
definition DefaultBridgeName :: go_string where "DefaultBridgeName = ''MGL03 Bluetooth Bridge''"
definition DefaultClientID :: go_string where "DefaultClientID = ''mgl03-homekit-bridge''"

datatype config_error =
    PortRange
  | DiscoveryModeInvalid
  | DiscoveryWindowRange
  | PinFormat
  | PinRejected go_string
  | DeviceWithoutIdentity nat
  | DeviceInvalidMAC nat go_string
  | DuplicateDevice go_string
  | ReservedAID nat
  | DuplicateAID nat

subsection \<open>The pairing PIN\<close>

definition invalidPins :: "go_string list" where
  "invalidPins = [''00000000'', ''11111111'', ''22222222'', ''33333333'', ''44444444'',
     ''55555555'', ''66666666'', ''77777777'', ''88888888'', ''99999999'', ''12345678'', ''87654321'']"

definition validatePin :: "go_string \<Rightarrow> config_error option" where
  "validatePin pin =
     (if \<not> (length pin = 8 \<and> list_all is_digit pin) then Some PinFormat
      else if pin \<in> set invalidPins then Some (PinRejected pin)
      else None)"

definition FormatPin :: "go_string \<Rightarrow> go_string" where
  "FormatPin pin =
     (if length pin \<noteq> 8 then pin
      else take 3 pin @ ''-'' @ take 2 (drop 3 pin) @ ''-'' @ drop 5 pin)"

text \<open>\<^verbatim>\<open>strings.NewReplacer("-", "", " ", "").Replace\<close>\<close>

definition strip_pin :: "go_string \<Rightarrow> go_string" where
  "strip_pin pin = filter (\<lambda>c. c \<noteq> CHR ''-'' \<and> c \<noteq> CHR '' '') pin"

text \<open>\<^verbatim>\<open>fmt.Sprintf("%08d", n)\<close> for a number below one hundred million.\<close>

definition pad8 :: "nat \<Rightarrow> go_string" where
  "pad8 n = replicate (8 - length (itoa_nat n)) (CHR ''0'') @ itoa_nat n"

definition pin_of_bytes :: "bytes \<Rightarrow> go_string" where
  "pin_of_bytes b = pad8 (nat ((uint (b ! 0) + 2 ^ 8 * uint (b ! 1) + 2 ^ 16 * uint (b ! 2)
     + 2 ^ 24 * uint (b ! 3)) mod 100000000))"

text \<open>
  The loop of \<^verbatim>\<open>generatePin\<close> over the successive reads of the random source; a read is an
  error (\<open>None\<close>) or four bytes.  The outcome is \<open>None\<close> while no read has ended the loop.
\<close>

datatype pin_outcome = PinReadError | PinGenerated go_string

fun generatePin :: "bytes option list \<Rightarrow> pin_outcome option" where
  "generatePin [] = None"
| "generatePin (None # reads) = Some PinReadError"
| "generatePin (Some b # reads) =
     (if validatePin (pin_of_bytes b) = None then Some (PinGenerated (pin_of_bytes b))
      else generatePin reads)"

subsection \<open>Defaults\<close>

definition default_state_dir :: "go_string \<Rightarrow> go_string" where
  "default_state_dir configPath =
     (let stateDir = path_Dir configPath
      in if stateDir = ''.'' \<or> stateDir = [] then ''state'' else stateDir)"

definition Defaults :: "go_string \<Rightarrow> go_string \<Rightarrow> config" where
  "Defaults pin configPath = \<lparr>c_bridge_name = DefaultBridgeName, c_pin = pin, c_port = DefaultPort,
     c_interfaces = [], c_state_dir = default_state_dir configPath,
     c_discovery = \<lparr>ds_mode = DiscoveryModeAuto, ds_window_seconds = DefaultDiscoveryWindowSeconds\<rparr>,
     c_mqtt = \<lparr>m_address = DefaultBroker, m_topic = DefaultTopic, m_client_id = DefaultClientID\<rparr>,
     c_devices = []\<rparr>"

subsection \<open>Validation of devices\<close>

definition device_key_of :: "device \<Rightarrow> go_string" where
  "device_key_of d = (if d_mac d = [] then ''did:'' @ d_did d else d_mac d)"

definition normalize_device :: "nat \<Rightarrow> device \<Rightarrow> device" where
  "normalize_device i d =
     (let name = trim_space (d_name d)
      in d\<lparr>d_name := (if name = [] then ''Bluetooth Device '' @ itoa (int i + 1) else name),
           d_mac := config_NormalizeMAC (d_mac d),
           d_did := trim_space (d_did d)\<rparr>)"

type_synonym seen_state = "go_string list \<times> nat list"

definition check_device :: "nat \<Rightarrow> device \<Rightarrow> seen_state \<Rightarrow> config_error + seen_state" where
  "check_device i d st =
     (case st of (seen, seenAID) \<Rightarrow>
        if d_mac d = [] \<and> d_did d = [] then Inl (DeviceWithoutIdentity i)
        else if d_mac d \<noteq> [] \<and> \<not> valid_mac (d_mac d) then Inl (DeviceInvalidMAC i (d_mac d))
        else if device_key_of d \<in> set seen then Inl (DuplicateDevice (device_key_of d))
        else if d_aid d = 1 then Inl (ReservedAID i)
        else if d_aid d > 0 \<and> d_aid d \<in> set seenAID then Inl (DuplicateAID (d_aid d))
        else Inr (device_key_of d # seen, if d_aid d > 0 then d_aid d # seenAID else seenAID))"

fun normalize_devices :: "nat \<Rightarrow> seen_state \<Rightarrow> device list \<Rightarrow> config_error + device list" where
  "normalize_devices i st [] = Inr []"
| "normalize_devices i st (d # ds) =
     (case check_device i (normalize_device i d) st of
        Inl err \<Rightarrow> Inl err
      | Inr st' \<Rightarrow>
          (case normalize_devices (Suc i) st' ds of
             Inl err \<Rightarrow> Inl err
           | Inr ds' \<Rightarrow> Inr (normalize_device i d # ds')))"

subsection \<open>NormalizeAndValidate\<close>

definition or_default :: "go_string \<Rightarrow> go_string \<Rightarrow> go_string" where
  "or_default s dflt = (if trim_space s = [] then dflt else s)"

definition normalize_discovery :: "discovery \<Rightarrow> config_error + discovery" where
  "normalize_discovery ds =
     (let trimmed = to_lower (trim_space (ds_mode ds));
          mode = (if trimmed = [] then DiscoveryModeFirst else trimmed);
          window = (if ds_window_seconds ds = 0 then DefaultDiscoveryWindowSeconds
                    else ds_window_seconds ds)
      in if mode \<noteq> DiscoveryModeFirst \<and> mode \<noteq> DiscoveryModeAuto \<and> mode \<noteq> DiscoveryModeManual
         then Inl DiscoveryModeInvalid
         else if window < 5 \<or> window > 10 * 60 then Inl DiscoveryWindowRange
         else Inr \<lparr>ds_mode = mode, ds_window_seconds = window\<rparr>)"

definition normalize_mqtt :: "mqtt_config \<Rightarrow> mqtt_config" where
  "normalize_mqtt m = \<lparr>m_address = or_default (m_address m) DefaultBroker,
     m_topic = or_default (m_topic m) DefaultTopic,
     m_client_id = or_default (m_client_id m) DefaultClientID\<rparr>"

definition NormalizeAndValidate :: "go_string \<Rightarrow> config \<Rightarrow> config_error + config" where
  "NormalizeAndValidate configPath c =
     (let bridgeName = or_default (c_bridge_name c) DefaultBridgeName;
          port = (if c_port c = 0 then DefaultPort else c_port c)
      in if port < 1 \<or> port > 65535 then Inl PortRange
         else
           let stateDir = (if trim_space (c_state_dir c) = [] then default_state_dir configPath
                           else c_state_dir c)
           in case normalize_discovery (c_discovery c) of
                Inl err \<Rightarrow> Inl err
              | Inr disc \<Rightarrow>
                  (case validatePin (strip_pin (c_pin c)) of
                     Some err \<Rightarrow> Inl err
                   | None \<Rightarrow>
                       (case normalize_devices 0 ([], []) (c_devices c) of
                          Inl err \<Rightarrow> Inl err
                        | Inr devices \<Rightarrow>
                            Inr (c\<lparr>c_bridge_name := bridgeName, c_pin := strip_pin (c_pin c),
                                   c_port := port, c_state_dir := stateDir, c_discovery := disc,
                                   c_mqtt := normalize_mqtt (c_mqtt c), c_devices := devices\<rparr>))))"


subsection \<open>What a validated configuration satisfies\<close>

definition device_ok :: "device \<Rightarrow> bool" where
  "device_ok d \<longleftrightarrow> d_name d \<noteq> [] \<and> (d_mac d \<noteq> [] \<or> d_did d \<noteq> [])
     \<and> (d_mac d \<noteq> [] \<longrightarrow> valid_mac (d_mac d)) \<and> d_aid d \<noteq> 1"

text \<open>Nothing is left to normalise in a device.\<close>

definition device_normal :: "device \<Rightarrow> bool" where
  "device_normal d \<longleftrightarrow> trim_space (d_name d) = d_name d \<and> config_NormalizeMAC (d_mac d) = d_mac d
     \<and> trim_space (d_did d) = d_did d"

definition positive_aids :: "device list \<Rightarrow> nat list" where
  "positive_aids ds = filter (\<lambda>a. 0 < a) (map d_aid ds)"

definition devices_ok :: "device list \<Rightarrow> bool" where
  "devices_ok ds \<longleftrightarrow> list_all (\<lambda>d. device_ok d \<and> device_normal d) ds
     \<and> distinct (map device_key_of ds) \<and> distinct (positive_aids ds)"

definition discovery_ok :: "discovery \<Rightarrow> bool" where
  "discovery_ok ds \<longleftrightarrow> ds_mode ds \<in> {DiscoveryModeFirst, DiscoveryModeAuto, DiscoveryModeManual}
     \<and> 5 \<le> ds_window_seconds ds \<and> ds_window_seconds ds \<le> 600"

definition mqtt_ok :: "mqtt_config \<Rightarrow> bool" where
  "mqtt_ok m \<longleftrightarrow> trim_space (m_address m) \<noteq> [] \<and> trim_space (m_topic m) \<noteq> []
     \<and> trim_space (m_client_id m) \<noteq> []"

definition pin_ok :: "go_string \<Rightarrow> bool" where
  "pin_ok pin \<longleftrightarrow> length pin = 8 \<and> list_all is_digit pin \<and> pin \<notin> set invalidPins"

definition valid_config :: "config \<Rightarrow> bool" where
  "valid_config c \<longleftrightarrow> trim_space (c_bridge_name c) \<noteq> [] \<and> 1 \<le> c_port c \<and> c_port c \<le> 65535
     \<and> discovery_ok (c_discovery c) \<and> mqtt_ok (c_mqtt c) \<and> pin_ok (c_pin c)
     \<and> devices_ok (c_devices c)"

lemmas config_strings = DefaultBroker_def DefaultTopic_def DefaultBridgeName_def
  DefaultClientID_def DiscoveryModeFirst_def DiscoveryModeAuto_def DiscoveryModeManual_def

subsection \<open>The defaults are trimmed\<close>

lemma char_code_literals: "char_code (CHR ''B'') = 66" "char_code (CHR ''1'') = 49"
    "char_code (CHR ''M'') = 77" "char_code (CHR ''m'') = 109" "char_code (CHR ''c'') = 99"
    "char_code (CHR ''f'') = 102" "char_code (CHR ''a'') = 97" "char_code (CHR ''t'') = 116"
    "char_code (CHR ''o'') = 111" "char_code (CHR ''l'') = 108" "char_code (CHR ''e'') = 101"
    "char_code (CHR ''3'') = 51"
  by (simp_all add: char_code_def)

lemma trim_defaults [simp]:
  "trim_space DefaultBroker = DefaultBroker" "trim_space DefaultTopic = DefaultTopic"
  "trim_space DefaultBridgeName = DefaultBridgeName" "trim_space DefaultClientID = DefaultClientID"
  "trim_space DiscoveryModeFirst = DiscoveryModeFirst" "trim_space DiscoveryModeAuto = DiscoveryModeAuto"
  "trim_space DiscoveryModeManual = DiscoveryModeManual"
  by (rule trim_space_closed;
      simp add: config_strings space_heads_def space_lasts_def char_code_def)+

lemma default_nonempty [simp]:
  "DefaultBroker \<noteq> []" "DefaultTopic \<noteq> []" "DefaultBridgeName \<noteq> []" "DefaultClientID \<noteq> []"
  "DiscoveryModeFirst \<noteq> []" "DiscoveryModeAuto \<noteq> []" "DiscoveryModeManual \<noteq> []"
  by (simp_all add: config_strings)

lemma to_lower_modes [simp]:
  "to_lower DiscoveryModeFirst = DiscoveryModeFirst" "to_lower DiscoveryModeAuto = DiscoveryModeAuto"
  "to_lower DiscoveryModeManual = DiscoveryModeManual"
  by (simp_all add: config_strings to_lower_def lower_char_def char_code_def)

lemma is_digit_last: "list_all is_digit s \<Longrightarrow> s \<noteq> [] \<Longrightarrow> is_digit (last s)"
  by (simp add: list_all_iff)

lemma trim_default_name:
  "trim_space (''Bluetooth Device '' @ itoa (int i + 1)) = ''Bluetooth Device '' @ itoa (int i + 1)"
proof -
  have nat: "itoa (int i + 1) = itoa_nat (nat (int i + 1))"
    by (simp add: itoa_def)
  then have "itoa (int i + 1) \<noteq> []" and "is_digit (last (itoa (int i + 1)))"
    using itoa_nat_digits by (simp_all add: is_digit_last)
  then show ?thesis
    by (intro trim_space_closed)
       (auto simp: space_heads_def space_lasts_def is_digit_def char_code_def)
qed

end
