(* ===== verification/Bridge.thy ===== *)
theory Bridge
  imports Products Config
begin

unbundle bit_operations_syntax

section \<open>Accessories and the climate sensor\<close>

text \<open>
  \<^verbatim>\<open>internal/bridge/device.go\<close> and \<^verbatim>\<open>internal/bridge/sensor.go\<close>.  A HomeKit characteristic
  belongs to the library \<^verbatim>\<open>github.com/brutella/hap\<close>, which is not part of the repository; the
  model keeps, per characteristic, the last value the bridge passed to \<^verbatim>\<open>SetValue\<close>, and \<open>None\<close>
  before the first such call.
\<close>

record battery_service =
  bs_level :: "int option"
  bs_low :: "int option"
  bs_charging :: "int option"

record accessory_info =
  ai_name :: go_string
  ai_serial :: go_string
  ai_manufacturer :: go_string
  ai_model :: go_string
  ai_firmware :: go_string

subsection \<open>Device identity\<close>

definition productForDevice :: "device \<Rightarrow> product option" where
  "productForDevice d =
     (case LookupProduct (d_product_id d) of
        Some p \<Rightarrow> Some p
      | None \<Rightarrow> LookupProductByModel (d_model d))"

definition serialNumber :: "device \<Rightarrow> go_string" where
  "serialNumber d = (if d_mac d \<noteq> [] then to_upper (filter (\<lambda>c. c \<noteq> CHR '':'') (d_mac d)) else d_did d)"

definition accessoryInfo :: "device \<Rightarrow> go_string \<Rightarrow> go_string \<Rightarrow> accessory_info" where
  "accessoryInfo d fallbackModel fallbackManufacturer =
     (let (name, model, manufacturer) =
            (case productForDevice d of
               None \<Rightarrow> (d_name d, d_model d, fallbackManufacturer)
             | Some p \<Rightarrow>
                 (if d_name d = [] then p_default_name p else d_name d,
                  if d_model d = [] then p_model p else d_model d,
                  if p_manufacturer p \<noteq> [] then p_manufacturer p else fallbackManufacturer))
      in \<lparr>ai_name = name, ai_serial = serialNumber d, ai_manufacturer = manufacturer,
          ai_model = (if model = [] then fallbackModel else model), ai_firmware = ''MGL03 bridge''\<rparr>)"

text \<open>\<^verbatim>\<open>hash/fnv\<close>: the 64-bit FNV-1a hash.\<close>

definition fnv64a :: "go_string \<Rightarrow> 64 word" where
  "fnv64a s = foldl (\<lambda>h c. (h XOR word_of_nat (char_code c)) * 1099511628211)
     14695981039346656037 s"

definition stableID :: "device \<Rightarrow> nat" where
  "stableID d =
     (let identity = (if d_mac d = [] then ''did:'' @ d_did d else d_mac d)
      in unat ((fnv64a identity AND 0x7fffffff) + 2))"

definition DefaultAccessoryID :: "device \<Rightarrow> nat" where
  "DefaultAccessoryID d = stableID d"

definition accessoryID :: "device \<Rightarrow> nat" where
  "accessoryID d = (if d_aid d \<ge> 2 then d_aid d else stableID d)"

lemma stableID_bounds: "2 \<le> stableID d" and stableID_upper: "stableID d \<le> 2147483649"
proof -
  have less: "unat (h AND 0x7fffffff) < 2 ^ 31" for h :: "64 word"
  proof -
    have "h AND 0x7fffffff = take_bit 31 h"
      by (simp add: take_bit_eq_mask mask_eq_exp_minus_1)
    then show ?thesis
      using take_bit_nat_less_exp [of 31 "unat h"] by (simp add: unsigned_take_bit_eq)
  qed
  have sum: "unat ((h AND 0x7fffffff) + 2) = unat (h AND 0x7fffffff) + 2" for h :: "64 word"
    using less [of h] by (simp add: unat_word_ariths)
  define h where "h = fnv64a (if d_mac d = [] then ''did:'' @ d_did d else d_mac d)"
  have "stableID d = unat (h AND 0x7fffffff) + 2"
    by (simp only: stableID_def Let_def h_def sum)
  then show "2 \<le> stableID d" and "stableID d \<le> 2147483649"
    using less [of h] by simp_all
qed

lemma accessoryID_not_bridge: "2 \<le> accessoryID d"
  using stableID_bounds(1) by (simp add: accessoryID_def)

subsection \<open>Battery\<close>

definition applyBattery :: "int \<Rightarrow> battery_service \<Rightarrow> battery_service" where
  "applyBattery battery s = s\<lparr>bs_level := Some battery, bs_low := Some (if battery \<le> 20 then 1 else 0)\<rparr>"

definition apply_battery_of :: "update \<Rightarrow> battery_service \<Rightarrow> battery_service" where
  "apply_battery_of u s = (case u_battery u of None \<Rightarrow> s | Some b \<Rightarrow> applyBattery b s)"

text \<open>The low-battery flag follows the level.\<close>

definition battery_consistent :: "battery_service \<Rightarrow> bool" where
  "battery_consistent s \<longleftrightarrow> bs_charging s = Some 2
     \<and> bs_low s = map_option (\<lambda>b. if b \<le> 20 then 1 else 0) (bs_level s)"

definition new_battery :: battery_service where
  "new_battery = \<lparr>bs_level = None, bs_low = None, bs_charging = Some 2\<rparr>"

lemma new_battery_consistent [simp]: "battery_consistent new_battery"
  by (simp add: battery_consistent_def new_battery_def)

lemma apply_battery_consistent [simp]:
  "battery_consistent s \<Longrightarrow> battery_consistent (apply_battery_of u s)"
  by (simp add: apply_battery_of_def applyBattery_def battery_consistent_def split: option.split)

subsection \<open>The climate sensor\<close>

record sensor =
  s_device :: device
  s_info :: accessory_info
  s_id :: nat
  s_temperature :: "f64 option"
  s_humidity :: "f64 option"
  s_battery :: battery_service

definition NewSensor :: "device \<Rightarrow> sensor" where
  "NewSensor d = \<lparr>s_device = d, s_info = accessoryInfo d ModelSensorHTO2 ''Miaomiaoce'',
     s_id = accessoryID d, s_temperature = None, s_humidity = None, s_battery = new_battery\<rparr>"

definition sensor_Apply :: "update \<Rightarrow> sensor \<Rightarrow> sensor" where
  "sensor_Apply u s = s\<lparr>
     s_temperature := (case u_temperature u of None \<Rightarrow> s_temperature s | Some v \<Rightarrow> Some v),
     s_humidity := (case u_humidity u of None \<Rightarrow> s_humidity s | Some v \<Rightarrow> Some v),
     s_battery := apply_battery_of u (s_battery s)\<rparr>"

definition sensor_Close :: "sensor \<Rightarrow> sensor" where
  "sensor_Close s = s"

definition valid_sensor :: "sensor \<Rightarrow> bool" where
  "valid_sensor s \<longleftrightarrow> valid_f64 (- 100) 150 (s_temperature s) \<and> valid_f64 0 100 (s_humidity s)
     \<and> valid_int 0 100 (bs_level (s_battery s)) \<and> battery_consistent (s_battery s)"

lemma NewSensor_valid: "valid_sensor (NewSensor d)"
  by (simp add: valid_sensor_def NewSensor_def new_battery_def battery_consistent_def)

lemma apply_battery_level:
  "valid_update u \<Longrightarrow> valid_int 0 100 (bs_level b) \<Longrightarrow> valid_int 0 100 (bs_level (apply_battery_of u b))"
  by (auto simp: apply_battery_of_def applyBattery_def valid_update_def split: option.split)

lemma sensor_Apply_valid: "valid_update u \<Longrightarrow> valid_sensor s \<Longrightarrow> valid_sensor (sensor_Apply u s)"
  by (auto simp: valid_sensor_def sensor_Apply_def apply_battery_level
      valid_update_def split: option.split)

end
