(* ===== verification/Devices.thy ===== *)
theory Devices
  imports Bridge "HOL-Library.Sublist"
begin

section \<open>The device list\<close>

text \<open>
  The functions of \<^verbatim>\<open>cmd/mgl03-homekit-bridge/main.go\<close> on device lists: merging the configured
  with the registered devices, filling in products and accessory ids, looking a device up by
  an update, and the device a discovery makes of an update.

  \<open>next_candidate\<close> is the search for a free accessory id; it may run forever when every id is
  taken, which is the value \<open>None\<close>.
\<close>

definition deviceKey :: "device \<Rightarrow> go_string" where
  "deviceKey d =
     (if d_mac d \<noteq> [] then to_lower (d_mac d)
      else if d_did d \<noteq> [] then ''did:'' @ d_did d
      else [])"

definition updateIdentity :: "update \<Rightarrow> go_string" where
  "updateIdentity u = (if u_mac u \<noteq> [] then to_lower (u_mac u) else ''did:'' @ u_did u)"

text \<open>The body of the loops of \<^verbatim>\<open>findDevice\<close> and \<^verbatim>\<open>matchAccessory\<close>.\<close>

definition matches :: "update \<Rightarrow> device \<Rightarrow> bool" where
  "matches u d \<longleftrightarrow>
     (u_mac u \<noteq> [] \<and> d_mac d \<noteq> [] \<and> equal_fold (u_mac u) (d_mac d))
     \<or> (u_did u \<noteq> [] \<and> d_did d \<noteq> [] \<and> u_did u = d_did d)"

fun find_device_loop :: "int \<Rightarrow> device list \<Rightarrow> update \<Rightarrow> int" where
  "find_device_loop i [] u = - 1"
| "find_device_loop i (d # ds) u = (if matches u d then i else find_device_loop (i + 1) ds u)"

definition findDevice :: "device list \<Rightarrow> update \<Rightarrow> int" where
  "findDevice devices u = find_device_loop 0 devices u"

definition supportedDiscoveryUpdate :: "update \<Rightarrow> bool" where
  "supportedDiscoveryUpdate u \<longleftrightarrow> SupportedProduct (u_product_id u) \<and> u_mac u \<noteq> []"

definition deviceFromUpdate :: "update \<Rightarrow> int \<Rightarrow> device" where
  "deviceFromUpdate u index =
     (let name = (case LookupProduct (u_product_id u) of None \<Rightarrow> [] | Some p \<Rightarrow> p_default_name p);
          name = (if name = [] then ''Bluetooth Sensor'' else name)
      in \<lparr>d_name = name @ '' '' @ itoa index, d_mac = u_mac u, d_did = u_did u,
          d_product_id = u_product_id u, d_model = u_model u, d_aid = 0\<rparr>)"

subsection \<open>Merging\<close>

text \<open>The sets \<^verbatim>\<open>seenMAC\<close> and \<^verbatim>\<open>seenDID\<close>.\<close>

type_synonym seen = "go_string set \<times> go_string set"

definition see :: "seen \<Rightarrow> device \<Rightarrow> seen" where
  "see seen d = (case seen of (macs, dids) \<Rightarrow>
     (if d_mac d \<noteq> [] then insert (to_lower (d_mac d)) macs else macs,
      if d_did d \<noteq> [] then insert (d_did d) dids else dids))"

definition is_duplicate :: "seen \<Rightarrow> device \<Rightarrow> bool" where
  "is_duplicate seen d \<longleftrightarrow> (case seen of (macs, dids) \<Rightarrow>
     (d_mac d \<noteq> [] \<and> to_lower (d_mac d) \<in> macs) \<or> (d_did d \<noteq> [] \<and> d_did d \<in> dids))"

fun merge_saved :: "seen \<Rightarrow> device list \<Rightarrow> device list \<Rightarrow> device list" where
  "merge_saved seen merged [] = merged"
| "merge_saved seen merged (d # ds) =
     (if is_duplicate seen d \<or> deviceKey d = [] then merge_saved seen merged ds
      else merge_saved (see seen d) (merged @ [d]) ds)"

definition mergeDevices :: "device list \<Rightarrow> device list \<Rightarrow> device list" where
  "mergeDevices configured saved = merge_saved (foldl see ({}, {}) configured) configured saved"

subsection \<open>Preparing\<close>

definition infer_product_id :: "device \<Rightarrow> device \<times> bool" where
  "infer_product_id d =
     (if d_product_id d = 0 then
        (case LookupProductByModel (d_model d) of
           Some p \<Rightarrow> (d\<lparr>d_product_id := p_id p\<rparr>, True)
         | None \<Rightarrow>
             if d_model d = [] then (d\<lparr>d_product_id := ProductIDSensorHTO2\<rparr>, True)
             else (d, False))
      else (d, False))"

definition infer_model :: "device \<Rightarrow> device \<times> bool" where
  "infer_model d =
     (if d_model d = [] then
        (case LookupProduct (d_product_id d) of
           Some p \<Rightarrow> (d\<lparr>d_model := p_model p\<rparr>, True)
         | None \<Rightarrow> (d, False))
      else (d, False))"

definition infer_product :: "device \<Rightarrow> device \<times> bool" where
  "infer_product d =
     (let (d1, c1) = infer_product_id d; (d2, c2) = infer_model d1 in (d2, c1 \<or> c2))"

partial_function (option) next_candidate :: "nat set \<Rightarrow> nat \<Rightarrow> nat option" where
  "next_candidate used candidate =
     (if candidate < 2 \<or> candidate \<in> used then
        next_candidate used (if candidate + 1 > 0x7fffffff then 2 else candidate + 1)
      else Some candidate)"

definition assign_aid :: "nat set \<Rightarrow> device \<Rightarrow> (device \<times> bool) option" where
  "assign_aid used d =
     (if d_aid d \<ge> 2 \<and> d_aid d \<notin> used then Some (d, False)
      else
        (case next_candidate used (DefaultAccessoryID d) of
           None \<Rightarrow> None
         | Some candidate \<Rightarrow> Some (d\<lparr>d_aid := candidate\<rparr>, True)))"

fun prepare_loop :: "nat set \<Rightarrow> device list \<Rightarrow> (device list \<times> bool) option" where
  "prepare_loop used [] = Some ([], False)"
| "prepare_loop used (d # ds) =
     (let (d1, c1) = infer_product d
      in case assign_aid used d1 of
           None \<Rightarrow> None
         | Some (d2, c2) \<Rightarrow>
             (case prepare_loop (insert (d_aid d2) used) ds of
                None \<Rightarrow> None
              | Some (ds', c3) \<Rightarrow> Some (d2 # ds', c1 \<or> c2 \<or> c3)))"

definition prepareDevices :: "device list \<Rightarrow> (device list \<times> bool) option" where
  "prepareDevices devices = prepare_loop {} devices"

definition appendDeviceWithAID :: "device list \<Rightarrow> device \<Rightarrow> device list option" where
  "appendDeviceWithAID devices d = map_option fst (prepareDevices (devices @ [d]))"

subsection \<open>The search for an accessory id\<close>

definition max_aid :: nat where
  "max_aid = 0x7fffffff"

definition wrap_aid :: "nat \<Rightarrow> nat" where
  "wrap_aid c = (if c + 1 > max_aid then 2 else c + 1)"

lemma next_candidate_step:
  "next_candidate used c = (if c < 2 \<or> c \<in> used then next_candidate used (wrap_aid c) else Some c)"
  by (subst next_candidate.simps) (simp add: wrap_aid_def max_aid_def)

lemma candidate_below_free:
  assumes "c \<le> x" and "x \<le> max_aid" and "2 \<le> x" and "x \<notin> used"
  shows "\<exists>y. next_candidate used c = Some y \<and> 2 \<le> y \<and> y \<notin> used"
  using assms(1)
proof (induction rule: inc_induct)
  case base
  then show ?case
    using assms by (subst next_candidate_step) auto
next
  case (step c)
  then have "wrap_aid c = Suc c"
    using assms(2) by (simp add: wrap_aid_def)
  with step.IH show ?case
    by (subst next_candidate_step) auto
qed

lemma candidate_or_wrapped:
  assumes "c \<le> max_aid"
  shows "(\<exists>y. next_candidate used c = Some y \<and> 2 \<le> y \<and> y \<notin> used)
    \<or> next_candidate used c = next_candidate used 2"
  using assms
proof (induction rule: inc_induct)
  case base
  have "wrap_aid max_aid = 2"
    by (simp add: wrap_aid_def)
  then show ?case
    using next_candidate_step [of used max_aid] by (auto simp: not_less)
next
  case (step c)
  then have "wrap_aid c = Suc c"
    by (simp add: wrap_aid_def)
  with step.IH show ?case
    using next_candidate_step [of used c] by (auto simp: not_less)
qed

lemma free_aid:
  assumes "finite used" and "card used < 2147483646"
  shows "\<exists>x. 2 \<le> x \<and> x \<le> max_aid \<and> x \<notin> used"
proof (rule ccontr)
  assume "\<nexists>x. 2 \<le> x \<and> x \<le> max_aid \<and> x \<notin> used"
  then have "{2..max_aid} \<subseteq> used"
    by auto
  then have "card {2..max_aid} \<le> card used"
    using assms(1) by (rule card_mono [rotated])
  then show False
    using assms(2) by (simp add: max_aid_def)
qed

lemma next_candidate_found:
  assumes "finite used" and "card used < 2147483646"
  shows "\<exists>y. next_candidate used c = Some y \<and> 2 \<le> y \<and> y \<notin> used"
proof -
  obtain x where "2 \<le> x" "x \<le> max_aid" "x \<notin> used"
    using free_aid [OF assms] by blast
  then have two: "\<exists>y. next_candidate used 2 = Some y \<and> 2 \<le> y \<and> y \<notin> used"
    by (intro candidate_below_free)
  show ?thesis
  proof (cases "c \<le> max_aid")
    case True
    then show ?thesis
      using candidate_or_wrapped [of c used] two by metis
  next
    case False
    then have "wrap_aid c = 2"
      by (simp add: wrap_aid_def)
    with two show ?thesis
      by (subst next_candidate_step) auto
  qed
qed

subsection \<open>Preparing a list\<close>

text \<open>What preparing a device may change: its product and its accessory id.\<close>

definition same_device :: "device \<Rightarrow> device \<Rightarrow> bool" where
  "same_device d d' \<longleftrightarrow> d_mac d' = d_mac d \<and> d_did d' = d_did d \<and> d_name d' = d_name d
     \<and> (d_product_id d \<noteq> 0 \<longrightarrow> d_product_id d' = d_product_id d)
     \<and> (d_model d \<noteq> [] \<longrightarrow> d_model d' = d_model d)"

lemma infer_product_device: "infer_product d = (d', c) \<Longrightarrow> same_device d d' \<and> d_aid d' = d_aid d"
  by (auto simp: infer_product_def infer_product_id_def infer_model_def same_device_def Let_def
      split: option.splits if_splits prod.splits)

text \<open>A device whose product is settled: nothing is left to infer.\<close>

definition settled :: "device \<Rightarrow> bool" where
  "settled d \<longleftrightarrow> infer_product d = (d, False)"

lemma infer_product_settled: "infer_product d = (d', c) \<Longrightarrow> settled d'"
  by (auto simp: settled_def infer_product_def infer_product_id_def infer_model_def
      LookupProduct_eq LookupProductByModel_eq ProductIDSensorHTO2_def
      split: option.splits if_splits)

lemma infer_product_unchanged: "infer_product d = (d', False) \<Longrightarrow> d' = d"
  by (auto simp: infer_product_def infer_product_id_def infer_model_def Let_def
      split: option.splits if_splits prod.splits)

lemma settled_aid [simp]: "settled (d\<lparr>d_aid := n\<rparr>) \<longleftrightarrow> settled d"
  by (cases d) (auto simp: settled_def infer_product_def infer_product_id_def infer_model_def Let_def
      split: option.splits if_splits prod.splits)

lemma assign_aid_device:
  "assign_aid used d = Some (d', c) \<Longrightarrow> d' = d\<lparr>d_aid := d_aid d'\<rparr> \<and> (\<not> c \<longrightarrow> d' = d)"
  by (auto simp: assign_aid_def split: if_splits option.splits)

lemma assign_aid_fresh:
  assumes "finite used" and "card used < 2147483646"
  shows "\<exists>d' c. assign_aid used d = Some (d', c) \<and> 2 \<le> d_aid d' \<and> d_aid d' \<notin> used"
  using next_candidate_found [OF assms, of "DefaultAccessoryID d"]
  by (auto simp: assign_aid_def)

text \<open>A list that is ready for HomeKit: products settled, accessory ids valid and unique.\<close>

definition ready :: "nat set \<Rightarrow> device list \<Rightarrow> bool" where
  "ready used ds \<longleftrightarrow> (\<forall>d \<in> set ds. settled d \<and> 2 \<le> d_aid d \<and> d_aid d \<notin> used) \<and> distinct (map d_aid ds)"

lemma ready_Cons:
  "ready used (d # ds) \<longleftrightarrow> settled d \<and> 2 \<le> d_aid d \<and> d_aid d \<notin> used \<and> ready (insert (d_aid d) used) ds"
  by (auto simp: ready_def) (metis imageI)

lemma prepare_loop_ready:
  assumes "finite used" and "card used + length ds \<le> 2147483646"
  shows "\<exists>ds' c. prepare_loop used ds = Some (ds', c) \<and> ready used ds' \<and> list_all2 same_device ds ds'
    \<and> (\<not> c \<longrightarrow> ds' = ds)"
  using assms
proof (induction ds arbitrary: used)
  case Nil
  show ?case
    by (intro exI [of _ "[]"] exI [of _ False]) (simp add: ready_def)
next
  case (Cons d ds)
  obtain d1 c1 where d1: "infer_product d = (d1, c1)"
    by fastforce
  have "card used < 2147483646"
    using Cons.prems(2) by simp
  with Cons.prems(1) obtain d2 c2 where d2: "assign_aid used d1 = Some (d2, c2)"
    and aid: "2 \<le> d_aid d2" "d_aid d2 \<notin> used"
    using assign_aid_fresh by blast
  have "card (insert (d_aid d2) used) + length ds \<le> 2147483646"
    using Cons.prems aid by simp
  with Cons.IH [of "insert (d_aid d2) used"] Cons.prems(1)
  obtain ds' c3 where rest: "prepare_loop (insert (d_aid d2) used) ds = Some (ds', c3)"
    and ready: "ready (insert (d_aid d2) used) ds'" and same: "list_all2 same_device ds ds'"
    and unchanged: "\<not> c3 \<longrightarrow> ds' = ds"
    by blast
  have d2_of: "d2 = d1\<lparr>d_aid := d_aid d2\<rparr>" "\<not> c2 \<longrightarrow> d2 = d1"
    using assign_aid_device [OF d2] by simp_all
  have "settled d2"
    using infer_product_settled [OF d1] d2_of(1) by (metis settled_aid)
  moreover have "same_device d (d1\<lparr>d_aid := n\<rparr>)" for n
    using infer_product_device [OF d1] by (simp add: same_device_def)
  then have "same_device d d2"
    using d2_of(1) by metis
  moreover have "\<not> (c1 \<or> c2) \<longrightarrow> d2 = d"
    using infer_product_unchanged [of d d1] d1 d2_of(2) by auto
  ultimately show ?case
    using d1 d2 rest ready same unchanged aid by (simp add: ready_Cons)
qed

lemma prepare_loop_settled:
  "ready used ds \<Longrightarrow> prepare_loop used ds = Some (ds, False)"
  by (induction ds arbitrary: used) (auto simp: ready_Cons settled_def assign_aid_def)

lemma prepare_loop_append:
  assumes "ready used ds"
  shows "prepare_loop used (ds @ es) =
    (case prepare_loop (d_aid ` set ds \<union> used) es of
       None \<Rightarrow> None
     | Some (es', c) \<Rightarrow> Some (ds @ es', c))"
  using assms
proof (induction ds arbitrary: used)
  case Nil
  then show ?case
    by (simp split: option.split)
next
  case (Cons d ds)
  then have "prepare_loop (insert (d_aid d) used) (ds @ es) =
    (case prepare_loop (d_aid ` set ds \<union> insert (d_aid d) used) es of
       None \<Rightarrow> None | Some (es', c) \<Rightarrow> Some (ds @ es', c))"
    by (simp add: ready_Cons)
  with Cons.prems show ?case
    by (auto simp: ready_Cons settled_def assign_aid_def split: option.splits)
qed

text \<open>Enrolling a device leaves the devices that were ready exactly as they are.\<close>

lemma append_ready:
  assumes "ready {} ds" and "length ds < 2147483646"
  shows "\<exists>d'. appendDeviceWithAID ds d = Some (ds @ [d']) \<and> same_device d d' \<and> ready {} (ds @ [d'])"
proof -
  have card: "card (d_aid ` set ds) \<le> length ds"
    by (metis card_image_le card_length le_trans List.finite_set)
  obtain es c where es: "prepare_loop (d_aid ` set ds) [d] = Some (es, c)"
    and ready: "ready (d_aid ` set ds) es" and same: "list_all2 same_device [d] es"
    using prepare_loop_ready [of "d_aid ` set ds" "[d]"] card assms(2) by auto
  from same obtain d' where d': "es = [d']" "same_device d d'"
    by (auto simp: list_all2_Cons1)
  have "ready {} (ds @ [d'])"
    using assms(1) ready d'(1) by (auto simp: ready_def)
  then show ?thesis
    using d' es prepare_loop_append [OF assms(1), of "[d]"]
    by (simp add: appendDeviceWithAID_def prepareDevices_def)
qed

subsection \<open>Looking devices up\<close>

lemma find_device_loop_none: "(\<forall>d \<in> set ds. \<not> matches u d) \<Longrightarrow> find_device_loop i ds u = - 1"
  by (induction i ds u rule: find_device_loop.induct) auto

lemma find_device_loop_first:
  assumes "j < length ds" and "matches u (ds ! j)" and "\<forall>l < j. \<not> matches u (ds ! l)"
  shows "find_device_loop i ds u = i + int j"
  using assms
proof (induction i ds u arbitrary: j rule: find_device_loop.induct)
  case (2 i d ds u)
  show ?case
  proof (cases j)
    case 0
    with 2 show ?thesis
      by simp
  next
    case (Suc m)
    then have "\<not> matches u d" and "m < length ds" and "matches u (ds ! m)"
      and "\<forall>l < m. \<not> matches u (ds ! l)"
      using "2.prems" by (auto dest: spec [of _ "Suc _"] spec [of _ 0])
    with "2.IH" [of m] Suc show ?thesis
      by simp
  qed
qed simp

lemma first_match:
  assumes "d \<in> set ds" and "matches u d"
  shows "\<exists>j < length ds. matches u (ds ! j) \<and> (\<forall>l < j. \<not> matches u (ds ! l))"
proof -
  have "\<exists>j. j < length ds \<and> matches u (ds ! j)"
    using assms by (auto simp: in_set_conv_nth)
  then obtain j where "j < length ds" "matches u (ds ! j)" "\<forall>l < j. \<not> (l < length ds \<and> matches u (ds ! l))"
    using exists_least_iff [of "\<lambda>j. j < length ds \<and> matches u (ds ! j)"] by blast
  then show ?thesis
    by auto
qed

lemma findDevice_spec:
  "findDevice ds u =
     (if \<exists>d \<in> set ds. matches u d
      then int (LEAST j. j < length ds \<and> matches u (ds ! j)) else - 1)"
proof (cases "\<exists>d \<in> set ds. matches u d")
  case True
  then obtain j where j: "j < length ds" "matches u (ds ! j)" "\<forall>l < j. \<not> matches u (ds ! l)"
    using first_match by blast
  then have "(LEAST j. j < length ds \<and> matches u (ds ! j)) = j"
    by (intro Least_equality) (auto simp: not_less [symmetric])
  with j True find_device_loop_first [OF j, of 0] show ?thesis
    by (simp add: findDevice_def)
qed (auto simp: findDevice_def find_device_loop_none)

lemma findDevice_found: "0 \<le> findDevice ds u \<longleftrightarrow> (\<exists>d \<in> set ds. matches u d)"
  by (simp add: findDevice_spec)

lemma deviceFromUpdate_matches: "u_mac u \<noteq> [] \<Longrightarrow> matches u (deviceFromUpdate u n)"
  by (simp add: matches_def deviceFromUpdate_def equal_fold_def Let_def)

subsection \<open>What merging yields\<close>

text \<open>Two entries are the same device when they share an address or a device id.\<close>

definition conflict :: "device \<Rightarrow> device \<Rightarrow> bool" where
  "conflict d e \<longleftrightarrow> (d_mac d \<noteq> [] \<and> d_mac e \<noteq> [] \<and> to_lower (d_mac d) = to_lower (d_mac e))
     \<or> (d_did d \<noteq> [] \<and> d_did e \<noteq> [] \<and> d_did d = d_did e)"

lemma is_duplicate_see: "is_duplicate (see seen e) d \<longleftrightarrow> is_duplicate seen d \<or> conflict e d"
  by (cases seen) (auto simp: is_duplicate_def see_def conflict_def)

lemma is_duplicate_foldl:
  "is_duplicate (foldl see seen ds) d \<longleftrightarrow> is_duplicate seen d \<or> (\<exists>e \<in> set ds. conflict e d)"
  by (induction ds arbitrary: seen) (auto simp: is_duplicate_see)

lemma is_duplicate_seen: "is_duplicate (foldl see ({}, {}) ds) d \<longleftrightarrow> (\<exists>e \<in> set ds. conflict e d)"
  unfolding is_duplicate_foldl by (simp add: is_duplicate_def)

definition add_new :: "device list \<Rightarrow> device \<Rightarrow> device list" where
  "add_new ds d = (if deviceKey d = [] \<or> (\<exists>e \<in> set ds. conflict e d) then ds else ds @ [d])"

lemma merge_saved_eq: "merge_saved (foldl see ({}, {}) ds) ds es = foldl add_new ds es"
proof (induction es arbitrary: ds)
  case (Cons e es)
  have "see (foldl see ({}, {}) ds) e = foldl see ({}, {}) (ds @ [e])"
    by simp
  with Cons.IH [of ds] Cons.IH [of "ds @ [e]"] show ?case
    by (simp add: add_new_def is_duplicate_seen del: foldl_append)
qed simp

lemma mergeDevices_eq: "mergeDevices configured saved = foldl add_new configured saved"
  by (simp add: mergeDevices_def merge_saved_eq)

lemma conflict_self: "deviceKey d \<noteq> [] \<Longrightarrow> conflict d d"
  by (auto simp: deviceKey_def conflict_def split: if_splits)

lemma add_new_prefix: "\<exists>es. foldl add_new ds xs = ds @ es \<and> subseq es xs"
proof (induction xs arbitrary: ds)
  case (Cons x xs)
  from Cons.IH [of ds] Cons.IH [of "ds @ [x]"] show ?case
    by (auto simp: add_new_def)
qed simp

lemma add_new_covers:
  assumes "x \<in> set xs" and "deviceKey x \<noteq> []"
  shows "\<exists>e \<in> set (foldl add_new ds xs). conflict e x"
  using assms(1)
proof (induction xs arbitrary: ds)
  case (Cons y ys)
  show ?case
  proof (cases "x \<in> set ys")
    case True
    with Cons.IH show ?thesis
      by simp
  next
    case False
    then have "x = y"
      using Cons.prems by simp
    then have "\<exists>e \<in> set (add_new ds y). conflict e x"
      using conflict_self [OF assms(2)] assms(2) by (auto simp: add_new_def)
    moreover obtain es where "foldl add_new (add_new ds y) ys = add_new ds y @ es"
      using add_new_prefix by blast
    ultimately show ?thesis
      by auto
  qed
qed simp

text \<open>No two entries of a list are the same device.\<close>

definition separate :: "device list \<Rightarrow> bool" where
  "separate ds \<longleftrightarrow> sorted_wrt (\<lambda>d e. \<not> conflict d e) ds"

lemma add_new_separate: "separate ds \<Longrightarrow> separate (foldl add_new ds xs)"
  by (induction xs arbitrary: ds) (auto simp: add_new_def separate_def sorted_wrt_append)

lemma add_new_covered: "(\<And>x. x \<in> set xs \<Longrightarrow> deviceKey x \<noteq> [] \<Longrightarrow> \<exists>e \<in> set ds. conflict e x) \<Longrightarrow>
    foldl add_new ds xs = ds"
  by (induction xs) (auto simp: add_new_def)

lemma same_device_conflict: "list_all2 same_device ds ds' \<Longrightarrow> separate ds' \<longleftrightarrow> separate ds"
proof -
  have eq: "same_device d d' \<Longrightarrow> same_device e e' \<Longrightarrow> conflict d' e' \<longleftrightarrow> conflict d e" for d d' e e'
    by (simp add: same_device_def conflict_def)
  assume "list_all2 same_device ds ds'"
  then have "length ds' = length ds" and "\<And>i. i < length ds \<Longrightarrow> same_device (ds ! i) (ds' ! i)"
    by (simp_all add: list_all2_conv_all_nth)
  then have "conflict (ds' ! i) (ds' ! j) \<longleftrightarrow> conflict (ds ! i) (ds ! j)" if "i < j" "j < length ds" for i j
    using that by (intro eq) simp_all
  then show "separate ds' \<longleftrightarrow> separate ds"
    unfolding separate_def sorted_wrt_iff_nth_less using \<open>length ds' = length ds\<close> by metis
qed

end
