(* ===== verification/Toothbrush.thy ===== *)
theory Toothbrush
  imports Bridge
begin

section \<open>The toothbrush session\<close>

text \<open>
  \<^verbatim>\<open>internal/bridge/toothbrush.go\<close>: a brushing session is reconstructed from start and end
  advertisements, with a watchdog timer for a lost end.  Every operation runs under the
  mutex, so it is one function of the state and of the clock reading it makes.

  \<open>t_timer\<close> is the pointer \<^verbatim>\<open>t.timer\<close>: the deadline and generation of the timer it points
  to, and whether its callback is still to be started.  A started callback waits for the mutex
  outside the state; the step relation of \<open>Toothbrush_Watchdog\<close> keeps those.
\<close>

definition toothbrushLiveWindow :: duration where
  "toothbrushLiveWindow = 60 * second"

definition toothbrushMaxSession :: duration where
  "toothbrushMaxSession = 10 * minute"

definition toothbrushWatchdog :: duration where
  "toothbrushWatchdog = 30 * second"

lemmas toothbrush_durations = toothbrushLiveWindow_def toothbrushMaxSession_def toothbrushWatchdog_def

record watchdog_timer =
  wt_deadline :: time
  wt_generation :: "64 word"
  wt_pending :: bool

record toothbrush =
  t_device :: device
  t_info :: accessory_info
  t_id :: nat
  t_motion :: "bool option"
  t_battery :: battery_service
  t_timer :: "watchdog_timer option"
  t_generation :: "64 word"
  t_active :: bool
  t_session_start :: int
  t_last_activity :: "time option"
  t_last_completed :: int
  t_last_score :: "int option"
  t_last_duration :: duration

definition NewToothbrush :: "device \<Rightarrow> toothbrush" where
  "NewToothbrush d = \<lparr>t_device = d, t_info = accessoryInfo d ModelToothbrushT700i ''Xiaomi'',
     t_id = accessoryID d, t_motion = None, t_battery = new_battery, t_timer = None,
     t_generation = 0, t_active = False, t_session_start = 0, t_last_activity = None,
     t_last_completed = 0, t_last_score = None, t_last_duration = 0\<rparr>"

definition durationAbs :: "int \<Rightarrow> duration" where
  "durationAbs s = seconds (if s < 0 then i64 (- s) else s)"

subsection \<open>The watchdog\<close>

definition armWatchdog :: "time \<Rightarrow> toothbrush \<Rightarrow> toothbrush" where
  "armWatchdog now t =
     (let generation = t_generation t + 1
      in t\<lparr>t_generation := generation,
           t_timer := Some \<lparr>wt_deadline = now + toothbrushWatchdog, wt_generation = generation,
                            wt_pending = True\<rparr>\<rparr>)"

definition stopWatchdog :: "toothbrush \<Rightarrow> toothbrush" where
  "stopWatchdog t = t\<lparr>t_generation := t_generation t + 1, t_timer := None\<rparr>"

definition expireWatchdog :: "time \<Rightarrow> 64 word \<Rightarrow> toothbrush \<Rightarrow> toothbrush" where
  "expireWatchdog now generation t =
     (case t_last_activity t of
        None \<Rightarrow> t
      | Some lastActivity \<Rightarrow>
          if generation \<noteq> t_generation t \<or> \<not> t_active t then t
          else
            let elapsed = time_sub now lastActivity
            in if elapsed < toothbrushWatchdog
               then t\<lparr>t_timer := Some \<lparr>wt_deadline = now + (toothbrushWatchdog - elapsed),
                        wt_generation = generation, wt_pending = True\<rparr>\<rparr>
               else t\<lparr>t_generation := t_generation t + 1, t_timer := None, t_active := False,
                      t_session_start := 0, t_last_activity := None, t_motion := Some False\<rparr>)"

definition toothbrush_Close :: "toothbrush \<Rightarrow> toothbrush" where
  "toothbrush_Close t = stopWatchdog t"

subsection \<open>Start and end advertisements\<close>

definition reference_time :: "time \<Rightarrow> update \<Rightarrow> int" where
  "reference_time now u = (if u_gateway_time u \<le> 0 then unix now else u_gateway_time u)"

definition raw_live :: "int \<Rightarrow> toothbrush_event \<Rightarrow> bool" where
  "raw_live reference event \<longleftrightarrow> tb_timestamp event > 0
     \<and> durationAbs (i64 (reference - tb_timestamp event)) \<le> toothbrushLiveWindow"

definition startEvent :: "time \<Rightarrow> int \<Rightarrow> toothbrush_event \<Rightarrow> toothbrush \<Rightarrow> toothbrush" where
  "startEvent now reference event t =
     (if \<not> raw_live reference event then t
      else
        let validCurrentStart = (t_active t \<and> t_session_start t > 0
              \<and> tb_timestamp event \<ge> t_session_start t
              \<and> seconds (i64 (tb_timestamp event - t_session_start t)) \<le> toothbrushMaxSession);
            t1 = (if validCurrentStart then t
                  else t\<lparr>t_session_start := (if tb_timestamp event \<le> 0 then reference
                                             else tb_timestamp event),
                         t_active := True\<rparr>)
        in armWatchdog now (t1\<lparr>t_last_activity := Some now, t_motion := Some True\<rparr>))"

definition forced_stop :: "int \<Rightarrow> toothbrush_event \<Rightarrow> toothbrush \<Rightarrow> bool" where
  "forced_stop reference event t \<longleftrightarrow> t_active t \<and> t_session_start t > 0
     \<and> \<not> raw_live reference event \<and> reference \<ge> t_session_start t
     \<and> seconds (i64 (reference - t_session_start t)) \<le> toothbrushMaxSession"

definition endSession :: "int \<Rightarrow> toothbrush \<Rightarrow> toothbrush" where
  "endSession effectiveTimestamp t =
     (let start = t_session_start t;
          t1 = (stopWatchdog t)\<lparr>t_motion := Some False, t_active := False, t_session_start := 0,
                 t_last_activity := None\<rparr>
      in if t_active t \<and> start > 0 \<and> effectiveTimestamp \<ge> start
            \<and> seconds (i64 (effectiveTimestamp - start)) \<le> toothbrushMaxSession
         then t1\<lparr>t_last_duration := seconds (i64 (effectiveTimestamp - start))\<rparr>
         else t1)"

definition recordCompletion :: "int \<Rightarrow> toothbrush_event \<Rightarrow> toothbrush \<Rightarrow> toothbrush" where
  "recordCompletion effectiveTimestamp event t =
     (if effectiveTimestamp > t_last_completed t
      then t\<lparr>t_last_completed := effectiveTimestamp,
             t_last_score := (case tb_score event of None \<Rightarrow> t_last_score t | Some s \<Rightarrow> Some s)\<rparr>
      else t)"

definition endEvent :: "int \<Rightarrow> toothbrush_event \<Rightarrow> toothbrush \<Rightarrow> toothbrush" where
  "endEvent reference event t =
     (let forcedStop = forced_stop reference event t;
          effectiveTimestamp = (if forcedStop then reference else tb_timestamp event);
          live = (raw_live reference event \<or> forcedStop);
          t1 = (if live then endSession effectiveTimestamp t else t)
      in recordCompletion effectiveTimestamp event t1)"

definition toothbrush_Apply :: "time \<Rightarrow> update \<Rightarrow> toothbrush \<Rightarrow> toothbrush" where
  "toothbrush_Apply now u t =
     (let t1 = t\<lparr>t_battery := apply_battery_of u (t_battery t)\<rparr>
      in case u_toothbrush u of
           None \<Rightarrow> t1
         | Some event \<Rightarrow>
             let reference = reference_time now u
             in if tb_type event = 0 then startEvent now reference event t1
                else endEvent reference event t1)"

definition logLabel :: "toothbrush \<Rightarrow> go_string" where
  "logLabel t = (if d_name (t_device t) \<noteq> [] then d_name (t_device t)
     else if d_mac (t_device t) \<noteq> [] then d_mac (t_device t) else d_did (t_device t))"

definition scoreText :: "int option \<Rightarrow> go_string" where
  "scoreText score = (case score of None \<Rightarrow> ''-'' | Some n \<Rightarrow> itoa n)"

lemmas brush_defs = startEvent_def endEvent_def endSession_def recordCompletion_def
  armWatchdog_def stopWatchdog_def Let_def

subsection \<open>Durations in range\<close>

lemma durationAbs_small [wrap_simps]:
  "- 9223372036 \<le> n \<Longrightarrow> n \<le> 9223372036 \<Longrightarrow> durationAbs n = \<bar>n\<bar> * second"
  by (simp add: durationAbs_def wrap_simps abs_if)

text \<open>Gateway times and session starts as they occur: seconds since 1970, up to the year 2262.\<close>

definition sane_time :: "int \<Rightarrow> bool" where
  "sane_time s \<longleftrightarrow> 0 < s \<and> s \<le> 9223372036"

lemma raw_live_iff:
  assumes "sane_time reference" and "valid_event event"
  shows "raw_live reference event \<longleftrightarrow> 0 < tb_timestamp event \<and> \<bar>reference - tb_timestamp event\<bar> \<le> 60"
proof -
  have "- 9223372036 \<le> reference - tb_timestamp event" "reference - tb_timestamp event \<le> 9223372036"
    using assms by (auto simp: sane_time_def valid_event_def)
  then show ?thesis
    by (auto simp: raw_live_def wrap_simps toothbrush_durations)
qed

lemma session_length_iff:
  assumes "0 \<le> m" and "m \<le> n" and "n \<le> 9223372036"
  shows "seconds (i64 (n - m)) = (n - m) * second"
    and "seconds (i64 (n - m)) \<le> toothbrushMaxSession \<longleftrightarrow> n - m \<le> 600"
  using assms by (auto simp: wrap_simps toothbrush_durations)

subsection \<open>Abstract specification\<close>

text \<open>
  A session is idle or runs since some second.  A start advertisement that is live begins a
  session, or keeps the current one if it is at most ten minutes older; an end advertisement
  stops the session if it is live, or if the gateway's own time lies within ten minutes of the
  session's start; everything else leaves the session alone.
\<close>

datatype session = Idle | Brushing int

fun spec_event :: "int \<Rightarrow> toothbrush_event \<Rightarrow> session \<Rightarrow> session" where
  "spec_event reference event Idle =
     (if tb_type event = 0 \<and> 0 < tb_timestamp event \<and> \<bar>reference - tb_timestamp event\<bar> \<le> 60
      then Brushing (tb_timestamp event) else Idle)"
| "spec_event reference event (Brushing start) =
     (let live = (0 < tb_timestamp event \<and> \<bar>reference - tb_timestamp event\<bar> \<le> 60)
      in if tb_type event = 0 then
           (if \<not> live \<or> (start \<le> tb_timestamp event \<and> tb_timestamp event - start \<le> 600)
            then Brushing start else Brushing (tb_timestamp event))
         else if live \<or> (start \<le> reference \<and> reference - start \<le> 600) then Idle
         else Brushing start)"

definition session_of :: "toothbrush \<Rightarrow> session" where
  "session_of t = (if t_active t then Brushing (t_session_start t) else Idle)"

definition start_ok :: "toothbrush \<Rightarrow> bool" where
  "start_ok t \<longleftrightarrow> (t_active t \<longrightarrow> 0 < t_session_start t \<and> t_session_start t < 2 ^ 32)"

lemma stopWatchdog_fields [simp]:
  "t_active (stopWatchdog t) = t_active t" "t_session_start (stopWatchdog t) = t_session_start t"
  by (simp_all add: stopWatchdog_def)

lemma startEvent_session:
  assumes "sane_time reference" and "valid_event event" and "start_ok t" and "tb_type event = 0"
  shows "session_of (startEvent now reference event t) = spec_event reference event (session_of t)"
proof (cases "raw_live reference event")
  case False
  with assms show ?thesis
    by (cases "t_active t") (auto simp: startEvent_def session_of_def raw_live_iff Let_def)
next
  case True
  then have ts: "0 < tb_timestamp event" "\<bar>reference - tb_timestamp event\<bar> \<le> 60"
    using assms(1,2) by (simp_all add: raw_live_iff)
  have "tb_timestamp event \<le> 9223372036"
    using assms(2) by (simp add: valid_event_def)
  then show ?thesis
    using assms ts True session_length_iff(2) [of "t_session_start t" "tb_timestamp event"]
    by (cases "t_active t") (auto simp: startEvent_def session_of_def armWatchdog_def start_ok_def Let_def)
qed

lemma session_of_recordCompletion [simp]: "session_of (recordCompletion eff event t) = session_of t"
  by (simp add: recordCompletion_def session_of_def)

lemma session_of_endSession [simp]: "session_of (endSession eff t) = Idle"
  by (simp add: endSession_def session_of_def Let_def)

lemma endEvent_session:
  assumes "sane_time reference" and "valid_event event" and "start_ok t" and "tb_type event \<noteq> 0"
  shows "session_of (endEvent reference event t) = spec_event reference event (session_of t)"
proof (cases "t_active t")
  case False
  then show ?thesis
    using assms(4) by (auto simp: endEvent_def session_of_def [of t] Let_def)
next
  case True
  with assms(3) have "0 < t_session_start t"
    by (simp add: start_ok_def)
  then show ?thesis
    using True assms raw_live_iff [OF assms(1,2)]
      session_length_iff(2) [of "t_session_start t" reference]
    by (auto simp: endEvent_def forced_stop_def session_of_def [of t] sane_time_def Let_def)
qed

lemma Apply_start_ok:
  assumes "start_ok t" and "valid_update u"
  shows "start_ok (toothbrush_Apply now u t)"
  using assms
  by (auto simp: toothbrush_Apply_def start_ok_def brush_defs raw_live_def valid_update_def
      valid_event_def split: option.splits)

end
