(* ===== verification/Transition_Systems.thy ===== *)
theory Transition_Systems
  imports Main
begin

section \<open>Step relations\<close>

text \<open>
  What is shown of the state machines once and for all: a property that every step keeps holds along
  every run, and a run of a machine that simulates another is a run of the other.  The locales
  are interpreted for the toothbrush with its timer and for the whole bridge.
\<close>

locale preserved =
  fixes step :: "'s \<Rightarrow> 's \<Rightarrow> bool" and inv :: "'s \<Rightarrow> bool"
  assumes step_inv: "step s s' \<Longrightarrow> inv s \<Longrightarrow> inv s'"
begin

lemma run_inv: "step\<^sup>*\<^sup>* s s' \<Longrightarrow> inv s \<Longrightarrow> inv s'"
  by (induction rule: rtranclp_induct) (auto intro: step_inv)

end

locale simulation =
  fixes cstep :: "'c \<Rightarrow> 'c \<Rightarrow> bool" and astep :: "'a \<Rightarrow> 'a \<Rightarrow> bool" and rel :: "'a \<Rightarrow> 'c \<Rightarrow> bool"
  assumes step_sim: "cstep c c' \<Longrightarrow> rel a c \<Longrightarrow> \<exists>a'. astep\<^sup>*\<^sup>* a a' \<and> rel a' c'"
begin

lemma run_sim: "cstep\<^sup>*\<^sup>* c c' \<Longrightarrow> rel a c \<Longrightarrow> \<exists>a'. astep\<^sup>*\<^sup>* a a' \<and> rel a' c'"
proof (induction rule: rtranclp_induct)
  case (step c' c'')
  then obtain a' where "astep\<^sup>*\<^sup>* a a'" and "rel a' c'"
    by blast
  with step_sim [OF step(2)] show ?case
    by (blast intro: rtranclp_trans)
qed blast

end

text \<open>An invariant of the machine that is simulated holds of whatever the run of the other stands for.\<close>

locale simulated_invariant = simulation cstep astep rel + abstract: preserved astep inv
  for cstep :: "'c \<Rightarrow> 'c \<Rightarrow> bool" and astep :: "'a \<Rightarrow> 'a \<Rightarrow> bool" and rel :: "'a \<Rightarrow> 'c \<Rightarrow> bool" and inv :: "'a \<Rightarrow> bool"
begin

lemma run_sim_inv: "cstep\<^sup>*\<^sup>* c c' \<Longrightarrow> rel a c \<Longrightarrow> inv a \<Longrightarrow> \<exists>a'. rel a' c' \<and> inv a'"
  using run_sim abstract.run_inv by blast

end

end
