(* ===== verification/Toothbrush_Watchdog.thy ===== *)
theory Toothbrush_Watchdog
  imports Toothbrush Transition_Systems
begin

section \<open>The watchdog as a state machine\<close>

text \<open>
  The toothbrush together with its environment: the clock, the callbacks that the runtime has
  started and that wait for the mutex, and whether \<^verbatim>\<open>Close\<close> has run.  The steps are the
  program's operations at the current clock reading, the firing of the pending timer once its
  deadline has passed, and the passing of time.  They interleave in any order, so a callback
  of a stopped timer may still run later.
\<close>

record brush_sys =
  bsys_brush :: toothbrush
  bsys_callbacks :: "64 word list"
  bsys_clock :: time
  bsys_closed :: bool

definition init_sys :: "device \<Rightarrow> time \<Rightarrow> brush_sys" where
  "init_sys d now = \<lparr>bsys_brush = NewToothbrush d, bsys_callbacks = [], bsys_clock = now,
     bsys_closed = False\<rparr>"

text \<open>The timer's own steps: it fires, and a waiting callback gets the mutex.\<close>

inductive timer_step :: "brush_sys \<Rightarrow> brush_sys \<Rightarrow> bool" where
  fire: "t_timer (bsys_brush s) = Some tm \<Longrightarrow> wt_pending tm \<Longrightarrow> wt_deadline tm \<le> bsys_clock s \<Longrightarrow>
     timer_step s (s\<lparr>bsys_brush := (bsys_brush s)\<lparr>t_timer := Some (tm\<lparr>wt_pending := False\<rparr>)\<rparr>,
                     bsys_callbacks := wt_generation tm # bsys_callbacks s\<rparr>)"
| callback: "bsys_callbacks s = xs @ g # ys \<Longrightarrow>
     timer_step s (s\<lparr>bsys_brush := expireWatchdog (bsys_clock s) g (bsys_brush s),
                     bsys_callbacks := xs @ ys\<rparr>)"

inductive brush_step :: "brush_sys \<Rightarrow> brush_sys \<Rightarrow> bool" where
  apply_update: "valid_update u \<Longrightarrow>
     brush_step s (s\<lparr>bsys_brush := toothbrush_Apply (bsys_clock s) u (bsys_brush s)\<rparr>)"
| timer: "timer_step s s' \<Longrightarrow> brush_step s s'"
| elapse: "0 \<le> d \<Longrightarrow> brush_step s (s\<lparr>bsys_clock := bsys_clock s + d\<rparr>)"
| close: "brush_step s (s\<lparr>bsys_brush := toothbrush_Close (bsys_brush s), bsys_closed := True\<rparr>)"

definition brush_reachable :: "device \<Rightarrow> time \<Rightarrow> brush_sys \<Rightarrow> bool" where
  "brush_reachable d t0 s \<longleftrightarrow> brush_step\<^sup>*\<^sup>* (init_sys d t0) s"

inductive_cases timer_stepE: "timer_step s s'"
inductive_cases brush_stepE: "brush_step s s'"
inductive_simps brush_step_simps: "brush_step s s'"

lemma brush_reachable_init: "brush_reachable d t0 (init_sys d t0)"
  by (simp add: brush_reachable_def)

lemma brush_reachable_step: "brush_reachable d t0 s \<Longrightarrow> brush_step s s' \<Longrightarrow> brush_reachable d t0 s'"
  by (simp add: brush_reachable_def)

lemma brush_reachable_run: "brush_reachable d t0 s \<Longrightarrow> brush_step\<^sup>*\<^sup>* s s' \<Longrightarrow> brush_reachable d t0 s'"
  by (simp add: brush_reachable_def)

subsection \<open>Invariants\<close>

text \<open>HomeKit shows motion exactly while a session is active, and a session has a start.\<close>

definition motion_inv :: "toothbrush \<Rightarrow> bool" where
  "motion_inv t \<longleftrightarrow> (t_motion t = Some True \<longleftrightarrow> t_active t) \<and> start_ok t
     \<and> (\<not> t_active t \<longrightarrow> t_session_start t = 0 \<and> t_last_activity t = None)
     \<and> battery_consistent (t_battery t) \<and> valid_int 0 100 (bs_level (t_battery t))
     \<and> t_last_duration t \<le> toothbrushMaxSession"

text \<open>
  While a session is active, the watchdog for its last activity is armed: its timer is pending
  with the deadline thirty seconds after that activity, or its callback is waiting.
\<close>

definition guarded :: "toothbrush \<Rightarrow> 64 word list \<Rightarrow> time \<Rightarrow> bool" where
  "guarded t callbacks now \<longleftrightarrow>
     (case t_last_activity t of
        None \<Rightarrow> False
      | Some la \<Rightarrow> la \<le> now
          \<and> (t_generation t \<in> set callbacks
             \<or> t_timer t = Some \<lparr>wt_deadline = la + toothbrushWatchdog,
                                 wt_generation = t_generation t, wt_pending = True\<rparr>))"

definition watch_inv :: "brush_sys \<Rightarrow> bool" where
  "watch_inv s \<longleftrightarrow> (\<not> bsys_closed s \<longrightarrow> t_active (bsys_brush s) \<longrightarrow>
     guarded (bsys_brush s) (bsys_callbacks s) (bsys_clock s))"

lemma motion_inv_new: "motion_inv (NewToothbrush d)"
  by (simp add: motion_inv_def NewToothbrush_def start_ok_def new_battery_def
      battery_consistent_def toothbrush_durations)

lemma motion_inv_battery:
  "motion_inv t \<Longrightarrow> valid_update u \<Longrightarrow> motion_inv (t\<lparr>t_battery := apply_battery_of u (t_battery t)\<rparr>)"
  by (simp add: motion_inv_def start_ok_def apply_battery_level)

lemma startEvent_motion:
  assumes "motion_inv t" and "valid_event event"
  shows "motion_inv (startEvent now reference event t)"
  using assms
  by (auto simp: motion_inv_def start_ok_def startEvent_def armWatchdog_def raw_live_def
      valid_event_def Let_def)

lemma recordCompletion_motion: "motion_inv t \<Longrightarrow> motion_inv (recordCompletion eff event t)"
  by (simp add: recordCompletion_def motion_inv_def start_ok_def)

lemma endSession_motion: "motion_inv t \<Longrightarrow> motion_inv (endSession eff t)"
  by (auto simp: motion_inv_def start_ok_def endSession_def stopWatchdog_def Let_def)

lemma endEvent_motion: "motion_inv t \<Longrightarrow> motion_inv (endEvent reference event t)"
  by (simp add: endEvent_def Let_def recordCompletion_motion endSession_motion)

lemma Apply_motion:
  assumes "motion_inv t" and "valid_update u"
  shows "motion_inv (toothbrush_Apply now u t)"
proof -
  have "motion_inv (t\<lparr>t_battery := apply_battery_of u (t_battery t)\<rparr>)"
    using assms by (rule motion_inv_battery)
  then show ?thesis
    using assms(2)
    by (auto simp: toothbrush_Apply_def Let_def valid_update_def
        intro: startEvent_motion endEvent_motion split: option.split)
qed

lemma expireWatchdog_motion: "motion_inv t \<Longrightarrow> motion_inv (expireWatchdog now g t)"
  by (auto simp: expireWatchdog_def motion_inv_def start_ok_def Let_def split: option.splits)

lemma Close_motion: "motion_inv t \<Longrightarrow> motion_inv (toothbrush_Close t)"
  by (simp add: toothbrush_Close_def stopWatchdog_def motion_inv_def start_ok_def)

lemma fire_motion: "motion_inv t \<Longrightarrow> motion_inv (t\<lparr>t_timer := tm\<rparr>)"
  by (simp add: motion_inv_def start_ok_def)

lemmas motion_intros = Apply_motion expireWatchdog_motion Close_motion fire_motion

lemma brush_step_motion:
  "brush_step s s' \<Longrightarrow> motion_inv (bsys_brush s) \<Longrightarrow> motion_inv (bsys_brush s')"
  by (auto elim!: brush_stepE timer_stepE intro: motion_intros)

interpretation motion: preserved brush_step "\<lambda>s. motion_inv (bsys_brush s)"
  by unfold_locales (rule brush_step_motion)

lemma reachable_motion: "brush_reachable d t0 s \<Longrightarrow> motion_inv (bsys_brush s)"
  using motion.run_inv [of "init_sys d t0" s] by (simp add: brush_reachable_def init_sys_def motion_inv_new)

subsection \<open>The watchdog stays armed\<close>

lemma startEvent_guarded:
  assumes "t_active t \<longrightarrow> guarded t cbs now" and "t_active (startEvent now reference event t)"
  shows "guarded (startEvent now reference event t) cbs now"
  using assms by (auto simp: startEvent_def armWatchdog_def guarded_def Let_def split: if_splits)

lemma recordCompletion_watch [simp]:
  "t_active (recordCompletion eff event t) = t_active t"
  "guarded (recordCompletion eff event t) cbs now = guarded t cbs now"
  by (simp_all add: recordCompletion_def guarded_def split: option.split)

lemma endSession_inactive [simp]: "\<not> t_active (endSession eff t)"
  by (simp add: endSession_def Let_def)

lemma endEvent_guarded:
  assumes "t_active t \<longrightarrow> guarded t cbs now" and "t_active (endEvent reference event t)"
  shows "guarded (endEvent reference event t) cbs now"
  using assms by (simp add: endEvent_def Let_def split: if_splits)

lemma battery_guarded [simp]: "guarded (t\<lparr>t_battery := b\<rparr>) cbs now = guarded t cbs now"
  by (simp add: guarded_def split: option.split)

lemma Apply_guarded:
  assumes "t_active t \<longrightarrow> guarded t cbs now" and "t_active (toothbrush_Apply now u t)"
  shows "guarded (toothbrush_Apply now u t) cbs now"
  using assms startEvent_guarded endEvent_guarded
  by (auto simp: toothbrush_Apply_def Let_def split: option.splits if_splits)

lemma guarded_fire:
  "guarded t cbs now \<Longrightarrow> t_timer t = Some tm \<Longrightarrow>
     guarded (t\<lparr>t_timer := Some (tm\<lparr>wt_pending := False\<rparr>)\<rparr>) (wt_generation tm # cbs) now"
  by (auto simp: guarded_def split: option.splits)

lemma guarded_mono: "guarded t cbs now \<Longrightarrow> now \<le> now' \<Longrightarrow> guarded t cbs now'"
  by (auto simp: guarded_def split: option.splits)

text \<open>
  A callback that leaves the session active was stale, or came early and armed a new timer for
  the rest of the thirty seconds.
\<close>

lemma expireWatchdog_guarded:
  assumes "guarded t (xs @ g # ys) now" and "t_active (expireWatchdog now g t)"
  shows "guarded (expireWatchdog now g t) (xs @ ys) now"
proof -
  obtain la where la: "t_last_activity t = Some la" "la \<le> now"
    using assms(1) by (auto simp: guarded_def split: option.splits)
  show ?thesis
  proof (cases "g = t_generation t \<and> t_active t")
    case False
    with assms la show ?thesis
      by (auto simp: expireWatchdog_def guarded_def split: if_splits)
  next
    case True
    then have early: "time_sub now la < toothbrushWatchdog"
      using assms(2) la by (auto simp: expireWatchdog_def Let_def split: if_splits)
    then have "time_sub now la = now - la"
      using la(2) by (auto simp: time_sub_def toothbrush_durations)
    with early True la show ?thesis
      by (simp add: expireWatchdog_def guarded_def Let_def)
  qed
qed

lemma timer_step_watch: "timer_step s s' \<Longrightarrow> watch_inv s \<Longrightarrow> watch_inv s'"
proof (induction rule: timer_step.induct)
  case (fire s tm)
  then show ?case
    by (auto simp: watch_inv_def intro: guarded_fire)
next
  case (callback s xs g ys)
  have "t_active (expireWatchdog now g t) \<Longrightarrow> t_active t" for now t
    by (auto simp: expireWatchdog_def Let_def split: option.splits if_splits)
  with callback show ?case
    by (auto simp: watch_inv_def intro: expireWatchdog_guarded)
qed

lemma brush_step_watch: "brush_step s s' \<Longrightarrow> watch_inv s \<Longrightarrow> watch_inv s'"
proof (induction rule: brush_step.induct)
  case (apply_update u s)
  then show ?case
    by (auto simp: watch_inv_def intro: Apply_guarded)
next
  case (timer s s')
  then show ?case
    by (rule timer_step_watch)
next
  case (elapse d s)
  then show ?case
    by (auto simp: watch_inv_def intro: guarded_mono)
next
  case (close s)
  then show ?case
    by (simp add: watch_inv_def)
qed

interpretation watch: preserved brush_step watch_inv
  by unfold_locales (rule brush_step_watch)

lemma reachable_watch: "brush_reachable d t0 s \<Longrightarrow> watch_inv s"
  using watch.run_inv [of "init_sys d t0" s]
  by (simp add: brush_reachable_def init_sys_def watch_inv_def NewToothbrush_def)

subsection \<open>What the watchdog does\<close>

text \<open>Once thirty seconds have passed since the last activity, the current callback ends the session.\<close>

lemma expireWatchdog_ends:
  assumes "t_active t" and "t_last_activity t = Some la" and "toothbrushWatchdog \<le> now - la"
  shows "expireWatchdog now (t_generation t) t = t\<lparr>t_generation := t_generation t + 1, t_timer := None,
     t_active := False, t_session_start := 0, t_last_activity := None, t_motion := Some False\<rparr>"
proof -
  have "toothbrushWatchdog \<le> time_sub now la"
    using assms(3) by (simp add: time_sub_ge toothbrush_durations)
  with assms(1,2) show ?thesis
    by (simp add: expireWatchdog_def Let_def)
qed

lemma guarded_can_end:
  assumes g: "guarded (bsys_brush s) (bsys_callbacks s) (bsys_clock s)"
    and act: "t_active (bsys_brush s)"
    and la: "t_last_activity (bsys_brush s) = Some la"
    and late: "la + toothbrushWatchdog \<le> bsys_clock s"
  shows "\<exists>s'. timer_step\<^sup>*\<^sup>* s s' \<and> \<not> t_active (bsys_brush s')
    \<and> t_motion (bsys_brush s') = Some False \<and> bsys_clock s' = bsys_clock s"
proof -
  have ends: "\<exists>s'. timer_step u s' \<and> \<not> t_active (bsys_brush s')
      \<and> t_motion (bsys_brush s') = Some False \<and> bsys_clock s' = bsys_clock s"
    if u: "t_active (bsys_brush u)" "t_last_activity (bsys_brush u) = Some la"
        "bsys_clock u = bsys_clock s" "t_generation (bsys_brush u) \<in> set (bsys_callbacks u)" for u
  proof -
    obtain xs ys where "bsys_callbacks u = xs @ t_generation (bsys_brush u) # ys"
      using u(4) by (meson split_list)
    from timer_step.callback [OF this] expireWatchdog_ends [OF u(1,2), of "bsys_clock u"] late u(3)
    show ?thesis
      by (intro exI conjI) (assumption, simp_all)
  qed
  show ?thesis
  proof (cases "t_generation (bsys_brush s) \<in> set (bsys_callbacks s)")
    case True
    from ends [OF act la refl True] show ?thesis
      by blast
  next
    case False
    then have tm: "t_timer (bsys_brush s) = Some \<lparr>wt_deadline = la + toothbrushWatchdog,
        wt_generation = t_generation (bsys_brush s), wt_pending = True\<rparr>"
      using g la by (simp add: guarded_def)
    let ?u = "s\<lparr>bsys_brush := (bsys_brush s)\<lparr>t_timer := Some (\<lparr>wt_deadline = la + toothbrushWatchdog,
        wt_generation = t_generation (bsys_brush s), wt_pending = True\<rparr>\<lparr>wt_pending := False\<rparr>)\<rparr>,
        bsys_callbacks := t_generation (bsys_brush s) # bsys_callbacks s\<rparr>"
    have "timer_step s ?u"
      using timer_step.fire [OF tm] late by simp
    moreover obtain s' where "timer_step ?u s'" and "\<not> t_active (bsys_brush s')"
      and "t_motion (bsys_brush s') = Some False" and "bsys_clock s' = bsys_clock s"
      using ends [of ?u] act la by auto
    ultimately show ?thesis
      by (meson converse_rtranclp_into_rtranclp r_into_rtranclp)
  qed
qed

text \<open>The watchdog never ends a session early, and a stale callback changes nothing.\<close>

lemma expireWatchdog_not_early:
  assumes "t_active t" and "\<not> t_active (expireWatchdog now g t)"
  shows "\<exists>la. t_last_activity t = Some la \<and> toothbrushWatchdog \<le> now - la \<and> g = t_generation t"
  using assms
  by (auto simp: expireWatchdog_def Let_def time_sub_def toothbrush_durations
      split: option.splits if_splits)

lemma expireWatchdog_stale: "g \<noteq> t_generation t \<Longrightarrow> expireWatchdog now g t = t"
  by (simp add: expireWatchdog_def split: option.split)

end
