(* ===== verification/Accessory.thy ===== *)
theory Accessory
  imports Toothbrush_Watchdog
begin

section \<open>The accessory interface and its factories\<close>

text \<open>
  \<^verbatim>\<open>internal/bridge/device.go\<close>: the interface \<^verbatim>\<open>DeviceAccessory\<close> through which the runtime
  drives every product, its two implementations, and the factory that picks one for a
  configured device.  The interface's contract is the locale \<open>device_accessory\<close>; what the
  runtime relies on is proved from it and interpreted for the sensor, the toothbrush and the
  sum of both.
\<close>

datatype accessory = SensorAccessory sensor | ToothbrushAccessory toothbrush

datatype accessory_error =
    UnsupportedDevice int go_string
  | NoAccessoryForKind go_string

definition accessoryFactories :: "(go_string \<times> (device \<Rightarrow> accessory)) list" where
  "accessoryFactories =
     [(ProductKindClimate, \<lambda>d. SensorAccessory (NewSensor d)),
      (ProductKindToothbrush, \<lambda>d. ToothbrushAccessory (NewToothbrush d))]"

definition NewDeviceAccessory :: "device \<Rightarrow> accessory_error + accessory" where
  "NewDeviceAccessory d =
     (case productForDevice d of
        None \<Rightarrow> Inl (UnsupportedDevice (d_product_id d) (d_model d))
      | Some product \<Rightarrow>
          (case map_of accessoryFactories (p_kind product) of
             None \<Rightarrow> Inl (NoAccessoryForKind (p_kind product))
           | Some factory \<Rightarrow> Inr (factory d)))"

fun DeviceConfig :: "accessory \<Rightarrow> device" where
  "DeviceConfig (SensorAccessory s) = s_device s"
| "DeviceConfig (ToothbrushAccessory t) = t_device t"

fun accessory_aid :: "accessory \<Rightarrow> nat" where
  "accessory_aid (SensorAccessory s) = s_id s"
| "accessory_aid (ToothbrushAccessory t) = t_id t"

fun accessory_Apply :: "time \<Rightarrow> update \<Rightarrow> accessory \<Rightarrow> accessory" where
  "accessory_Apply now u (SensorAccessory s) = SensorAccessory (sensor_Apply u s)"
| "accessory_Apply now u (ToothbrushAccessory t) = ToothbrushAccessory (toothbrush_Apply now u t)"

fun accessory_Close :: "accessory \<Rightarrow> accessory" where
  "accessory_Close (SensorAccessory s) = SensorAccessory (sensor_Close s)"
| "accessory_Close (ToothbrushAccessory t) = ToothbrushAccessory (toothbrush_Close t)"

fun accessory_battery :: "accessory \<Rightarrow> battery_service" where
  "accessory_battery (SensorAccessory s) = s_battery s"
| "accessory_battery (ToothbrushAccessory t) = t_battery t"

fun accessory_ok :: "accessory \<Rightarrow> bool" where
  "accessory_ok (SensorAccessory s) = valid_sensor s"
| "accessory_ok (ToothbrushAccessory t) = motion_inv t"

subsection \<open>The contract\<close>

locale device_accessory =
  fixes conf :: "'a \<Rightarrow> device"
    and app :: "time \<Rightarrow> update \<Rightarrow> 'a \<Rightarrow> 'a"
    and cls :: "'a \<Rightarrow> 'a"
    and bat :: "'a \<Rightarrow> battery_service"
    and ok :: "'a \<Rightarrow> bool"
  assumes conf_app: "conf (app now u a) = conf a"
    and conf_cls: "conf (cls a) = conf a"
    and bat_app: "bat (app now u a) = apply_battery_of u (bat a)"
    and bat_cls: "bat (cls a) = bat a"
    and ok_app: "ok a \<Longrightarrow> valid_update u \<Longrightarrow> ok (app now u a)"
    and ok_cls: "ok a \<Longrightarrow> ok (cls a)"
    and ok_bat: "ok a \<Longrightarrow> battery_consistent (bat a)"
begin

lemma conf_run: "conf (foldl (\<lambda>a (now, u). app now u a) a us) = conf a"
  by (induction us arbitrary: a) (auto simp: conf_app)

lemma ok_run:
  "ok a \<Longrightarrow> \<forall>(now, u) \<in> set us. valid_update u \<Longrightarrow> ok (foldl (\<lambda>a (now, u). app now u a) a us)"
  by (induction us arbitrary: a) (auto simp: ok_app)

lemma level_run:
  "bs_level (bat (foldl (\<lambda>a (now, u). app now u a) a us)) =
     last_value (\<lambda>(now, u). u_battery u) (bs_level (bat a)) us"
  by (induction us arbitrary: a)
     (auto simp: bat_app apply_battery_of_def applyBattery_def split: option.splits
       intro!: arg_cong [where f = "\<lambda>old. last_value _ old _"])

end

lemma sensor_laws:
  "s_device (sensor_Apply u s) = s_device s" "sensor_Close s = s"
  "s_battery (sensor_Apply u s) = apply_battery_of u (s_battery s)"
  "valid_sensor s \<Longrightarrow> battery_consistent (s_battery s)"
  by (simp_all add: sensor_Apply_def sensor_Close_def valid_sensor_def)

lemma toothbrush_laws:
  "t_device (toothbrush_Apply now u t) = t_device t"
  "t_device (toothbrush_Close t) = t_device t"
  "t_battery (toothbrush_Apply now u t) = apply_battery_of u (t_battery t)"
  "t_battery (toothbrush_Close t) = t_battery t"
  "motion_inv t \<Longrightarrow> battery_consistent (t_battery t)"
  by (simp_all add: toothbrush_Apply_def toothbrush_Close_def brush_defs motion_inv_def split: option.split)

interpretation sensor_acc: device_accessory s_device "\<lambda>now. sensor_Apply" sensor_Close s_battery valid_sensor
  by unfold_locales (simp_all add: sensor_laws sensor_Apply_valid)

interpretation toothbrush_acc: device_accessory t_device toothbrush_Apply toothbrush_Close t_battery motion_inv
  by unfold_locales (simp_all add: toothbrush_laws Apply_motion Close_motion)

lemma accessory_laws:
  "DeviceConfig (accessory_Apply now u a) = DeviceConfig a"
  "DeviceConfig (accessory_Close a) = DeviceConfig a"
  "accessory_battery (accessory_Apply now u a) = apply_battery_of u (accessory_battery a)"
  "accessory_battery (accessory_Close a) = accessory_battery a"
  "accessory_ok a \<Longrightarrow> valid_update u \<Longrightarrow> accessory_ok (accessory_Apply now u a)"
  "accessory_ok a \<Longrightarrow> accessory_ok (accessory_Close a)"
  "accessory_ok a \<Longrightarrow> battery_consistent (accessory_battery a)"
  by (cases a; simp add: sensor_laws toothbrush_laws sensor_acc.ok_app toothbrush_acc.ok_app
      toothbrush_acc.ok_cls)+

interpretation acc: device_accessory DeviceConfig accessory_Apply accessory_Close accessory_battery accessory_ok
  by unfold_locales (simp_all add: accessory_laws)

subsection \<open>The factory\<close>

lemma productForDevice_known:
  "productForDevice d = Some p \<Longrightarrow> p = product_sensor \<or> p = product_toothbrush"
  by (auto simp: productForDevice_def LookupProduct_eq LookupProductByModel_eq
      split: option.splits if_splits)

lemma kinds [simp]: "ProductKindToothbrush \<noteq> ProductKindClimate" "ProductKindClimate \<noteq> ProductKindToothbrush"
  by (simp_all add: ProductKindToothbrush_def ProductKindClimate_def)

lemma factory_of_product [simp]:
  "map_of accessoryFactories ProductKindClimate = Some (\<lambda>d. SensorAccessory (NewSensor d))"
  "map_of accessoryFactories ProductKindToothbrush = Some (\<lambda>d. ToothbrushAccessory (NewToothbrush d))"
  by (simp_all add: accessoryFactories_def)

lemma NewDeviceAccessory_eq:
  "NewDeviceAccessory d =
     (if productForDevice d = None then Inl (UnsupportedDevice (d_product_id d) (d_model d))
      else if productForDevice d = Some product_toothbrush then Inr (ToothbrushAccessory (NewToothbrush d))
      else Inr (SensorAccessory (NewSensor d)))"
proof -
  have "product_sensor \<noteq> product_toothbrush"
    by (metis kinds(1) product_fields(2) product_fields(6))
  then show ?thesis
    using productForDevice_known [of d]
    by (auto simp: NewDeviceAccessory_def split: option.splits)
qed

lemma NewDeviceAccessory_ok:
  "NewDeviceAccessory d = Inr a \<Longrightarrow> accessory_ok a \<and> DeviceConfig a = d \<and> accessory_aid a = accessoryID d"
  by (auto simp: NewDeviceAccessory_eq NewSensor_valid motion_inv_new split: if_splits)
     (simp_all add: NewSensor_def NewToothbrush_def)

end
