(* ===== verification/Measurements.thy ===== *)
theory Measurements
  imports Parser Config
begin

section \<open>The measurement cache\<close>

text \<open>
  \<^verbatim>\<open>internal/measurements/state.go\<close>: the last temperature, humidity and battery level per
  device, keyed by normalised MAC address or by \<^verbatim>\<open>did:\<close> and the device id.  \<open>Merge\<close> reports
  whether anything changed (only then is the file written), and moves a reading kept under the
  device id to the MAC address once that is known.

  \<open>load_devices\<close> is the loop of \<^verbatim>\<open>Load\<close> over the decoded map, for any enumeration of it.
  The receiver \<^verbatim>\<open>s == nil\<close> is not modelled: the program never holds a nil state.
\<close>

record reading =
  r_temperature :: "f64 option"
  r_humidity :: "f64 option"
  r_battery :: "int option"
  r_updated_at :: int

type_synonym measurement_state = "go_string \<rightharpoonup> reading"

definition zero_reading :: reading where
  "zero_reading = \<lparr>r_temperature = None, r_humidity = None, r_battery = None, r_updated_at = 0\<rparr>"

definition identity :: "go_string \<Rightarrow> go_string \<Rightarrow> go_string" where
  "identity mac did =
     (let m = config_NormalizeMAC mac; d = trim_space did
      in if m \<noteq> [] then m else if d \<noteq> [] then ''did:'' @ d else [])"

definition normalizeKey :: "go_string \<Rightarrow> go_string" where
  "normalizeKey key =
     (if has_prefix key ''did:'' then ''did:'' @ trim_space (trim_prefix key ''did:'')
      else config_NormalizeMAC key)"

definition sameFloat :: "f64 option \<Rightarrow> f64 \<Rightarrow> bool" where
  "sameFloat current v = (case current of None \<Rightarrow> False | Some c \<Rightarrow> f64_eq c v)"

definition cloneReading :: "reading \<Rightarrow> reading" where
  "cloneReading r = r\<lparr>r_temperature := r_temperature r, r_humidity := r_humidity r,
     r_battery := r_battery r\<rparr>"

definition load_devices :: "(go_string \<times> reading) list \<Rightarrow> measurement_state" where
  "load_devices entries =
     foldl (\<lambda>s (key, r). s(normalizeKey key \<mapsto> cloneReading r)) Map.empty entries"

subsection \<open>Merge\<close>

text \<open>The prior reading, the state after a migration, and whether one took place.\<close>

definition migrate :: "update \<Rightarrow> go_string \<Rightarrow> measurement_state \<Rightarrow> reading \<times> measurement_state \<times> bool" where
  "migrate u key s =
     (case s key of
        Some r \<Rightarrow> (r, s, False)
      | None \<Rightarrow>
          if u_did u = [] then (zero_reading, s, False)
          else
            let didKey = ''did:'' @ trim_space (u_did u)
            in case s didKey of
                 None \<Rightarrow> (zero_reading, s, False)
               | Some prior \<Rightarrow> (prior, s(didKey := None), True))"

definition merge_float :: "f64 option \<Rightarrow> f64 option \<Rightarrow> f64 option \<times> bool" where
  "merge_float new current =
     (case new of
        None \<Rightarrow> (current, False)
      | Some v \<Rightarrow> if sameFloat current v then (current, False) else (Some v, True))"

definition merge_int :: "int option \<Rightarrow> int option \<Rightarrow> int option \<times> bool" where
  "merge_int new current =
     (case new of
        None \<Rightarrow> (current, False)
      | Some v \<Rightarrow> if current = Some v then (current, False) else (Some v, True))"

definition merge_values :: "update \<Rightarrow> reading \<Rightarrow> reading \<times> bool" where
  "merge_values u r =
     (let (t, ct) = merge_float (u_temperature u) (r_temperature r);
          (h, ch) = merge_float (u_humidity u) (r_humidity r);
          (b, cb) = merge_int (u_battery u) (r_battery r)
      in (r\<lparr>r_temperature := t, r_humidity := h, r_battery := b\<rparr>, ct \<or> ch \<or> cb))"

definition Merge :: "time \<Rightarrow> update \<Rightarrow> measurement_state \<Rightarrow> bool \<times> measurement_state" where
  "Merge now u s =
     (let key = identity (u_mac u) (u_did u)
      in if key = [] then (False, s)
         else
           let (r, s1, migrated) = migrate u key s;
               (r1, merged) = merge_values u r
           in if \<not> (migrated \<or> merged) then (False, s1)
              else
                let updatedAt = (if u_gateway_time u \<le> 0 then unix now else u_gateway_time u)
                in (True, s1(key \<mapsto> r1\<lparr>r_updated_at := updatedAt\<rparr>)))"

subsection \<open>Restore\<close>

definition lookup_reading :: "device \<Rightarrow> measurement_state \<Rightarrow> reading option" where
  "lookup_reading d s =
     (case s (identity (d_mac d) (d_did d)) of
        Some r \<Rightarrow> Some r
      | None \<Rightarrow> if d_did d = [] then None else s (''did:'' @ trim_space (d_did d)))"

definition Restore :: "device \<Rightarrow> measurement_state \<Rightarrow> (update \<times> int) option" where
  "Restore d s =
     (case lookup_reading d s of
        None \<Rightarrow> None
      | Some r \<Rightarrow>
          if r_temperature r = None \<and> r_humidity r = None \<and> r_battery r = None then None
          else Some (zero_update\<lparr>
                 u_mac := config_NormalizeMAC (d_mac d), u_did := d_did d,
                 u_product_id := d_product_id d, u_model := d_model d,
                 u_temperature := r_temperature r, u_humidity := r_humidity r,
                 u_battery := r_battery r\<rparr>, r_updated_at r))"

subsection \<open>Identities\<close>

lemma normalizeKey_did [simp]: "normalizeKey (''did:'' @ d) = ''did:'' @ trim_space d"
proof -
  have "has_prefix (''did:'' @ d) ''did:''"
    unfolding has_prefix_iff by blast
  then show ?thesis
    unfolding normalizeKey_def trim_prefix_append by simp
qed

text \<open>
  A MAC field that does not itself read as a device id; every valid address is such, since it
  has a colon at the third place.
\<close>

definition plain_mac :: "go_string \<Rightarrow> bool" where
  "plain_mac mac \<longleftrightarrow> \<not> has_prefix (config_NormalizeMAC mac) ''did:''"

lemma valid_mac_third: "valid_mac s \<Longrightarrow> s ! 2 = CHR '':''"
  by (simp add: valid_mac_def eval_nat_numeral)

lemma valid_mac_plain: "valid_mac (config_NormalizeMAC mac) \<Longrightarrow> plain_mac mac"
  by (auto simp: plain_mac_def has_prefix_iff dest: valid_mac_third)

lemma identity_normal:
  assumes "plain_mac mac"
  shows "normalizeKey (identity mac did) = identity mac did"
proof -
  have did: "normalizeKey (''did:'' @ trim_space did) = ''did:'' @ trim_space did"
    using normalizeKey_did [of "trim_space did"] by simp
  have empty: "normalizeKey [] = []"
    by (simp add: normalizeKey_def has_prefix_def config_NormalizeMAC_eq)
  have mac: "normalizeKey (config_NormalizeMAC mac) = config_NormalizeMAC mac"
    using assms by (simp add: normalizeKey_def plain_mac_def config_NormalizeMAC_eq)
  show ?thesis
    unfolding identity_def Let_def by (auto simp only: did empty mac split: if_split)
qed

lemma identity_did:
  "identity mac did = (if config_NormalizeMAC mac \<noteq> [] then config_NormalizeMAC mac
     else if trim_space did \<noteq> [] then ''did:'' @ trim_space did else [])"
  by (simp add: identity_def Let_def)


subsection \<open>What Merge does\<close>

definition finite_values :: "update \<Rightarrow> bool" where
  "finite_values u \<longleftrightarrow> u_temperature u \<noteq> Some NaN \<and> u_humidity u \<noteq> Some NaN"

definition override :: "'a option \<Rightarrow> 'a option \<Rightarrow> 'a option" where
  "override new old = (case new of None \<Rightarrow> old | Some v \<Rightarrow> Some v)"

lemma valid_finite_values: "valid_update u \<Longrightarrow> finite_values u"
  by (auto simp: valid_update_def finite_values_def valid_f64_def)

lemma sameFloat_iff: "v \<noteq> NaN \<Longrightarrow> sameFloat c v \<longleftrightarrow> c = Some v"
  by (cases c; cases v) (auto simp: sameFloat_def dest: f64_eq_imp)

lemma merge_float_eq:
  "new \<noteq> Some NaN \<Longrightarrow> merge_float new c = (override new c, override new c \<noteq> c)"
  by (cases new) (auto simp: merge_float_def override_def sameFloat_iff)

lemma merge_int_eq: "merge_int new c = (override new c, override new c \<noteq> c)"
  by (cases new) (auto simp: merge_int_def override_def)

lemma override_idem [simp]: "override new (override new old) = override new old"
  by (cases new) (simp_all add: override_def)

text \<open>The reading with the update's values laid over it.\<close>

definition overlay :: "update \<Rightarrow> reading \<Rightarrow> reading" where
  "overlay u r = r\<lparr>r_temperature := override (u_temperature u) (r_temperature r),
     r_humidity := override (u_humidity u) (r_humidity r),
     r_battery := override (u_battery u) (r_battery r)\<rparr>"

lemma overlay_idem [simp]: "overlay u (overlay u r) = overlay u r"
  by (simp add: overlay_def)

lemma overlay_time [simp]:
  "overlay u (r\<lparr>r_updated_at := t\<rparr>) = (overlay u r)\<lparr>r_updated_at := t\<rparr>"
  by (simp add: overlay_def)

lemma merge_values_eq: "finite_values u \<Longrightarrow> merge_values u r = (overlay u r, overlay u r \<noteq> r)"
  by (cases r) (auto simp: merge_values_def finite_values_def merge_float_eq merge_int_eq overlay_def)

definition update_time :: "time \<Rightarrow> update \<Rightarrow> int" where
  "update_time now u = (if u_gateway_time u \<le> 0 then unix now else u_gateway_time u)"

text \<open>The reading of the device an update is from, and where it is kept.\<close>

definition update_key :: "update \<Rightarrow> go_string" where
  "update_key u = identity (u_mac u) (u_did u)"

definition did_key :: "go_string \<Rightarrow> go_string" where
  "did_key did = ''did:'' @ trim_space did"

definition prior_reading :: "update \<Rightarrow> measurement_state \<Rightarrow> reading option" where
  "prior_reading u s =
     (case s (update_key u) of
        Some r \<Rightarrow> Some r
      | None \<Rightarrow> if u_did u = [] then None else s (did_key (u_did u)))"

definition prior_or_zero :: "update \<Rightarrow> measurement_state \<Rightarrow> reading" where
  "prior_or_zero u s = (case prior_reading u s of None \<Rightarrow> zero_reading | Some r \<Rightarrow> r)"

definition moves :: "update \<Rightarrow> measurement_state \<Rightarrow> bool" where
  "moves u s \<longleftrightarrow> s (update_key u) = None \<and> u_did u \<noteq> [] \<and> s (did_key (u_did u)) \<noteq> None"

lemma migrate_eq:
  "migrate u (update_key u) s =
     (prior_or_zero u s, (if moves u s then s(did_key (u_did u) := None) else s), moves u s)"
  by (auto simp: migrate_def prior_or_zero_def prior_reading_def moves_def did_key_def Let_def
      split: option.splits)

lemma Merge_eq:
  assumes "finite_values u"
  shows "Merge now u s =
     (if update_key u = [] then (False, s)
      else if \<not> moves u s \<and> overlay u (prior_or_zero u s) = prior_or_zero u s then (False, s)
      else (True, (if moves u s then s(did_key (u_did u) := None) else s)
              (update_key u \<mapsto> (overlay u (prior_or_zero u s))\<lparr>r_updated_at := update_time now u\<rparr>)))"
  using assms
  by (auto simp: Merge_def update_key_def [symmetric] migrate_eq merge_values_eq update_time_def Let_def)

text \<open>Equality of readings up to the time stamp.\<close>

definition same_values :: "reading \<Rightarrow> reading \<Rightarrow> bool" where
  "same_values r r' \<longleftrightarrow> r_temperature r = r_temperature r' \<and> r_humidity r = r_humidity r'
     \<and> r_battery r = r_battery r'"

lemma Merge_reading:
  assumes "finite_values u" and "update_key u \<noteq> []" and "Merge now u s = (b, s')"
    and "b \<or> prior_reading u s \<noteq> None"
  shows "\<exists>r. prior_reading u s' = Some r \<and> same_values r (overlay u (prior_or_zero u s))"
  using assms
  by (auto simp: Merge_eq prior_reading_def [of u s'] same_values_def moves_def split: if_splits)
     (auto simp: prior_or_zero_def prior_reading_def split: option.splits if_splits)

lemma Merge_again:
  assumes "finite_values u" and "Merge now u s = (b, s')"
  shows "Merge now' u s' = (False, s')"
proof (cases b)
  case False
  with assms show ?thesis
    by (auto simp: Merge_eq split: if_splits)
next
  case True
  with assms have "s' (update_key u) = Some ((overlay u (prior_or_zero u s))\<lparr>r_updated_at := update_time now u\<rparr>)"
    by (auto simp: Merge_eq split: if_splits)
  then show ?thesis
    using assms(1) by (simp add: Merge_eq moves_def prior_or_zero_def prior_reading_def)
qed

lemma Merge_frame:
  assumes "finite_values u" and "Merge now u s = (b, s')"
    and "key \<noteq> update_key u" and "key \<noteq> did_key (u_did u)"
  shows "s' key = s key"
  using assms by (auto simp: Merge_eq split: if_splits)

subsection \<open>The keys of the cache\<close>

definition keys_normal :: "measurement_state \<Rightarrow> bool" where
  "keys_normal s \<longleftrightarrow> (\<forall>key \<in> dom s. normalizeKey key = key)"

lemma Merge_keys_normal:
  assumes "finite_values u" and "plain_mac (u_mac u)" and "keys_normal s" and "Merge now u s = (b, s')"
  shows "keys_normal s'"
  using assms identity_normal [OF assms(2), of "u_did u"]
  by (auto simp: Merge_eq keys_normal_def update_key_def split: if_splits)

lemma foldl_map_upd:
  "foldl (\<lambda>s e. s(f e \<mapsto> g e)) s0 es = s0 ++ map_of (rev (map (\<lambda>e. (f e, g e)) es))"
proof (induction es rule: rev_induct)
  case Nil
  then show ?case by simp
next
  case (snoc e es)
  then show ?case
    by (simp only: foldl_append map_append rev_append list.map rev.simps append.simps
        foldl.simps map_of.simps map_add_upd fst_conv snd_conv)
qed

lemma cloneReading_id [simp]: "cloneReading r = r"
  by (simp add: cloneReading_def)

lemma map_of_rev_distinct: "distinct (map fst xs) \<Longrightarrow> map_of (rev xs) = map_of xs"
  by (rule map_of_eqI) (auto simp: rev_map [symmetric] map_of_eq_Some_iff
      simp del: map_of_eq_None_iff)

lemma load_devices_normal:
  assumes "distinct (map fst entries)" and "keys_normal (map_of entries)"
  shows "load_devices entries = map_of entries"
proof -
  have "(normalizeKey (fst e), cloneReading (snd e)) = e" if "e \<in> set entries" for e
  proof -
    obtain key r where e: "e = (key, r)"
      by fastforce
    then have "key \<in> dom (map_of entries)"
      using that by (metis domIff map_of_eq_None_iff fst_conv image_eqI)
    with assms(2) e show ?thesis
      by (simp add: keys_normal_def)
  qed
  then have "map (\<lambda>e. (normalizeKey (fst e), cloneReading (snd e))) entries = entries"
    by (intro map_idI) blast
  with assms(1) show ?thesis
    by (simp add: load_devices_def case_prod_beta' foldl_map_upd map_of_rev_distinct
        del: cloneReading_id)
qed

subsection \<open>Restoring what was merged\<close>

definition device_of :: "update \<Rightarrow> device" where
  "device_of u = \<lparr>d_name = [], d_mac = u_mac u, d_did = u_did u, d_product_id = u_product_id u,
     d_model = u_model u, d_aid = 0\<rparr>"

lemma lookup_reading_prior:
  "d_mac d = u_mac u \<Longrightarrow> d_did d = u_did u \<Longrightarrow> lookup_reading d s = prior_reading u s"
  unfolding lookup_reading_def prior_reading_def update_key_def did_key_def by presburger

lemma Restore_no_motion: "Restore d s = Some (u, t) \<Longrightarrow> u_toothbrush u = None \<and> \<not> u_has_frame_count u"
  by (auto simp: Restore_def zero_update_def split: option.splits if_splits)

text \<open>Values that were in range when they were merged are in range when they are restored.\<close>

definition valid_reading :: "reading \<Rightarrow> bool" where
  "valid_reading r \<longleftrightarrow> valid_f64 (- 100) 150 (r_temperature r) \<and> valid_f64 0 100 (r_humidity r)
     \<and> valid_int 0 100 (r_battery r)"

definition valid_cache :: "measurement_state \<Rightarrow> bool" where
  "valid_cache s \<longleftrightarrow> (\<forall>r \<in> ran s. valid_reading r)"

lemma zero_reading_valid: "valid_reading zero_reading"
  by (simp add: valid_reading_def zero_reading_def)

lemma overlay_valid: "valid_update u \<Longrightarrow> valid_reading r \<Longrightarrow> valid_reading (overlay u r)"
  by (auto simp: valid_reading_def overlay_def override_def valid_update_def split: option.split)

lemma valid_cache_lookup: "valid_cache s \<Longrightarrow> s key = Some r \<Longrightarrow> valid_reading r"
  by (auto simp: valid_cache_def ran_def)

lemma prior_or_zero_valid: "valid_cache s \<Longrightarrow> valid_reading (prior_or_zero u s)"
  by (auto simp: prior_or_zero_def prior_reading_def zero_reading_valid
      dest: valid_cache_lookup split: option.splits if_splits)

lemma Merge_valid:
  assumes "valid_update u" and "valid_cache s" and "Merge now u s = (b, s')"
  shows "valid_cache s'"
proof -
  have "valid_reading ((overlay u (prior_or_zero u s))\<lparr>r_updated_at := t\<rparr>)" for t
    using overlay_valid [OF assms(1) prior_or_zero_valid [OF assms(2)]] by (simp add: valid_reading_def)
  then show ?thesis
    using assms(3) valid_cache_lookup [OF assms(2)]
    by (auto simp: Merge_eq [OF valid_finite_values [OF assms(1)]] valid_cache_def [of s']
        ran_def assms(2) split: if_splits)
qed

lemma Restore_valid:
  assumes "valid_cache s" and "Restore d s = Some (u, t)"
  shows "valid_update u"
proof -
  obtain r where r: "lookup_reading d s = Some r" and u: "u_temperature u = r_temperature r"
    "u_humidity u = r_humidity r" "u_battery u = r_battery r" "u_toothbrush u = None"
    using assms(2) by (auto simp: Restore_def zero_update_def split: option.splits if_splits)
  then have "valid_reading r"
    using valid_cache_lookup [OF assms(1)] by (auto simp: lookup_reading_def split: option.splits if_splits)
  with u show ?thesis
    by (simp add: valid_update_def valid_reading_def)
qed

end
