(* ===== verification/Runtime.thy ===== *)
theory Runtime
  imports Devices Accessory Deduplicator Measurements "HOL-Library.List_Lexorder" "HOL-Library.Char_ord"
begin

section \<open>The runtime\<close>

text \<open>
  The part of \<^verbatim>\<open>cmd/mgl03-homekit-bridge/main.go\<close> that moves updates: the bounded queue
  between the MQTT client and the consumer, the discovery of devices at start-up, the restoring
  of cached measurements, and \<^verbatim>\<open>processUpdates\<close>.

  The consumer is one goroutine, so its state is one record and every received update is one
  function of it; \<open>Bridge_System\<close> adds what runs beside it.  Writing a file is an effect: \<open>rt_registry_saves\<close> and \<open>rt_cache_saves\<close> list what was
  handed to \<^verbatim>\<open>registry.Save\<close> and \<^verbatim>\<open>State.Save\<close>, whose errors are only logged.  Every reading
  of the clock is an argument.
\<close>

subsection \<open>The queue\<close>

record queue =
  q_updates :: "update list"
  q_dropped :: nat
  q_last_drop_log :: "time option"

definition queue_capacity :: nat where
  "queue_capacity = 128"

definition enqueue_update :: "time \<Rightarrow> queue \<Rightarrow> update \<Rightarrow> queue" where
  "enqueue_update now q u =
     (if length (q_updates q) < queue_capacity then q\<lparr>q_updates := q_updates q @ [u]\<rparr>
      else
        let dropped = q_dropped q + 1
        in case q_last_drop_log q of
             None \<Rightarrow> q\<lparr>q_dropped := 0, q_last_drop_log := Some now\<rparr>
           | Some t \<Rightarrow>
               if time_sub now t \<ge> minute then q\<lparr>q_dropped := 0, q_last_drop_log := Some now\<rparr>
               else q\<lparr>q_dropped := dropped\<rparr>)"

text \<open>The handler given to the MQTT client, for one message.\<close>

definition handle_payload :: "(f64 \<Rightarrow> int) \<Rightarrow> time \<Rightarrow> json option \<Rightarrow> queue \<Rightarrow> queue" where
  "handle_payload conv now payload q = foldl (enqueue_update now) q (fst (Parse conv payload))"

subsection \<open>Discovery\<close>

text \<open>
  What the loop of \<^verbatim>\<open>discoverDevices\<close> selects: a cancelled context, the window's timer, or an
  update.  The timer's channel is \<^verbatim>\<open>nil\<close> until the first device is found, and a nil channel is
  never selected.  \<open>None\<close> is a loop that still waits.
\<close>

datatype select_event = Cancelled | WindowElapsed | Received time update

record discovery_state =
  di_devices :: "device list"
  di_initial :: "go_string \<rightharpoonup> update"
  di_dedup :: deduplicator
  di_discovered :: bool
  di_timer :: bool

text \<open>One received update: the new state, and whether the function returns.\<close>

definition discover_update ::
  "go_string \<Rightarrow> time \<Rightarrow> update \<Rightarrow> discovery_state \<Rightarrow> (discovery_state \<times> bool) option" where
  "discover_update mode now u s =
     (if \<not> supportedDiscoveryUpdate u then Some (s, False)
      else
        let (ok, dd) = Accept now (di_dedup s) u; s = s\<lparr>di_dedup := dd\<rparr>
        in if \<not> ok then Some (s, False)
           else
             let s = s\<lparr>di_initial := (di_initial s)(updateIdentity u \<mapsto> u)\<rparr>
             in if findDevice (di_devices s) u \<ge> 0 then Some (s, False)
                else
                  (case appendDeviceWithAID (di_devices s)
                          (deviceFromUpdate u (int (length (di_devices s)) + 1)) of
                     None \<Rightarrow> None
                   | Some devices \<Rightarrow>
                       let s = s\<lparr>di_devices := devices, di_discovered := True\<rparr>
                       in if mode = DiscoveryModeFirst then Some (s, True)
                          else Some (s\<lparr>di_timer := True\<rparr>, False)))"

fun discover_loop :: "go_string \<Rightarrow> discovery_state \<Rightarrow> select_event list \<Rightarrow> discovery_state option" where
  "discover_loop mode s [] = None"
| "discover_loop mode s (Cancelled # es) = Some s"
| "discover_loop mode s (WindowElapsed # es) =
     (if di_timer s then Some s else discover_loop mode s es)"
| "discover_loop mode s (Received now u # es) =
     (case discover_update mode now u s of
        None \<Rightarrow> None
      | Some (s', returns) \<Rightarrow> if returns then Some s' else discover_loop mode s' es)"

definition discoverDevices ::
  "config \<Rightarrow> deduplicator \<Rightarrow> device list \<Rightarrow> select_event list \<Rightarrow> discovery_state option" where
  "discoverDevices cfg dd devices es =
     (let s = \<lparr>di_devices = devices, di_initial = Map.empty, di_dedup = dd,
               di_discovered = False, di_timer = False\<rparr>
      in if length devices > 0 \<or> ds_mode (c_discovery cfg) = DiscoveryModeManual then Some s
         else discover_loop (ds_mode (c_discovery cfg)) s es)"

subsection \<open>Processing\<close>

record runtime =
  rt_accessories :: "accessory list"
  rt_dedup :: deduplicator
  rt_unknown :: "go_string set"
  rt_devices :: "device list"
  rt_measurements :: measurement_state
  rt_registry_saves :: "device list list"
  rt_cache_saves :: "measurement_state list"

record clocks =
  ck_classify :: time
  ck_merge :: time
  ck_apply :: time

text \<open>\<^verbatim>\<open>matchAccessory\<close> returns the accessory itself; the model its place in the list.\<close>

fun match_loop :: "nat \<Rightarrow> accessory list \<Rightarrow> update \<Rightarrow> nat option" where
  "match_loop i [] u = None"
| "match_loop i (a # as) u = (if matches u (DeviceConfig a) then Some i else match_loop (Suc i) as u)"

definition matchAccessory :: "accessory list \<Rightarrow> update \<Rightarrow> nat option" where
  "matchAccessory as u = match_loop 0 as u"

definition apply_at :: "time \<Rightarrow> update \<Rightarrow> nat \<Rightarrow> runtime \<Rightarrow> runtime" where
  "apply_at now u i rt =
     rt\<lparr>rt_accessories := (rt_accessories rt)[i := accessory_Apply now u (rt_accessories rt ! i)]\<rparr>"

definition persistMeasurements :: "go_string \<Rightarrow> time \<Rightarrow> update \<Rightarrow> runtime \<Rightarrow> runtime" where
  "persistMeasurements path now u rt =
     (if path = [] then rt
      else
        let (changed, s) = Merge now u (rt_measurements rt); rt = rt\<lparr>rt_measurements := s\<rparr>
        in if \<not> changed then rt else rt\<lparr>rt_cache_saves := rt_cache_saves rt @ [s]\<rparr>)"

text \<open>One round of the loop over the updates that discovery kept; the map is in any order.\<close>

definition process_initial :: "go_string \<Rightarrow> clocks \<Rightarrow> update \<Rightarrow> runtime \<Rightarrow> runtime" where
  "process_initial path ck u rt =
     (case matchAccessory (rt_accessories rt) u of
        None \<Rightarrow> rt
      | Some i \<Rightarrow> persistMeasurements path (ck_merge ck) u (apply_at (ck_apply ck) u i rt))"

definition unknown_key :: "update \<Rightarrow> go_string" where
  "unknown_key u = (if u_mac u = [] then u_did u else u_mac u)"

definition enroll :: "config \<Rightarrow> update \<Rightarrow> runtime \<Rightarrow> runtime option" where
  "enroll cfg u rt =
     (if supportedDiscoveryUpdate u \<and> unknown_key u \<notin> rt_unknown rt then
        let rt = rt\<lparr>rt_unknown := insert (unknown_key u) (rt_unknown rt)\<rparr>
        in if ds_mode (c_discovery cfg) = DiscoveryModeAuto then
             (case appendDeviceWithAID (rt_devices rt)
                     (deviceFromUpdate u (int (length (rt_devices rt)) + 1)) of
                None \<Rightarrow> None
              | Some devices \<Rightarrow>
                  Some (rt\<lparr>rt_devices := devices, rt_registry_saves := rt_registry_saves rt @ [devices]\<rparr>))
           else Some rt
      else Some rt)"

definition is_start :: "update \<Rightarrow> bool" where
  "is_start u \<longleftrightarrow> (case u_toothbrush u of None \<Rightarrow> False | Some event \<Rightarrow> tb_type event = 0)"

definition process_update :: "config \<Rightarrow> go_string \<Rightarrow> clocks \<Rightarrow> update \<Rightarrow> runtime \<Rightarrow> runtime option" where
  "process_update cfg path ck u rt =
     (let found = matchAccessory (rt_accessories rt) u;
          (disp, dd) = Classify (ck_classify ck) (rt_dedup rt) u;
          rt = rt\<lparr>rt_dedup := dd\<rparr>
      in if disp \<noteq> FrameAccepted then
           (case found of
              Some i \<Rightarrow>
                if disp = FrameDuplicate \<and> is_start u then Some (apply_at (ck_apply ck) u i rt)
                else Some rt
            | None \<Rightarrow> Some rt)
         else
           let rt = persistMeasurements path (ck_merge ck) u rt
           in case found of
                None \<Rightarrow> enroll cfg u rt
              | Some i \<Rightarrow> Some (apply_at (ck_apply ck) u i rt))"

text \<open>\<^verbatim>\<open>restoreCachedMeasurements\<close>: the accessories after it and how many were restored.\<close>

fun restoreCachedMeasurements :: "time \<Rightarrow> accessory list \<Rightarrow> measurement_state \<Rightarrow> accessory list \<times> nat" where
  "restoreCachedMeasurements now [] s = ([], 0)"
| "restoreCachedMeasurements now (a # as) s =
     (let (as', n) = restoreCachedMeasurements now as s
      in case Restore (DeviceConfig a) s of
           None \<Rightarrow> (a # as', n)
         | Some (u, _) \<Rightarrow> (accessory_Apply now u a # as', Suc n))"

text \<open>The accessories made of the devices, those that are not supported left out.\<close>

definition make_accessories :: "device list \<Rightarrow> accessory list" where
  "make_accessories ds =
     List.map_filter (\<lambda>d. case NewDeviceAccessory d of Inl _ \<Rightarrow> None | Inr a \<Rightarrow> Some a) ds"

text \<open>
  The start of \<^verbatim>\<open>run\<close> from the registered devices on: what the consumer starts with, before the
  cached measurements are laid over the accessories.
\<close>

definition startup ::
  "config \<Rightarrow> device list \<Rightarrow> select_event list \<Rightarrow> (device list \<times> discovery_state) option" where
  "startup cfg saved es =
     (case prepareDevices (mergeDevices (c_devices cfg) saved) of
        None \<Rightarrow> None
      | Some (devices, migrated) \<Rightarrow>
          (case discoverDevices cfg (NewDeduplicator (10 * minute)) devices es of
             None \<Rightarrow> None
           | Some s \<Rightarrow> Some (sort_key deviceKey (di_devices s), s)))"

fun process_run :: "config \<Rightarrow> go_string \<Rightarrow> (clocks \<times> update) list \<Rightarrow> runtime \<Rightarrow> runtime option" where
  "process_run cfg path [] rt = Some rt"
| "process_run cfg path ((ck, u) # us) rt =
     (case process_update cfg path ck u rt of
        None \<Rightarrow> None
      | Some rt' \<Rightarrow> process_run cfg path us rt')"

subsection \<open>The queue is bounded\<close>

text \<open>
  What a queue promises to those who put something into it: it keeps the order and drops what it
  has no room for.
\<close>

locale bounded_queue =
  fixes enq :: "'q \<Rightarrow> 'a \<Rightarrow> 'q" and contents :: "'q \<Rightarrow> 'a list" and room :: nat
  assumes enq_contents: "contents (enq q x) = (if length (contents q) < room then contents q @ [x] else contents q)"
begin

lemma enq_bound: "length (contents q) \<le> room \<Longrightarrow> length (contents (enq q x)) \<le> room"
  by (simp add: enq_contents)

lemma enq_all: "contents (foldl enq q xs) = contents q @ take (room - length (contents q)) xs"
proof (induction xs arbitrary: q)
  case (Cons x xs)
  show ?case
    using Cons.IH [of "enq q x"]
    by (cases "room - length (contents q)") (simp_all add: enq_contents diff_Suc split: if_splits nat.splits)
qed simp

end

lemma enqueue_update_cases:
  "q_updates (enqueue_update now q u)
     = (if length (q_updates q) < queue_capacity then q_updates q @ [u] else q_updates q)"
  by (simp add: enqueue_update_def Let_def split: option.split)

interpretation updates: bounded_queue "enqueue_update now" q_updates queue_capacity for now
  by unfold_locales (rule enqueue_update_cases)

subsection \<open>Matching\<close>

lemma match_loop_Some:
  "match_loop i as u = Some j \<Longrightarrow> i \<le> j \<and> j - i < length as \<and> matches u (DeviceConfig (as ! (j - i)))
     \<and> (\<forall>k < j - i. \<not> matches u (DeviceConfig (as ! k)))"
proof (induction i as u rule: match_loop.induct)
  case (2 i a as u)
  show ?case
  proof (cases "matches u (DeviceConfig a)")
    case True
    with 2 show ?thesis
      by simp
  next
    case False
    with 2 have IH: "Suc i \<le> j" "j - Suc i < length as" "matches u (DeviceConfig (as ! (j - Suc i)))"
      "\<forall>k < j - Suc i. \<not> matches u (DeviceConfig (as ! k))"
      by simp_all
    then have "j - i = Suc (j - Suc i)"
      by simp
    with IH False show ?thesis
      by (auto simp: less_Suc_eq_0_disj)
  qed
qed simp

lemma matchAccessory_Some:
  assumes "matchAccessory as u = Some j"
  shows "j < length as" and "matches u (DeviceConfig (as ! j))"
    and "k < j \<Longrightarrow> \<not> matches u (DeviceConfig (as ! k))"
  using match_loop_Some [of 0 as u j] assms by (auto simp: matchAccessory_def)

lemma match_loop_None: "match_loop i as u = None \<longleftrightarrow> (\<forall>a \<in> set as. \<not> matches u (DeviceConfig a))"
  by (induction i as u rule: match_loop.induct) auto

lemma match_loop_config:
  "map DeviceConfig as = map DeviceConfig bs \<Longrightarrow> match_loop i as u = match_loop i bs u"
proof (induction i as u arbitrary: bs rule: match_loop.induct)
  case (2 i a as u)
  then obtain b bs' where "bs = b # bs'"
    by (cases bs) auto
  with 2 show ?case
    by auto
qed simp

lemma matchAccessory_config:
  "map DeviceConfig as = map DeviceConfig bs \<Longrightarrow> matchAccessory as u = matchAccessory bs u"
  unfolding matchAccessory_def by (rule match_loop_config)

subsection \<open>One update\<close>

lemma apply_at_fields [simp]:
  "rt_dedup (apply_at now u i rt) = rt_dedup rt" "rt_unknown (apply_at now u i rt) = rt_unknown rt"
  "rt_devices (apply_at now u i rt) = rt_devices rt"
  "rt_measurements (apply_at now u i rt) = rt_measurements rt"
  "rt_registry_saves (apply_at now u i rt) = rt_registry_saves rt"
  "rt_cache_saves (apply_at now u i rt) = rt_cache_saves rt"
  "rt_accessories (apply_at now u i rt)
     = (rt_accessories rt)[i := accessory_Apply now u (rt_accessories rt ! i)]"
  by (simp_all add: apply_at_def)

lemma apply_at_config [simp]:
  "map DeviceConfig (rt_accessories (apply_at now u i rt)) = map DeviceConfig (rt_accessories rt)"
proof (cases "i < length (rt_accessories rt)")
  case True
  then show ?thesis
    by (simp add: map_update accessory_laws(1)) (metis list_update_id nth_map)
qed (simp add: list_update_beyond)

lemma persist_fields [simp]:
  "rt_accessories (persistMeasurements path now u rt) = rt_accessories rt"
  "rt_dedup (persistMeasurements path now u rt) = rt_dedup rt"
  "rt_unknown (persistMeasurements path now u rt) = rt_unknown rt"
  "rt_devices (persistMeasurements path now u rt) = rt_devices rt"
  "rt_registry_saves (persistMeasurements path now u rt) = rt_registry_saves rt"
  by (simp_all add: persistMeasurements_def Let_def split: prod.split)

lemma enroll_fields:
  assumes "enroll cfg u rt = Some rt'"
  shows "rt_accessories rt' = rt_accessories rt" and "rt_dedup rt' = rt_dedup rt"
    and "rt_measurements rt' = rt_measurements rt" and "rt_cache_saves rt' = rt_cache_saves rt"
  using assms by (auto simp: enroll_def Let_def split: if_splits option.splits)

text \<open>When an update is handed to the accessory it belongs to.\<close>

definition delivered_by :: "disposition \<Rightarrow> update \<Rightarrow> bool" where
  "delivered_by disp u \<longleftrightarrow> disp = FrameAccepted \<or> (disp = FrameDuplicate \<and> is_start u)"

lemma process_update_accessories:
  assumes "process_update cfg path ck u rt = Some rt'"
  shows "rt_accessories rt' =
    (case matchAccessory (rt_accessories rt) u of
       Some i \<Rightarrow>
         if delivered_by (fst (Classify (ck_classify ck) (rt_dedup rt) u)) u
         then (rt_accessories rt)[i := accessory_Apply (ck_apply ck) u (rt_accessories rt ! i)]
         else rt_accessories rt
     | None \<Rightarrow> rt_accessories rt)"
  using assms
  by (auto simp: process_update_def delivered_by_def Let_def enroll_fields
      split: prod.splits option.splits if_splits)

lemma process_update_dedup:
  "process_update cfg path ck u rt = Some rt' \<Longrightarrow>
     rt_dedup rt' = snd (Classify (ck_classify ck) (rt_dedup rt) u)"
  by (auto simp: process_update_def Let_def enroll_fields
      split: prod.splits option.splits if_splits)

text \<open>A stale frame, or a duplicate that starts nothing, leaves no trace.\<close>

lemma process_update_rejected:
  assumes "\<not> delivered_by (fst (Classify (ck_classify ck) (rt_dedup rt) u)) u"
  shows "process_update cfg path ck u rt = Some rt"
proof -
  obtain disp dd where c: "Classify (ck_classify ck) (rt_dedup rt) u = (disp, dd)"
    by fastforce
  with assms have "disp \<noteq> FrameAccepted"
    by (simp add: delivered_by_def)
  with Classify_rejected [OF c] have "dd = rt_dedup rt"
    by simp
  with assms c \<open>disp \<noteq> FrameAccepted\<close> show ?thesis
    by (auto simp: process_update_def delivered_by_def split: option.split)
qed

subsection \<open>The invariant of the consumer\<close>

text \<open>
  Every accessory is consistent and keeps its device; the device list stays ready for
  HomeKit and only grows at its end.
\<close>

definition runtime_inv :: "device list \<Rightarrow> device list \<Rightarrow> runtime \<Rightarrow> bool" where
  "runtime_inv confs ds rt \<longleftrightarrow> map DeviceConfig (rt_accessories rt) = confs
     \<and> (\<forall>a \<in> set (rt_accessories rt). accessory_ok a)
     \<and> ready {} (rt_devices rt) \<and> (\<exists>es. rt_devices rt = ds @ es)"

lemma process_update_config:
  "process_update cfg path ck u rt = Some rt' \<Longrightarrow>
     map DeviceConfig (rt_accessories rt') = map DeviceConfig (rt_accessories rt)"
proof (cases "matchAccessory (rt_accessories rt) u")
  case (Some i)
  then have "i < length (rt_accessories rt)"
    by (rule matchAccessory_Some)
  then have "map DeviceConfig ((rt_accessories rt)[i := accessory_Apply t u (rt_accessories rt ! i)])
      = map DeviceConfig (rt_accessories rt)" for t
    by (simp add: map_update accessory_laws(1)) (metis list_update_id nth_map)
  then show "process_update cfg path ck u rt = Some rt' \<Longrightarrow> ?thesis"
    by (simp add: process_update_accessories Some)
qed (simp add: process_update_accessories)

lemma process_update_ok:
  assumes "process_update cfg path ck u rt = Some rt'" and "valid_update u"
    and "\<forall>a \<in> set (rt_accessories rt). accessory_ok a"
  shows "\<forall>a \<in> set (rt_accessories rt'). accessory_ok a"
proof -
  have "accessory_ok (accessory_Apply t u (rt_accessories rt ! i))" if "i < length (rt_accessories rt)" for t i
    using that assms(2,3) by (simp add: acc.ok_app)
  then show ?thesis
    using assms(3) unfolding process_update_accessories [OF assms(1)]
    by (auto split: option.splits if_splits dest!: matchAccessory_Some(1) set_update_subset_insert [THEN subsetD])
qed

text \<open>What an update may do to the device list.\<close>

definition enrolls :: "config \<Rightarrow> update \<Rightarrow> runtime \<Rightarrow> bool" where
  "enrolls cfg u rt \<longleftrightarrow> supportedDiscoveryUpdate u \<and> unknown_key u \<notin> rt_unknown rt
     \<and> ds_mode (c_discovery cfg) = DiscoveryModeAuto"

lemma enroll_devices:
  assumes "ready {} (rt_devices rt)" and "length (rt_devices rt) < 2147483646"
  shows "\<exists>rt'. enroll cfg u rt = Some rt' \<and>
    (if enrolls cfg u rt
     then \<exists>d. rt_devices rt' = rt_devices rt @ [d] \<and> d_mac d = u_mac u \<and> d_did d = u_did u
            \<and> ready {} (rt_devices rt') \<and> rt_registry_saves rt' = rt_registry_saves rt @ [rt_devices rt']
     else rt_devices rt' = rt_devices rt \<and> rt_registry_saves rt' = rt_registry_saves rt)
    \<and> rt_unknown rt' = (if supportedDiscoveryUpdate u then insert (unknown_key u) (rt_unknown rt)
                       else rt_unknown rt)"
proof -
  let ?d = "deviceFromUpdate u (int (length (rt_devices rt)) + 1)"
  obtain d where "appendDeviceWithAID (rt_devices rt) ?d = Some (rt_devices rt @ [d])"
    and "same_device ?d d" and "ready {} (rt_devices rt @ [d])"
    using append_ready [OF assms] by blast
  moreover have "d_mac ?d = u_mac u" and "d_did ?d = u_did u"
    by (simp_all add: deviceFromUpdate_def Let_def)
  ultimately show ?thesis
    by (auto simp: enroll_def enrolls_def same_device_def Let_def insert_absorb)
qed

lemma process_update_total:
  assumes "ready {} (rt_devices rt)" and "length (rt_devices rt) < 2147483646"
  shows "\<exists>rt'. process_update cfg path ck u rt = Some rt' \<and> ready {} (rt_devices rt')
    \<and> (\<exists>es. rt_devices rt' = rt_devices rt @ es \<and> length es \<le> 1)"
proof -
  have "\<exists>rt'. enroll cfg u r = Some rt' \<and> ready {} (rt_devices rt')
      \<and> (\<exists>es. rt_devices rt' = rt_devices rt @ es \<and> length es \<le> 1)"
    if "rt_devices r = rt_devices rt" for r
    using enroll_devices [of r cfg u] assms that by (auto split: if_splits)
  then show ?thesis
    using assms(1)
    by (auto simp: process_update_def Let_def split: prod.split option.split)
qed

lemma process_update_inv:
  assumes "process_update cfg path ck u rt = Some rt'" and "valid_update u"
    and "runtime_inv confs ds rt" and "length (rt_devices rt) < 2147483646"
  shows "runtime_inv confs ds rt'"
proof -
  have "ready {} (rt_devices rt)"
    using assms(3) by (simp add: runtime_inv_def)
  from process_update_total [OF this assms(4), of cfg path ck u] assms(1)
  have "ready {} (rt_devices rt')" and "\<exists>es. rt_devices rt' = rt_devices rt @ es"
    by auto
  then show ?thesis
    using assms(3) process_update_config [OF assms(1)] process_update_ok [OF assms(1,2)]
    by (auto simp: runtime_inv_def)
qed

lemma process_run_inv:
  assumes "runtime_inv confs ds rt" and "\<forall>(ck, u) \<in> set us. valid_update u"
    and "length (rt_devices rt) + length us < 2147483646"
  shows "\<exists>rt'. process_run cfg path us rt = Some rt' \<and> runtime_inv confs ds rt'"
  using assms
proof (induction us arbitrary: rt)
  case (Cons x us)
  obtain ck u where x: "x = (ck, u)"
    by fastforce
  have "ready {} (rt_devices rt)"
    using Cons.prems(1) by (simp add: runtime_inv_def)
  then obtain r es where r: "process_update cfg path ck u rt = Some r"
    and es: "rt_devices r = rt_devices rt @ es" "length es \<le> 1"
    using process_update_total [of rt cfg path ck u] Cons.prems(3) by auto
  have "runtime_inv confs ds r"
    using process_update_inv [OF r] Cons.prems x by simp
  with Cons.IH [of r] Cons.prems es r x show ?case
    by auto
qed simp

subsection \<open>What an accessory sees of a run\<close>

text \<open>The updates delivered to the accessory at a place, decided by the frame counters alone.\<close>

fun deliveries ::
  "accessory list \<Rightarrow> nat \<Rightarrow> deduplicator \<Rightarrow> (clocks \<times> update) list \<Rightarrow> (time \<times> update) list" where
  "deliveries as i dd [] = []"
| "deliveries as i dd ((ck, u) # us) =
     (let (disp, dd') = Classify (ck_classify ck) dd u
      in (if matchAccessory as u = Some i \<and> delivered_by disp u then [(ck_apply ck, u)] else [])
         @ deliveries as i dd' us)"

lemma deliveries_config:
  "map DeviceConfig as = map DeviceConfig bs \<Longrightarrow> deliveries as i dd us = deliveries bs i dd us"
  by (induction us arbitrary: dd) (auto simp: matchAccessory_config [of as bs] split: prod.split)

lemma process_run_accessory:
  assumes "process_run cfg path us rt = Some rt'" and "i < length (rt_accessories rt)"
  shows "rt_accessories rt' ! i
    = foldl (\<lambda>a (now, u). accessory_Apply now u a) (rt_accessories rt ! i)
        (deliveries (rt_accessories rt) i (rt_dedup rt) us)"
  using assms
proof (induction us arbitrary: rt)
  case (Cons x us)
  obtain ck u where x: "x = (ck, u)"
    by fastforce
  obtain r where r: "process_update cfg path ck u rt = Some r" and run: "process_run cfg path us r = Some rt'"
    using Cons.prems(1) x by (auto split: option.splits)
  have conf: "map DeviceConfig (rt_accessories r) = map DeviceConfig (rt_accessories rt)"
    using r by (rule process_update_config)
  then have "i < length (rt_accessories r)"
    using Cons.prems(2) by (metis length_map)
  from Cons.IH [OF run this]
  have "rt_accessories rt' ! i = foldl (\<lambda>a (now, u). accessory_Apply now u a) (rt_accessories r ! i)
      (deliveries (rt_accessories rt) i (snd (Classify (ck_classify ck) (rt_dedup rt) u)) us)"
    by (simp add: process_update_dedup [OF r] deliveries_config [OF conf])
  moreover have "rt_accessories r ! i =
      (if matchAccessory (rt_accessories rt) u = Some i
          \<and> delivered_by (fst (Classify (ck_classify ck) (rt_dedup rt) u)) u
       then accessory_Apply (ck_apply ck) u (rt_accessories rt ! i) else rt_accessories rt ! i)"
    using Cons.prems(2) by (auto simp: process_update_accessories [OF r] nth_list_update split: option.splits)
  ultimately show ?case
    by (simp add: x case_prod_beta' Let_def)
qed simp

text \<open>The battery level an accessory shows is that of the last delivered update with one.\<close>

lemma process_run_level:
  assumes "process_run cfg path us rt = Some rt'" and "i < length (rt_accessories rt)"
  shows "bs_level (accessory_battery (rt_accessories rt' ! i))
    = last_value (\<lambda>(now, u). u_battery u) (bs_level (accessory_battery (rt_accessories rt ! i)))
        (deliveries (rt_accessories rt) i (rt_dedup rt) us)"
  unfolding process_run_accessory [OF assms] by (rule acc.level_run)

subsection \<open>Enrolment happens once\<close>

definition device_unknown_key :: "device \<Rightarrow> go_string" where
  "device_unknown_key d = (if d_mac d = [] then d_did d else d_mac d)"

lemma process_update_enrolls:
  assumes "process_update cfg path ck u rt = Some rt'"
    and "ready {} (rt_devices rt)" and "length (rt_devices rt) < 2147483646"
  shows "rt_unknown rt \<subseteq> rt_unknown rt' \<and>
    (rt_devices rt' = rt_devices rt \<or>
     (\<exists>d. rt_devices rt' = rt_devices rt @ [d] \<and> device_unknown_key d \<notin> rt_unknown rt
       \<and> device_unknown_key d \<in> rt_unknown rt'))"
proof -
  have en: "rt_unknown rt \<subseteq> rt_unknown rt' \<and>
      (rt_devices rt' = rt_devices rt \<or>
       (\<exists>d. rt_devices rt' = rt_devices rt @ [d] \<and> device_unknown_key d \<notin> rt_unknown rt
         \<and> device_unknown_key d \<in> rt_unknown rt'))"
    if "enroll cfg u r = Some rt'" "rt_devices r = rt_devices rt" "rt_unknown r = rt_unknown rt" for r
    using enroll_devices [of r cfg u] that assms(2,3)
    by (auto simp: enrolls_def device_unknown_key_def unknown_key_def split: if_splits)
  have "enroll cfg u (persistMeasurements path (ck_merge ck) u
        (rt\<lparr>rt_dedup := snd (Classify (ck_classify ck) (rt_dedup rt) u)\<rparr>)) = Some rt'
      \<or> (rt_unknown rt' = rt_unknown rt \<and> rt_devices rt' = rt_devices rt)"
    using assms(1)
    by (auto simp: process_update_def Let_def split: prod.splits option.splits if_splits)
  then show ?thesis
    using en by fastforce
qed

lemma process_run_enrolls:
  assumes "process_run cfg path us rt = Some rt'"
    and "ready {} (rt_devices rt)" and "length (rt_devices rt) + length us < 2147483646"
  shows "\<exists>es. rt_devices rt' = rt_devices rt @ es \<and> distinct (map device_unknown_key es)
    \<and> (\<forall>d \<in> set es. device_unknown_key d \<notin> rt_unknown rt)"
  using assms
proof (induction us arbitrary: rt)
  case (Cons x us)
  obtain ck u where x: "x = (ck, u)"
    by fastforce
  obtain r where r: "process_update cfg path ck u rt = Some r" and run: "process_run cfg path us r = Some rt'"
    using Cons.prems(1) x by (auto split: option.splits)
  have len: "length (rt_devices rt) < 2147483646"
    using Cons.prems(3) by simp
  obtain es where ready: "ready {} (rt_devices r)" and es: "rt_devices r = rt_devices rt @ es" "length es \<le> 1"
    using process_update_total [OF Cons.prems(2) len, of cfg path ck u] r by auto
  from Cons.IH [OF run ready] Cons.prems(3) es
  obtain fs where fs: "rt_devices rt' = rt_devices r @ fs" "distinct (map device_unknown_key fs)"
    "\<forall>d \<in> set fs. device_unknown_key d \<notin> rt_unknown r"
    by auto
  from process_update_enrolls [OF r Cons.prems(2) len] consider
      "rt_unknown rt \<subseteq> rt_unknown r" "rt_devices r = rt_devices rt"
    | d where "rt_unknown rt \<subseteq> rt_unknown r" "rt_devices r = rt_devices rt @ [d]"
        "device_unknown_key d \<notin> rt_unknown rt" "device_unknown_key d \<in> rt_unknown r"
    by auto
  then show ?case
  proof cases
    case 1
    with fs show ?thesis
      by auto
  next
    case (2 d)
    with fs have "rt_devices rt' = rt_devices rt @ (d # fs) \<and> distinct (map device_unknown_key (d # fs))
        \<and> (\<forall>e \<in> set (d # fs). device_unknown_key e \<notin> rt_unknown rt)"
      by auto
    then show ?thesis
      by blast
  qed
qed simp

subsection \<open>Discovery\<close>

lemma matches_conflict: "matches u d \<longleftrightarrow> conflict d (deviceFromUpdate u n)"
  by (auto simp: matches_def conflict_def deviceFromUpdate_def equal_fold_def Let_def)

definition discovery_inv :: "discovery_state \<Rightarrow> bool" where
  "discovery_inv s \<longleftrightarrow> ready {} (di_devices s) \<and> separate (di_devices s)
     \<and> (\<forall>d \<in> set (di_devices s). productForDevice d \<noteq> None)
     \<and> (di_timer s \<longrightarrow> di_devices s \<noteq> [])
     \<and> (\<forall>key u. di_initial s key = Some u \<longrightarrow> (\<exists>d \<in> set (di_devices s). matches u d))"

lemma matches_same: "same_device d d' \<Longrightarrow> matches u d' \<longleftrightarrow> matches u d"
  by (simp add: same_device_def matches_def)

lemma deviceFromUpdate_fields:
  "d_mac (deviceFromUpdate u n) = u_mac u" "d_did (deviceFromUpdate u n) = u_did u"
  "d_product_id (deviceFromUpdate u n) = u_product_id u"
  by (simp_all add: deviceFromUpdate_def Let_def)

lemma discovery_inv_found:
  assumes "discovery_inv s" and "0 \<le> findDevice (di_devices s) u"
  shows "discovery_inv (s\<lparr>di_dedup := dd, di_initial := (di_initial s)(k \<mapsto> u)\<rparr>)"
  using assms by (auto simp: discovery_inv_def findDevice_found)

lemma discovery_inv_new:
  assumes "discovery_inv s" and "findDevice (di_devices s) u < 0" and "supportedDiscoveryUpdate u"
    and "length (di_devices s) < 2147483646"
  shows "\<exists>d. appendDeviceWithAID (di_devices s) (deviceFromUpdate u n) = Some (di_devices s @ [d])
    \<and> matches u d \<and> discovery_inv (s\<lparr>di_dedup := dd, di_initial := (di_initial s)(k \<mapsto> u),
         di_devices := di_devices s @ [d], di_discovered := b, di_timer := t\<rparr>)"
proof -
  have "ready {} (di_devices s)"
    using assms(1) by (simp add: discovery_inv_def)
  from append_ready [OF this assms(4), of "deviceFromUpdate u n"]
  obtain d where d: "appendDeviceWithAID (di_devices s) (deviceFromUpdate u n) = Some (di_devices s @ [d])"
    and same: "same_device (deviceFromUpdate u n) d" and ready: "ready {} (di_devices s @ [d])"
    by blast
  have fields: "d_mac d = u_mac u" "d_did d = u_did u"
    using same by (simp_all add: same_device_def deviceFromUpdate_fields)
  have "u_product_id u \<noteq> 0"
    using assms(3) by (auto simp: supportedDiscoveryUpdate_def SupportedProduct_def)
  then have "d_product_id d = u_product_id u"
    using same by (simp add: same_device_def deviceFromUpdate_fields)
  then have product: "productForDevice d \<noteq> None"
    using assms(3) by (auto simp: productForDevice_def supportedDiscoveryUpdate_def SupportedProduct_def
        split: option.split)
  have no_match: "\<not> matches u e" if "e \<in> set (di_devices s)" for e
    using assms(2) that findDevice_found [of "di_devices s" u] by auto
  then have "\<not> conflict e d" if "e \<in> set (di_devices s)" for e
    using that matches_conflict [of u e n] same
    by (auto simp: conflict_def fields deviceFromUpdate_fields)
  then have "separate (di_devices s @ [d])"
    using assms(1) by (auto simp: discovery_inv_def separate_def sorted_wrt_append)
  moreover have "matches u d"
    using matches_same [OF same] deviceFromUpdate_matches assms(3)
    by (simp add: supportedDiscoveryUpdate_def)
  ultimately show ?thesis
    using d assms(1) ready product by (auto simp: discovery_inv_def)
qed

lemma discover_update_inv:
  assumes "discovery_inv s" and "length (di_devices s) < 2147483646"
  shows "\<exists>s' b. discover_update mode now u s = Some (s', b) \<and> discovery_inv s'
    \<and> length (di_devices s') \<le> Suc (length (di_devices s))"
proof -
  obtain ok dd where acc: "Accept now (di_dedup s) u = (ok, dd)"
    by fastforce
  have inv: "discovery_inv (s\<lparr>di_dedup := dd\<rparr>)"
    using assms(1) by (simp add: discovery_inv_def)
  let ?n = "int (length (di_devices s)) + 1"
  consider (skip) "\<not> supportedDiscoveryUpdate u" | (stale) "supportedDiscoveryUpdate u" "\<not> ok"
    | (known) "supportedDiscoveryUpdate u" "ok" "0 \<le> findDevice (di_devices s) u"
    | (new) "supportedDiscoveryUpdate u" "ok" "findDevice (di_devices s) u < 0"
    by linarith
  then show ?thesis
  proof cases
    case known
    with discovery_inv_found [OF assms(1) known(3)] acc show ?thesis
      by (auto simp: discover_update_def)
  next
    case new
    let ?s = "s\<lparr>di_dedup := dd, di_initial := (di_initial s)(updateIdentity u \<mapsto> u)\<rparr>"
    obtain d where d: "appendDeviceWithAID (di_devices s) (deviceFromUpdate u ?n) = Some (di_devices s @ [d])"
      using discovery_inv_new [OF assms(1) new(3,1) assms(2)] by blast
    have "discovery_inv (?s\<lparr>di_devices := di_devices s @ [d], di_discovered := True, di_timer := t\<rparr>)" for t
      using discovery_inv_new [OF assms(1) new(3,1) assms(2), where n = ?n and dd = dd
          and k = "updateIdentity u" and b = True and t = t] d by simp
    from this [of True] this [of "di_timer s"] new acc d show ?thesis
      by (auto simp: discover_update_def Let_def)
  qed (use assms inv acc in \<open>auto simp: discover_update_def\<close>)
qed

lemma discover_loop_inv:
  assumes "discover_loop mode s es = Some s'" and "discovery_inv s"
    and "length (di_devices s) + length es < 2147483646"
  shows "discovery_inv s'"
  using assms
proof (induction mode s es rule: discover_loop.induct)
  case (4 mode s now u es)
  obtain s1 b where s1: "discover_update mode now u s = Some (s1, b)" "discovery_inv s1"
    "length (di_devices s1) \<le> Suc (length (di_devices s))"
    using discover_update_inv [OF "4.prems"(2), of mode now u] "4.prems"(3) by auto
  with 4 show ?case
    by (cases b) auto
qed (auto split: if_splits)

text \<open>
  In the mode \<^verbatim>\<open>first\<close> the loop returns at the first device it finds; in the other modes it
  returns when the window has elapsed after that.
\<close>

definition finds :: "discovery_state \<Rightarrow> time \<Rightarrow> update \<Rightarrow> bool" where
  "finds s now u \<longleftrightarrow> supportedDiscoveryUpdate u \<and> fst (Accept now (di_dedup s) u)
     \<and> findDevice (di_devices s) u < 0"

lemma discover_update_finds:
  assumes "finds s now u" and "discovery_inv s" and "length (di_devices s) < 2147483646"
  shows "\<exists>s' d. discover_update mode now u s = Some (s', mode = DiscoveryModeFirst)
    \<and> di_devices s' = di_devices s @ [d] \<and> matches u d
    \<and> (mode \<noteq> DiscoveryModeFirst \<longrightarrow> di_timer s')"
proof -
  let ?n = "int (length (di_devices s)) + 1"
  have sup: "supportedDiscoveryUpdate u" and new: "findDevice (di_devices s) u < 0"
    using assms(1) by (simp_all add: finds_def)
  obtain d where d: "appendDeviceWithAID (di_devices s) (deviceFromUpdate u ?n) = Some (di_devices s @ [d])"
    and "matches u d"
    using discovery_inv_new [OF assms(2) new sup assms(3)] by blast
  then show ?thesis
    using assms(1) d \<open>matches u d\<close> by (auto simp: finds_def discover_update_def Let_def split: prod.splits)
qed

subsection \<open>The accessories HomeKit sees\<close>

lemma make_accessories_Cons:
  "make_accessories (d # ds) =
     (case NewDeviceAccessory d of Inl _ \<Rightarrow> make_accessories ds | Inr a \<Rightarrow> a # make_accessories ds)"
  by (simp add: make_accessories_def List.map_filter_simps split: sum.split)

lemma make_accessories_ok:
  "a \<in> set (make_accessories ds) \<Longrightarrow> accessory_ok a \<and> DeviceConfig a \<in> set ds
     \<and> accessory_aid a = accessoryID (DeviceConfig a)"
  by (induction ds) (auto simp: make_accessories_Cons make_accessories_def List.map_filter_simps(2)
      dest: NewDeviceAccessory_ok split: sum.splits)

lemma make_accessories_aids:
  "ready used ds \<Longrightarrow> distinct (map accessory_aid (make_accessories ds))"
proof (induction ds arbitrary: used)
  case Nil
  then show ?case
    by (simp add: make_accessories_def List.map_filter_simps)
next
  case (Cons d ds)
  then have IH: "distinct (map accessory_aid (make_accessories ds))"
    and aid: "2 \<le> d_aid d" and rest: "ready (insert (d_aid d) used) ds"
    by (auto simp: ready_Cons)
  show ?case
  proof (cases "NewDeviceAccessory d")
    case (Inl e)
    with IH show ?thesis
      by (simp add: make_accessories_Cons)
  next
    case (Inr a)
    have "accessory_aid a = d_aid d"
      using NewDeviceAccessory_ok [OF Inr] aid by (simp add: accessoryID_def)
    moreover have "accessory_aid b \<noteq> d_aid d" if "b \<in> set (make_accessories ds)" for b
      using make_accessories_ok [OF that] rest by (auto simp: accessoryID_def ready_def)
    then have "d_aid d \<notin> accessory_aid ` set (make_accessories ds)"
      by force
    ultimately show ?thesis
      using IH Inr by (simp add: make_accessories_Cons)
  qed
qed

lemma ready_sort: "ready used (sort_key f ds) \<longleftrightarrow> ready used ds"
proof -
  have "mset (map d_aid (sort_key f ds)) = mset (map d_aid ds)"
    by simp
  then have "distinct (map d_aid (sort_key f ds)) \<longleftrightarrow> distinct (map d_aid ds)"
    by (rule mset_eq_imp_distinct_iff)
  then show ?thesis
    by (simp add: ready_def)
qed

lemma discovery_inv_init:
  "discovery_inv \<lparr>di_devices = [], di_initial = Map.empty, di_dedup = dd, di_discovered = False,
     di_timer = False\<rparr>"
  by (simp add: discovery_inv_def ready_def separate_def)

lemma startup_ready:
  assumes "startup cfg saved es = Some (ds, s)"
    and "length (mergeDevices (c_devices cfg) saved) + length es < 2147483646"
  shows "ready {} ds"
proof -
  obtain devices m where p: "prepareDevices (mergeDevices (c_devices cfg) saved) = Some (devices, m)"
    and d: "discoverDevices cfg (NewDeduplicator (10 * minute)) devices es = Some s"
    and ds: "ds = sort_key deviceKey (di_devices s)"
    using assms(1) by (auto simp: startup_def split: option.splits prod.splits)
  have devices: "ready {} devices"
    using prepare_loop_ready [of "{}" "mergeDevices (c_devices cfg) saved"] p assms(2)
    by (auto simp: prepareDevices_def)
  have "ready {} (di_devices s)"
  proof (cases "devices = [] \<and> ds_mode (c_discovery cfg) \<noteq> DiscoveryModeManual")
    case False
    then have "di_devices s = devices"
      using d by (auto simp: discoverDevices_def split: if_splits)
    with devices show ?thesis
      by simp
  next
    case True
    with d have "discovery_inv s"
      by (intro discover_loop_inv [OF _ discovery_inv_init]) (use assms(2) in \<open>auto simp: discoverDevices_def\<close>)
    then show ?thesis
      by (simp add: discovery_inv_def)
  qed
  then show ?thesis
    by (simp add: ds ready_sort)
qed

end
