(* ===== verification/Restart.thy ===== *)
theory Restart
  imports Devices
begin

section \<open>The device list after a restart\<close>

text \<open>
  The list that \<^verbatim>\<open>run\<close> makes of the configured devices and of a registry it saved earlier,
  possibly reordered and with devices enrolled at its end: every device is there again with the
  same accessory id.
\<close>

lemma prepare_append:
  "prepare_loop used (xs @ ys) =
     (case prepare_loop used xs of
        None \<Rightarrow> None
      | Some (xs', c) \<Rightarrow>
          (case prepare_loop (d_aid ` set xs' \<union> used) ys of
             None \<Rightarrow> None
           | Some (ys', c') \<Rightarrow> Some (xs' @ ys', c \<or> c')))"
proof (induction xs arbitrary: used)
  case Nil
  then show ?case
    by (simp split: option.split)
next
  case (Cons x xs)
  then show ?case
    by (auto simp: Let_def split: option.splits prod.splits)
qed

lemma prepare_loop_same: "prepare_loop used ds = Some (ds', c) \<Longrightarrow> list_all2 same_device ds ds'"
proof (induction ds arbitrary: used ds' c)
  case (Cons d ds)
  obtain d1 c1 where d1: "infer_product d = (d1, c1)"
    by fastforce
  with Cons.prems obtain d2 c2 where d2: "assign_aid used d1 = Some (d2, c2)"
    by (auto split: option.splits)
  with Cons.prems d1 obtain es c3
    where rest: "prepare_loop (insert (d_aid d2) used) ds = Some (es, c3)" and ds': "ds' = d2 # es"
    by (auto split: option.splits)
  have "same_device d (d1\<lparr>d_aid := n\<rparr>)" for n
    using infer_product_device [OF d1] by (simp add: same_device_def)
  then have "same_device d d2"
    using assign_aid_device [OF d2] by metis
  with Cons.IH [OF rest] ds' show ?case
    by simp
qed simp

lemma foldl_add_new_filter:
  assumes "separate (filter keep xs)"
    and "\<And>x. x \<in> set xs \<Longrightarrow> keep x \<Longrightarrow> deviceKey x \<noteq> [] \<and> (\<forall>e \<in> set ds. \<not> conflict e x)"
    and "\<And>x. x \<in> set xs \<Longrightarrow> \<not> keep x \<Longrightarrow> deviceKey x = [] \<or> (\<exists>e \<in> set ds. conflict e x)"
  shows "foldl add_new ds xs = ds @ filter keep xs"
  using assms
proof (induction xs arbitrary: ds)
  case (Cons x xs)
  show ?case
  proof (cases "keep x")
    case True
    then have "add_new ds x = ds @ [x]"
      using Cons.prems(2) [of x] by (auto simp: add_new_def)
    moreover have "separate (filter keep xs)" "\<forall>y \<in> set (filter keep xs). \<not> conflict x y"
      using Cons.prems(1) True by (auto simp: separate_def)
    then have "foldl add_new (ds @ [x]) xs = (ds @ [x]) @ filter keep xs"
      using Cons.prems(2,3) by (intro Cons.IH) auto
    ultimately show ?thesis
      using True by simp
  next
    case False
    then have "add_new ds x = ds"
      using Cons.prems(3) [of x] by (auto simp: add_new_def)
    moreover have "foldl add_new ds xs = ds @ filter keep xs"
      using Cons.prems False by (intro Cons.IH) auto
    ultimately show ?thesis
      using False by simp
  qed
qed simp

lemma conflict_sym: "conflict d e \<longleftrightarrow> conflict e d"
  by (auto simp: conflict_def)

lemma separate_mset: "mset xs = mset ys \<Longrightarrow> separate xs \<Longrightarrow> separate ys"
proof (induction xs arbitrary: ys)
  case (Cons x xs)
  then have "x \<in> set ys"
    by (metis list.set_intros(1) mset_eq_setD)
  then obtain a b where ys: "ys = a @ x # b"
    by (metis split_list)
  with Cons.prems(1) have "mset xs = mset (a @ b)"
    by simp
  then have "separate (a @ b)" and "set xs = set (a @ b)"
    using Cons.IH [of "a @ b"] Cons.prems(2) mset_eq_setD [of xs "a @ b"] by (simp_all add: separate_def)
  then show ?case
    using Cons.prems(2) ys by (auto simp: separate_def sorted_wrt_append conflict_sym)
qed simp

lemma same_device_keys:
  "same_device d d' \<Longrightarrow> deviceKey d' = deviceKey d \<and> (conflict e d' \<longleftrightarrow> conflict e d) \<and> (conflict d' e \<longleftrightarrow> conflict d e)"
  by (simp add: same_device_def deviceKey_def conflict_def)

lemma subseq_distinct_map:
  "subseq xs ys \<Longrightarrow> set xs \<subseteq> set ys \<and> (distinct (map f ys) \<longrightarrow> distinct (map f xs))"
  by (induction rule: list_emb.induct) auto

lemma disjoint_sub: "A \<subseteq> B \<Longrightarrow> X \<inter> B = {} \<Longrightarrow> X \<inter> A = {}"
  by blast

lemma ready_append:
  assumes "\<And>d. d \<in> set xs \<union> set ys \<Longrightarrow> settled d \<and> 2 \<le> d_aid d"
    and "distinct (map d_aid xs)" and "distinct (map d_aid ys)"
    and "d_aid ` set xs \<inter> used = {}" and "d_aid ` set ys \<inter> used = {}" and "d_aid ` set xs \<inter> d_aid ` set ys = {}"
  shows "ready used (xs @ ys)"
  using assms unfolding ready_def by auto

text \<open>Merging the saved list again takes from it what was not configured, in the order in which it was saved.\<close>

lemma same_device_in:
  "list_all2 same_device xs ys \<Longrightarrow> y \<in> set ys \<Longrightarrow> \<exists>x \<in> set xs. same_device x y"
  by (auto simp: list_all2_conv_all_nth in_set_conv_nth) (metis nth_mem)

lemma not_configured:
  assumes "mset Q0 = mset (C' @ R)" and "distinct (map d_aid (C' @ R))"
  shows "mset (filter (\<lambda>x. x \<in> set R) Q0) = mset R"
proof -
  have "set C' \<inter> set R = {}"
    using assms(2) by auto
  then have "filter (\<lambda>x. x \<in> set R) C' = []" and "filter (\<lambda>x. x \<in> set R) R = R"
    by (auto simp: filter_empty_conv)
  moreover have "mset (filter (\<lambda>x. x \<in> set R) Q0) = mset (filter (\<lambda>x. x \<in> set R) (C' @ R))"
    unfolding mset_filter assms(1) ..
  ultimately show ?thesis
    by simp
qed

lemma merged_again:
  assumes "list_all2 same_device C C'" and "list_all2 same_device rest R" and "separate rest"
    and "\<forall>x \<in> set rest. deviceKey x \<noteq> [] \<and> (\<forall>e \<in> set C. \<not> conflict e x)"
    and "mset Q0 = mset (C' @ R)" and "distinct (map d_aid (C' @ R))"
  shows "foldl add_new C Q0 = C @ filter (\<lambda>x. x \<in> set R) Q0"
proof (rule foldl_add_new_filter)
  have members: "set Q0 = set C' \<union> set R"
    using mset_eq_setD [OF assms(5)] by simp
  have "separate R"
    using same_device_conflict [OF assms(2)] assms(3) by simp
  then show "separate (filter (\<lambda>x. x \<in> set R) Q0)"
    using separate_mset not_configured [OF assms(5,6)] by metis
  show "deviceKey x \<noteq> [] \<and> (\<forall>e \<in> set C. \<not> conflict e x)" if "x \<in> set Q0" "x \<in> set R" for x
    using same_device_in [OF assms(2) that(2)] assms(4) same_device_keys by metis
  show "deviceKey x = [] \<or> (\<exists>e \<in> set C. conflict e x)" if "x \<in> set Q0" "x \<notin> set R" for x
    using same_device_in [OF assms(1), of x] that members same_device_keys conflict_self by auto metis
qed

text \<open>Its devices keep their ids, and so do those that were enrolled since.\<close>

lemma ready_again:
  assumes "ready {} (Q0 @ es)" and "mset Q0 = mset (C' @ R)" and "mset R' = mset R" and "subseq es' es"
  shows "ready (d_aid ` set C') (R' @ es')"
proof -
  have "mset (map d_aid (C' @ R' @ es)) = mset (map d_aid (Q0 @ es))"
    using assms(2,3) by simp
  from mset_eq_imp_distinct_iff [OF this] assms(1) have dist: "distinct (map d_aid (C' @ R' @ es))"
    by (simp add: ready_def)
  have sub: "set es' \<subseteq> set es"
    using subseq_distinct_map [OF assms(4)] by blast
  have apart: "d_aid ` set C' \<inter> d_aid ` set R' = {}" "d_aid ` set C' \<inter> d_aid ` set es = {}"
      "d_aid ` set R' \<inter> d_aid ` set es = {}"
    using dist by (simp_all add: Int_Un_distrib)
  have "settled d \<and> 2 \<le> d_aid d" if "d \<in> set R' \<union> set es'" for d
    using assms(1) mset_eq_setD [OF assms(2)] mset_eq_setD [OF assms(3)] sub that by (auto simp: ready_def)
  moreover have "distinct (map d_aid R')" "distinct (map d_aid es')"
    using dist subseq_distinct_map [OF assms(4), of d_aid] by simp_all
  moreover note apart(1) disjoint_sub [OF image_mono [OF sub] apart(2)] disjoint_sub [OF image_mono [OF sub] apart(3)]
  ultimately show ?thesis
    by (intro ready_append) (simp_all add: Int_commute)
qed

text \<open>What merging adds to the configured devices is new to them and to one another.\<close>

lemma merge_rest:
  obtains rest where "mergeDevices C saved = C @ rest" and "separate rest"
    and "\<forall>x \<in> set rest. deviceKey x \<noteq> [] \<and> (\<forall>e \<in> set C. \<not> conflict e x)"
proof -
  have "\<exists>rest. foldl add_new C xs = C @ rest \<and> separate rest
      \<and> (\<forall>x \<in> set rest. deviceKey x \<noteq> [] \<and> (\<forall>e \<in> set C. \<not> conflict e x))" for xs
  proof (induction xs rule: rev_induct)
    case Nil
    then show ?case
      by (simp add: separate_def)
  next
    case (snoc x xs)
    then obtain rest where rest: "foldl add_new C xs = C @ rest" "separate rest"
        "\<forall>x \<in> set rest. deviceKey x \<noteq> [] \<and> (\<forall>e \<in> set C. \<not> conflict e x)"
      by blast
    have fold: "foldl add_new C (xs @ [x]) = add_new (C @ rest) x"
      by (simp add: rest(1))
    show ?case
      unfolding fold
    proof (cases "deviceKey x = [] \<or> (\<exists>e \<in> set (C @ rest). conflict e x)")
      case True
      then have "add_new (C @ rest) x = C @ rest"
        unfolding add_new_def by (rule if_P)
      with rest show "\<exists>rest'. add_new (C @ rest) x = C @ rest' \<and> separate rest'
          \<and> (\<forall>x \<in> set rest'. deviceKey x \<noteq> [] \<and> (\<forall>e \<in> set C. \<not> conflict e x))"
        by auto
    next
      case False
      then have "separate (rest @ [x])"
        using rest(2) by (auto simp: separate_def sorted_wrt_append)
      moreover have "add_new (C @ rest) x = C @ rest @ [x]"
        using False unfolding add_new_def by simp
      ultimately show "\<exists>rest'. add_new (C @ rest) x = C @ rest' \<and> separate rest'
          \<and> (\<forall>x \<in> set rest'. deviceKey x \<noteq> [] \<and> (\<forall>e \<in> set C. \<not> conflict e x))"
        using False rest(3) by (intro exI [of _ "rest @ [x]"]) auto
    qed
  qed
  then show ?thesis
    using that by (auto simp: mergeDevices_eq)
qed

text \<open>So the next start prepares the list of this one again, configured devices first, with every id as it was.\<close>

theorem restart_prepared:
  assumes "prepareDevices (mergeDevices C saved) = Some (P, m)"
    and "ready {} (Q0 @ es)" and "mset Q0 = mset P"
  shows "\<exists>Q m'. prepareDevices (mergeDevices C (Q0 @ es)) = Some (Q, m')
    \<and> set P \<subseteq> set Q \<and> set Q \<subseteq> set (Q0 @ es) \<and> take (length C) Q = take (length C) P"
proof -
  obtain rest where merged: "mergeDevices C saved = C @ rest" and rest: "separate rest"
    "\<forall>x \<in> set rest. deviceKey x \<noteq> [] \<and> (\<forall>e \<in> set C. \<not> conflict e x)"
    by (rule merge_rest)
  obtain C' c where C': "prepare_loop {} C = Some (C', c)"
    using assms(1) merged by (auto simp: prepareDevices_def prepare_append split: option.splits)
  with assms(1) merged obtain R c' where R: "prepare_loop (d_aid ` set C') rest = Some (R, c')" and P: "P = C' @ R"
    by (auto simp: prepareDevices_def prepare_append split: option.splits)
  have sameC: "list_all2 same_device C C'" and sameR: "list_all2 same_device rest R"
    using prepare_loop_same C' R by blast+
  have Q0: "mset Q0 = mset (C' @ R)"
    using assms(3) P by simp
  have dist: "distinct (map d_aid (C' @ R))"
    using mset_eq_imp_distinct_iff [of "map d_aid (C' @ R)" "map d_aid Q0"] Q0 assms(2) by (simp add: ready_def)
  let ?R = "filter (\<lambda>x. x \<in> set R) Q0"
  have msetR: "mset ?R = mset R"
    by (rule not_configured [OF Q0 dist])
  obtain es' where es': "foldl add_new (C @ ?R) es = (C @ ?R) @ es'" "subseq es' es"
    using add_new_prefix by blast
  have "mergeDevices C (Q0 @ es) = C @ ?R @ es'"
    using merged_again [OF sameC sameR rest Q0 dist] es'(1) by (simp add: mergeDevices_eq)
  moreover have "prepare_loop (d_aid ` set C') (?R @ es') = Some (?R @ es', False)"
    by (rule prepare_loop_settled [OF ready_again [OF assms(2) Q0 msetR es'(2)]])
  ultimately have "prepareDevices (mergeDevices C (Q0 @ es)) = Some (C' @ ?R @ es', c)"
    using C' by (simp add: prepareDevices_def prepare_append)
  moreover have "length C' = length C"
    using sameC by (simp add: list_all2_lengthD)
  moreover have "set es' \<subseteq> set es" "set ?R = set R" "set Q0 = set C' \<union> set R"
    using subseq_distinct_map [OF es'(2)] mset_eq_setD [OF msetR] mset_eq_setD [OF Q0] by auto
  ultimately show ?thesis
    using P by auto
qed

text \<open>A registry of separate, ready devices is taken over as it is when nothing is configured.\<close>

lemma merge_into_empty:
  assumes "separate P" and "\<forall>d \<in> set P. deviceKey d \<noteq> []" and "ready {} P"
  shows "prepareDevices (mergeDevices [] P) = Some (P, False)"
proof -
  have "foldl add_new [] P = [] @ filter (\<lambda>_. True) P"
    using assms(1,2) by (intro foldl_add_new_filter) simp_all
  then show ?thesis
    using prepare_loop_settled [OF assms(3)] by (simp add: mergeDevices_eq prepareDevices_def)
qed

end
