(* ===== verification/File_Store.thy ===== *)
theory File_Store
  imports Go_Text Go_Path "HOL-Library.Sublist" "HOL-Library.Multiset"
begin

section \<open>Files\<close>

text \<open>
  The operating system as \<^verbatim>\<open>internal/registry\<close>, \<^verbatim>\<open>internal/measurements\<close> and \<^verbatim>\<open>internal/config\<close>
  use it.  A store maps cleaned paths to regular files, and remembers every state the files went
  through, since the process may be killed between any two of them.  Directories are not
  represented: what depends on them is one of the ways a call may fail.

  Every call may fail.  Which calls do, how much of a failing \<^verbatim>\<open>write\<close> reaches the file and what
  the random source yields is fixed by a \<open>system\<close>, an argument of every operation, indexed by the
  number of calls made so far; what is proved holds for every system.  The system also ranks the
  keys of maps: \<open>enumeration\<close> is the order in which a \<^verbatim>\<open>range\<close> visits one.
\<close>

type_synonym file_mode = "9 word"

record file_node =
  fn_mode :: file_mode
  fn_text :: go_string

type_synonym files = "go_string \<rightharpoonup> file_node"

record system =
  sys_ok :: "nat \<Rightarrow> bool"
  sys_written :: "nat \<Rightarrow> nat"
  sys_random :: "nat \<Rightarrow> nat"
  sys_umask :: file_mode
  sys_rank :: "go_string \<Rightarrow> nat"

record store =
  st_files :: files
  st_calls :: nat
  st_history :: "files list"

datatype os_error = ErrNotExist | ErrExist | ErrOther

text \<open>\<^verbatim>\<open>0o600\<close>: reading and writing for the owner only.\<close>

definition private_mode :: file_mode where
  "private_mode = 0x180"

definition enumeration :: "system \<Rightarrow> (go_string \<times> 'a) list \<Rightarrow> (go_string \<times> 'a) list" where
  "enumeration sys entries = sort_key (\<lambda>e. sys_rank sys (fst e)) entries"

lemma enumeration_mset: "mset (enumeration sys entries) = mset entries"
  by (simp add: enumeration_def)

subsection \<open>System calls\<close>

text \<open>One call: the states it takes the files through, the last of which stays.\<close>

definition step :: "files list \<Rightarrow> store \<Rightarrow> store" where
  "step fs s = \<lparr>st_files = last (st_files s # fs), st_calls = Suc (st_calls s), st_history = st_history s @ fs\<rparr>"

definition call_ok :: "system \<Rightarrow> store \<Rightarrow> bool" where
  "call_ok sys s \<longleftrightarrow> sys_ok sys (st_calls s)"

type_synonym 'a outcome = "(os_error + 'a) \<times> store"

definition MkdirAll :: "system \<Rightarrow> go_string \<Rightarrow> store \<Rightarrow> unit outcome" where
  "MkdirAll sys path s = (if call_ok sys s then Inr () else Inl ErrOther, step [] s)"

definition ReadFile :: "system \<Rightarrow> go_string \<Rightarrow> store \<Rightarrow> go_string outcome" where
  "ReadFile sys path s =
     (case st_files s (path_Clean path) of
        None \<Rightarrow> Inl ErrNotExist
      | Some node \<Rightarrow> if call_ok sys s then Inr (fn_text node) else Inl ErrOther, step [] s)"

text \<open>\<^verbatim>\<open>OpenFile\<close> with \<^verbatim>\<open>O_CREATE|O_EXCL\<close> and mode \<^verbatim>\<open>0o600\<close>.\<close>

definition open_exclusive :: "system \<Rightarrow> go_string \<Rightarrow> store \<Rightarrow> unit outcome" where
  "open_exclusive sys path s =
     (if st_files s (path_Clean path) \<noteq> None then (Inl ErrExist, step [] s)
      else if \<not> call_ok sys s then (Inl ErrOther, step [] s)
      else (Inr (), step [(st_files s)(path_Clean path \<mapsto>
              \<lparr>fn_mode = and private_mode (not (sys_umask sys)), fn_text = []\<rparr>)] s))"

text \<open>
  \<^verbatim>\<open>os.CreateTemp\<close>: a random 32-bit number between the prefix and the suffix of the pattern, tried
  again up to 10000 times while the name is taken.
\<close>

definition temp_tries :: nat where
  "temp_tries = 10000"

definition join_path :: "go_string \<Rightarrow> go_string \<Rightarrow> go_string" where
  "join_path dir name = (if dir \<noteq> [] \<and> last dir = slash then dir @ name else dir @ slash # name)"

definition temp_name :: "system \<Rightarrow> go_string \<Rightarrow> go_string \<Rightarrow> store \<Rightarrow> go_string" where
  "temp_name sys pre suf s = pre @ itoa_nat (sys_random sys (st_calls s) mod 2 ^ 32) @ suf"

fun create_temp :: "system \<Rightarrow> nat \<Rightarrow> go_string \<Rightarrow> go_string \<Rightarrow> go_string \<Rightarrow> store \<Rightarrow> go_string outcome" where
  "create_temp sys 0 dir pre suf s = (Inl ErrExist, s)"
| "create_temp sys (Suc n) dir pre suf s =
     (let name = join_path dir (temp_name sys pre suf s)
      in case open_exclusive sys name s of
           (Inr _, s') \<Rightarrow> (Inr name, s')
         | (Inl ErrExist, s') \<Rightarrow> create_temp sys n dir pre suf s'
         | (Inl e, s') \<Rightarrow> (Inl e, s'))"

definition CreateTemp :: "system \<Rightarrow> go_string \<Rightarrow> go_string \<Rightarrow> go_string \<Rightarrow> store \<Rightarrow> go_string outcome" where
  "CreateTemp sys dir pre suf s = create_temp sys temp_tries dir pre suf s"

text \<open>Operations on the open file, named by the path it was created under.\<close>

definition Chmod :: "system \<Rightarrow> go_string \<Rightarrow> file_mode \<Rightarrow> store \<Rightarrow> unit outcome" where
  "Chmod sys path mode s =
     (if call_ok sys s
      then (Inr (), step [(st_files s)(path_Clean path :=
              map_option (fn_mode_update (\<lambda>_. mode)) (st_files s (path_Clean path)))] s)
      else (Inl ErrOther, step [] s))"

text \<open>A write may be cut anywhere, by an error or by the end of the process.\<close>

definition writing :: "go_string \<Rightarrow> go_string \<Rightarrow> nat \<Rightarrow> files \<Rightarrow> files list" where
  "writing path data n files =
     map (\<lambda>k. files(path_Clean path := map_option (fn_text_update (\<lambda>_. take k data)) (files (path_Clean path))))
       [0..<Suc n]"

definition Write :: "system \<Rightarrow> go_string \<Rightarrow> go_string \<Rightarrow> store \<Rightarrow> unit outcome" where
  "Write sys path data s =
     (if call_ok sys s then (Inr (), step (writing path data (length data) (st_files s)) s)
      else (Inl ErrOther, step (writing path data (sys_written sys (st_calls s)) (st_files s)) s))"

definition Close :: "system \<Rightarrow> store \<Rightarrow> unit outcome" where
  "Close sys s = (if call_ok sys s then Inr () else Inl ErrOther, step [] s)"

definition Rename :: "system \<Rightarrow> go_string \<Rightarrow> go_string \<Rightarrow> store \<Rightarrow> unit outcome" where
  "Rename sys old new s =
     (case st_files s (path_Clean old) of
        None \<Rightarrow> (Inl ErrNotExist, step [] s)
      | Some node \<Rightarrow>
          if call_ok sys s
          then (Inr (), step [(st_files s)(path_Clean old := None, path_Clean new \<mapsto> node)] s)
          else (Inl ErrOther, step [] s))"

definition Remove :: "system \<Rightarrow> go_string \<Rightarrow> store \<Rightarrow> unit outcome" where
  "Remove sys path s =
     (case st_files s (path_Clean path) of
        None \<Rightarrow> (Inl ErrNotExist, step [] s)
      | Some node \<Rightarrow>
          if call_ok sys s then (Inr (), step [(st_files s)(path_Clean path := None)] s)
          else (Inl ErrOther, step [] s))"

subsection \<open>Replacing a file\<close>

text \<open>
  What \<^verbatim>\<open>registry.Save\<close>, \<^verbatim>\<open>State.Save\<close> and \<^verbatim>\<open>config.writeJSON\<close> do alike: the directory is made, the
  text is encoded, written to a temporary file of the same directory, and the file renamed.  The
  deferred \<^verbatim>\<open>os.Remove\<close> runs on every way out once the temporary file exists.
\<close>

datatype save_error = MkdirFailed os_error | EncodeFailed | TempFailed os_error | WriteFailed os_error
  | RenameFailed os_error

definition write_temp ::
  "system \<Rightarrow> go_string \<Rightarrow> go_string \<Rightarrow> go_string \<Rightarrow> store \<Rightarrow> (save_error + unit) \<times> store" where
  "write_temp sys tmp path text s =
     (case Chmod sys tmp private_mode s of
        (Inl e, s) \<Rightarrow> (Inl (WriteFailed e), snd (Close sys s))
      | (Inr _, s) \<Rightarrow>
          (case Write sys tmp text s of
             (Inl e, s) \<Rightarrow> (Inl (WriteFailed e), snd (Close sys s))
           | (Inr _, s) \<Rightarrow>
               (case Close sys s of
                  (Inl e, s) \<Rightarrow> (Inl (WriteFailed e), s)
                | (Inr _, s) \<Rightarrow>
                    (case Rename sys tmp path s of
                       (Inl e, s) \<Rightarrow> (Inl (RenameFailed e), s)
                     | (Inr _, s) \<Rightarrow> (Inr (), s)))))"

definition replace_file ::
  "system \<Rightarrow> go_string \<Rightarrow> go_string \<Rightarrow> go_string option \<Rightarrow> store \<Rightarrow> (save_error + unit) \<times> store" where
  "replace_file sys pre path text s =
     (case MkdirAll sys (path_Dir path) s of
        (Inl e, s) \<Rightarrow> (Inl (MkdirFailed e), s)
      | (Inr _, s) \<Rightarrow>
          (case text of
             None \<Rightarrow> (Inl EncodeFailed, s)
           | Some b \<Rightarrow>
               (case CreateTemp sys (path_Dir path) pre ''.tmp'' s of
                  (Inl e, s) \<Rightarrow> (Inl (TempFailed e), s)
                | (Inr tmp, s) \<Rightarrow>
                    (case write_temp sys tmp path b s of
                       (r, s) \<Rightarrow> (r, snd (Remove sys tmp s))))))"

subsection \<open>Names of temporary files\<close>

lemma split_slash_nonempty [simp]: "split_slash s \<noteq> []"
  by (induction s) (auto split: list.split)

lemma split_slash_append: "split_slash (a @ slash # b) = split_slash a @ split_slash b"
  by (induction a) (auto split: list.split)

lemma split_slash_plain: "slash \<notin> set s \<Longrightarrow> split_slash s = [s]"
  by (induction s) auto

lemma join_slash_suffix: "suffix name (join_slash (es @ [name]))"
  by (induction es rule: join_slash.induct) (auto simp: suffix_def)

definition plain_name :: "go_string \<Rightarrow> bool" where
  "plain_name name \<longleftrightarrow> slash \<notin> set name \<and> name \<noteq> [] \<and> name \<noteq> ''.'' \<and> name \<noteq> ''..''"

lemma join_slash_Cons: "es \<noteq> [] \<Longrightarrow> join_slash (e # es) = e @ slash # join_slash es"
  by (cases es) simp_all

lemma join_slash_nonempty: "name \<noteq> [] \<Longrightarrow> join_slash (es @ [name]) \<noteq> []"
  by (induction es rule: join_slash.induct) auto

text \<open>Cleaning a path keeps its last element.\<close>

lemma path_Clean_elements:
  assumes "plain_name name"
  shows "\<exists>es. path_Clean (a @ slash # name) = (if is_rooted (a @ slash # name) then [slash] else []) @ join_slash (es @ [name])"
proof -
  let ?p = "a @ slash # name"
  have "split_slash ?p = split_slash a @ [name]"
    using assms by (simp add: split_slash_append split_slash_plain plain_name_def)
  then obtain kept where "foldl (clean_step (is_rooted ?p)) [] (split_slash ?p) = name # kept"
    using assms by (simp add: clean_step_def plain_name_def)
  then have "path_Clean ?p = (if is_rooted ?p then [slash] else []) @ join_slash (rev kept @ [name])"
    using join_slash_nonempty [of name "rev kept"] assms by (simp add: path_Clean_def plain_name_def)
  then show ?thesis
    by blast
qed

lemma path_Clean_last: "plain_name name \<Longrightarrow> suffix name (path_Clean (a @ slash # name))"
  using path_Clean_elements [of name a] join_slash_suffix by (auto simp: suffix_append)

lemma path_Clean_plain: "plain_name name \<Longrightarrow> path_Clean name = name"
  by (cases name) (auto simp: is_rooted_def path_Clean_def split_slash_plain plain_name_def clean_step_def)

lemma path_Clean_join:
  assumes "plain_name name"
  shows "suffix name (path_Clean (join_path dir name))"
proof -
  have "\<exists>a. join_path dir name = a @ slash # name"
    unfolding join_path_def by (metis append.assoc append_Cons append_Nil append_butlast_last_id)
  with path_Clean_last [OF assms] show ?thesis
    by auto
qed

text \<open>A prefix of a temporary name that makes it an ordinary file name.\<close>

definition temp_prefix :: "go_string \<Rightarrow> bool" where
  "temp_prefix pre \<longleftrightarrow> slash \<notin> set pre"

definition is_temp :: "go_string \<Rightarrow> bool" where
  "is_temp q \<longleftrightarrow> suffix ''.tmp'' q"

lemma digit_not_slash: "list_all is_digit s \<Longrightarrow> slash \<notin> set s"
  by (auto simp: list_all_iff is_digit_def slash_def char_code_def)

lemma temp_name_plain: "temp_prefix pre \<Longrightarrow> plain_name (temp_name sys pre ''.tmp'' s)"
  using digit_not_slash [of "itoa_nat n" for n] itoa_nat_digits
  by (auto simp: plain_name_def temp_prefix_def temp_name_def slash_def)

lemma temp_path_is_temp:
  assumes "temp_prefix pre"
  shows "is_temp (path_Clean (join_path dir (temp_name sys pre ''.tmp'' s)))"
proof -
  have "suffix ''.tmp'' (temp_name sys pre ''.tmp'' s)"
    by (simp add: temp_name_def suffix_def)
  with path_Clean_join [OF temp_name_plain [OF assms]] show ?thesis
    unfolding is_temp_def by (rule suffix_order.trans [rotated])
qed

subsection \<open>What a call leaves alone\<close>

text \<open>
  From one store to a later one, the file at \<open>q\<close> is in \<open>A\<close> at every moment.
\<close>

definition stays_in :: "file_node option set \<Rightarrow> go_string \<Rightarrow> store \<Rightarrow> store \<Rightarrow> bool" where
  "stays_in A q s s' \<longleftrightarrow> (\<exists>h. st_history s' = st_history s @ h \<and> (\<forall>f \<in> set h. f q \<in> A)) \<and> st_files s' q \<in> A"

lemma stays_in_trans: "stays_in A q s s' \<Longrightarrow> stays_in A q s' s'' \<Longrightarrow> stays_in A q s s''"
  by (fastforce simp: stays_in_def)

lemma stays_in_refl: "st_files s q \<in> A \<Longrightarrow> stays_in A q s s"
  by (simp add: stays_in_def)

lemma stays_in_mono: "stays_in A q s s' \<Longrightarrow> A \<subseteq> B \<Longrightarrow> stays_in B q s s'"
  by (fastforce simp: stays_in_def)

lemma stays_in_final: "stays_in A q s s' \<Longrightarrow> st_files s' q \<in> A"
  by (simp add: stays_in_def)

lemma stays_in_step: "st_files s q \<in> A \<Longrightarrow> (\<And>f. f \<in> set fs \<Longrightarrow> f q \<in> A) \<Longrightarrow> stays_in A q s (step fs s)"
  by (cases fs rule: rev_cases) (auto simp: stays_in_def step_def)

text \<open>What a reader may find who looks at any moment between two stores, or after the process died.\<close>

definition moment :: "store \<Rightarrow> store \<Rightarrow> files \<Rightarrow> bool" where
  "moment s s' f \<longleftrightarrow> f = st_files s \<or> f = st_files s' \<or> (\<exists>h h'. st_history s' = st_history s @ h @ f # h')"

lemma stays_in_moment: "stays_in A q s s' \<Longrightarrow> moment s s' f \<Longrightarrow> f q \<in> insert (st_files s q) A"
  by (auto simp: stays_in_def moment_def)

lemma step_fields [simp]:
  "st_files (step [] s) = st_files s" "st_files (step [f] s) = f" "st_calls (step fs s) = Suc (st_calls s)"
  "st_history (step fs s) = st_history s @ fs"
  by (simp_all add: step_def)

lemma writing_other: "f \<in> set (writing tmp data n files) \<Longrightarrow> q \<noteq> path_Clean tmp \<Longrightarrow> f q = files q"
  by (auto simp: writing_def)

lemma last_writing:
  "last (x # writing tmp data n files)
     = files(path_Clean tmp := map_option (fn_text_update (\<lambda>_. take n data)) (files (path_Clean tmp)))"
  by (simp add: writing_def)

lemma step_writing:
  "st_files (step (writing tmp data n files) s)
     = files(path_Clean tmp := map_option (fn_text_update (\<lambda>_. take n data)) (files (path_Clean tmp)))"
  using last_writing [of "st_files s" tmp data n files] by (simp add: step_def)

lemma calls_stay:
  assumes "st_files s q \<in> A"
  shows "stays_in A q s (snd (MkdirAll sys path s))"
    and "stays_in A q s (snd (ReadFile sys path s))"
    and "stays_in A q s (snd (Close sys s))"
    and "q \<noteq> path_Clean path \<Longrightarrow> stays_in A q s (snd (open_exclusive sys path s))"
    and "q \<noteq> path_Clean path \<Longrightarrow> stays_in A q s (snd (Chmod sys path mode s))"
    and "q \<noteq> path_Clean path \<Longrightarrow> stays_in A q s (snd (Write sys path data s))"
    and "q \<noteq> path_Clean path \<Longrightarrow> stays_in A q s (snd (Remove sys path s))"
    and "q \<noteq> path_Clean path \<Longrightarrow> q \<noteq> path_Clean new \<Longrightarrow> stays_in A q s (snd (Rename sys path new s))"
  using assms
  by (auto simp: MkdirAll_def ReadFile_def Close_def open_exclusive_def Chmod_def Write_def Remove_def
      Rename_def writing_other intro!: stays_in_step split: option.split)

lemma create_temp_stays:
  assumes "create_temp sys n dir pre ''.tmp'' s = (r, s')" and "st_files s q \<in> A"
    and "temp_prefix pre" and "\<not> is_temp q"
  shows "stays_in A q s s'"
  using assms(1,2)
proof (induction n arbitrary: s)
  case 0
  then show ?case
    by (simp add: stays_in_refl)
next
  case (Suc n)
  let ?name = "join_path dir (temp_name sys pre ''.tmp'' s)"
  obtain r1 s1 where op: "open_exclusive sys ?name s = (r1, s1)"
    by fastforce
  have "q \<noteq> path_Clean ?name"
    using temp_path_is_temp [OF assms(3)] assms(4) by metis
  then have one: "stays_in A q s s1"
    using calls_stay(4) [OF Suc.prems(2), where sys = sys and path = ?name] op by simp
  show ?case
  proof (cases "r1 = Inl ErrExist")
    case True
    then have "stays_in A q s1 s'"
      using Suc op stays_in_final [OF one] by (simp add: Let_def)
    with one show ?thesis
      by (rule stays_in_trans)
  next
    case False
    with Suc.prems(1) op have "s' = s1"
      by (auto simp: Let_def split: sum.splits os_error.splits)
    with one show ?thesis
      by simp
  qed
qed

text \<open>The file created is new, and its name that of a temporary file.\<close>

lemma create_temp_new:
  assumes "create_temp sys n dir pre ''.tmp'' s = (Inr tmp, s')" and "temp_prefix pre"
  shows "is_temp (path_Clean tmp) \<and> st_files s (path_Clean tmp) = None \<and> st_files s' (path_Clean tmp) \<noteq> None
    \<and> (\<forall>q. q \<noteq> path_Clean tmp \<longrightarrow> st_files s' q = st_files s q)"
  using assms(1)
proof (induction n arbitrary: s)
  case (Suc n)
  let ?name = "join_path dir (temp_name sys pre ''.tmp'' s)"
  obtain r1 s1 where op: "open_exclusive sys ?name s = (r1, s1)"
    by fastforce
  show ?case
  proof (cases "r1 = Inl ErrExist")
    case True
    then have "st_files s1 = st_files s"
      using op by (auto simp: open_exclusive_def split: if_splits)
    moreover have "create_temp sys n dir pre ''.tmp'' s1 = (Inr tmp, s')"
      using Suc.prems True op by (simp add: Let_def)
    note Suc.IH [OF this]
    ultimately show ?thesis
      by simp
  next
    case False
    with Suc.prems op have "tmp = ?name" "s' = s1" "r1 = Inr ()"
      by (auto simp: Let_def split: sum.splits os_error.splits)
    with op temp_path_is_temp [OF assms(2)] show ?thesis
      by (auto simp: open_exclusive_def split: if_splits)
  qed
qed simp

subsection \<open>What replacing a file does\<close>

definition new_node :: "go_string \<Rightarrow> file_node" where
  "new_node text = \<lparr>fn_mode = private_mode, fn_text = text\<rparr>"

lemma Chmod_Write:
  assumes "Chmod sys tmp private_mode s = (Inr x, s1)" and "Write sys tmp text s1 = (Inr y, s2)"
    and "st_files s (path_Clean tmp) \<noteq> None"
  shows "st_files s2 (path_Clean tmp) = Some (new_node text)"
    and "q \<noteq> path_Clean tmp \<Longrightarrow> st_files s2 q = st_files s q"
  using assms by (auto simp: Chmod_def Write_def step_writing new_node_def split: if_splits)

text \<open>The ways out of \<open>write_temp\<close>: before the file is renamed, or with it.\<close>

lemma write_temp_cases:
  assumes "write_temp sys tmp path text s = (r, s')"
  obtains (fails) "r \<noteq> Inr ()" "\<And>q A. q \<noteq> path_Clean tmp \<Longrightarrow> st_files s q \<in> A \<Longrightarrow> stays_in A q s s'"
    | (renames) s3 x where "Rename sys tmp path s3 = (x, s')" "r = Inr () \<longleftrightarrow> x = Inr ()"
      "\<And>q A. q \<noteq> path_Clean tmp \<Longrightarrow> st_files s q \<in> A \<Longrightarrow> stays_in A q s s3"
      "st_files s (path_Clean tmp) \<noteq> None \<Longrightarrow> st_files s3 (path_Clean tmp) = Some (new_node text)"
proof -
  obtain r1 s1 where chmod: "Chmod sys tmp private_mode s = (r1, s1)" by fastforce
  obtain r2 s2 where wr: "Write sys tmp text s1 = (r2, s2)" by fastforce
  obtain r3 s3 where cl: "Close sys s2 = (r3, s3)" by fastforce
  obtain r4 s4 where rename: "Rename sys tmp path s3 = (r4, s4)" by fastforce
  obtain c1 where close1: "snd (Close sys s1) = c1" by simp
  have p1: "stays_in A q s s1" if "q \<noteq> path_Clean tmp" "st_files s q \<in> A" for q A
    using calls_stay(5) [OF that(2,1), where sys = sys and mode = private_mode] chmod by simp
  have c1: "stays_in A q s c1" if "q \<noteq> path_Clean tmp" "st_files s q \<in> A" for q A
    using stays_in_trans [OF p1 [OF that] calls_stay(3) [OF stays_in_final [OF p1 [OF that]], where sys = sys]] close1
    by simp
  have p2: "stays_in A q s s2" if "q \<noteq> path_Clean tmp" "st_files s q \<in> A" for q A
    using stays_in_trans [OF p1 [OF that] calls_stay(6) [OF stays_in_final [OF p1 [OF that]] that(1), where sys = sys]] wr
    by (metis snd_conv)
  have p3: "stays_in A q s s3" if "q \<noteq> path_Clean tmp" "st_files s q \<in> A" for q A
    using stays_in_trans [OF p2 [OF that] calls_stay(3) [OF stays_in_final [OF p2 [OF that]], where sys = sys]] cl by simp
  consider "r \<noteq> Inr ()" "s' = c1 \<or> s' = s3"
    | x y where "r1 = Inr x" "r2 = Inr y" "s' = s4" "r = Inr () \<longleftrightarrow> r4 = Inr ()"
    using assms chmod wr cl rename close1 by (auto simp: write_temp_def split: sum.splits)
  then show thesis
  proof cases
    case 1
    with fails c1 p3 show thesis
      by blast
  next
    case 2
    have "st_files s3 = st_files s2"
      using cl by (auto simp: Close_def)
    with 2 rename p3 Chmod_Write(1) [of sys tmp s _ s1 "text" _ s2] chmod wr show thesis
      by (intro renames [of s3 r4]) simp_all
  qed
qed

lemma write_temp_other:
  assumes "write_temp sys tmp path text s = (r, s')" and "q \<noteq> path_Clean tmp" and "q \<noteq> path_Clean path"
    and "st_files s q \<in> A"
  shows "stays_in A q s s'"
  using assms(1)
proof (cases rule: write_temp_cases)
  case fails
  with assms(2,4) show ?thesis
    by blast
next
  case (renames s3 x)
  note p3 = renames(3) [OF assms(2,4)]
  show ?thesis
    using stays_in_trans [OF p3 calls_stay(8) [OF stays_in_final [OF p3] assms(2,3), where sys = sys]] renames(1) by simp
qed

lemma Rename_target:
  assumes "Rename sys tmp path s = (r, s')" and "st_files s (path_Clean tmp) = Some n"
  shows "stays_in {st_files s (path_Clean path), Some n} (path_Clean path) s s'"
    and "r = Inr () \<Longrightarrow> st_files s' = (st_files s)(path_Clean tmp := None, path_Clean path \<mapsto> n)"
    and "r \<noteq> Inr () \<Longrightarrow> st_files s' = st_files s"
  using assms by (auto simp: Rename_def intro!: stays_in_step split: if_splits)

lemma write_temp_target:
  assumes "write_temp sys tmp path text s = (r, s')" and "path_Clean path \<noteq> path_Clean tmp"
    and "st_files s (path_Clean tmp) \<noteq> None"
    and A: "A = {st_files s (path_Clean path), Some (new_node text)}"
  shows "stays_in A (path_Clean path) s s'"
    and "r = Inr () \<longrightarrow> st_files s' = (st_files s)(path_Clean tmp := None, path_Clean path \<mapsto> new_node text)"
    and "r \<noteq> Inr () \<longrightarrow> st_files s' (path_Clean path) = st_files s (path_Clean path)"
proof -
  let ?q = "path_Clean path"
  have "stays_in A ?q s s'
      \<and> (r = Inr () \<longrightarrow> st_files s' = (st_files s)(path_Clean tmp := None, ?q \<mapsto> new_node text))
      \<and> (r \<noteq> Inr () \<longrightarrow> st_files s' ?q = st_files s ?q)"
    using assms(1)
  proof (cases rule: write_temp_cases)
    case fails
    with fails(2) [of ?q "{st_files s ?q}"] fails(2) [of ?q A] assms(2) stays_in_final A show ?thesis
      by fastforce
  next
    case (renames s3 x)
    note moved = Rename_target [OF renames(1) renames(4) [OF assms(3)]]
    have same: "st_files s3 q = st_files s q" if "q \<noteq> path_Clean tmp" for q
      using stays_in_final [OF renames(3) [OF that, of "{st_files s q}"]] by simp
    have "stays_in A ?q s s'"
      using stays_in_trans [OF renames(3) [OF assms(2)]] moved(1) same [OF assms(2)] A by simp
    moreover have "st_files s' = (st_files s)(path_Clean tmp := None, ?q \<mapsto> new_node text)" if "r = Inr ()"
      using moved(2) renames(2) that same by (auto simp: fun_eq_iff)
    ultimately show ?thesis
      using moved(3) renames(2) same [OF assms(2)] by simp
  qed
  then show "stays_in A ?q s s'"
    and "r = Inr () \<longrightarrow> st_files s' = (st_files s)(path_Clean tmp := None, ?q \<mapsto> new_node text)"
    and "r \<noteq> Inr () \<longrightarrow> st_files s' ?q = st_files s ?q"
    by simp_all
qed

definition target :: "go_string \<Rightarrow> bool" where
  "target path \<longleftrightarrow> \<not> is_temp (path_Clean path)"

text \<open>What may be found at the path while a text is being saved there.\<close>

definition old_or_new :: "store \<Rightarrow> go_string \<Rightarrow> go_string option \<Rightarrow> file_node option set" where
  "old_or_new s path text = insert (st_files s (path_Clean path)) ((\<lambda>b. Some (new_node b)) ` set_option text)"

lemma create_temp_failed:
  "create_temp sys n dir pre ''.tmp'' s = (Inl e, s') \<Longrightarrow> st_files s' = st_files s"
proof (induction n arbitrary: s)
  case (Suc n)
  let ?name = "join_path dir (temp_name sys pre ''.tmp'' s)"
  obtain r1 s1 where op: "open_exclusive sys ?name s = (r1, s1)"
    by fastforce
  show ?case
  proof (cases r1)
    case (Inl e1)
    then have "st_files s1 = st_files s"
      using op by (auto simp: open_exclusive_def split: if_splits)
    with Suc op Inl show ?thesis
      by (auto simp: Let_def split: os_error.splits)
  qed (use Suc.prems op in \<open>simp add: Let_def\<close>)
qed simp

text \<open>The ways out of \<open>replace_file\<close>.\<close>

lemma replace_file_cases:
  assumes "replace_file sys pre path text s = (r, s')" and "temp_prefix pre"
  obtains (early) e where "r = Inl e" "st_files s' = st_files s"
      "\<And>q A. \<not> is_temp q \<Longrightarrow> st_files s q \<in> A \<Longrightarrow> stays_in A q s s'"
    | (temp) b tmp s1 s2 where "text = Some b" "is_temp (path_Clean tmp)"
      "st_files s (path_Clean tmp) = None" "st_files s1 (path_Clean tmp) \<noteq> None"
      "\<And>q. q \<noteq> path_Clean tmp \<Longrightarrow> st_files s1 q = st_files s q"
      "\<And>q A. \<not> is_temp q \<Longrightarrow> st_files s q \<in> A \<Longrightarrow> stays_in A q s s1"
      "write_temp sys tmp path b s1 = (r, s2)" "s' = snd (Remove sys tmp s2)"
proof -
  obtain r0 s0 where mk: "MkdirAll sys (path_Dir path) s = (r0, s0)" by fastforce
  have same0: "st_files s0 = st_files s"
    using mk by (auto simp: MkdirAll_def)
  have p0: "stays_in A q s s0" if "st_files s q \<in> A" for q A
    using calls_stay(1) [OF that, where sys = sys and path = "path_Dir path"] mk by simp
  show ?thesis
  proof (cases "\<exists>b. r0 = Inr () \<and> text = Some b")
    case False
    then have "s' = s0" "\<exists>e. r = Inl e"
      using assms(1) mk by (auto simp: replace_file_def split: sum.splits option.splits)
    with early same0 p0 show ?thesis
      by blast
  next
    case True
    then obtain b where b: "text = Some b" and r0: "r0 = Inr ()"
      by blast
    obtain r1 s1 where ct: "CreateTemp sys (path_Dir path) pre ''.tmp'' s0 = (r1, s1)" by fastforce
    have p1: "stays_in A q s s1" if "\<not> is_temp q" "st_files s q \<in> A" for q A
      using stays_in_trans [OF p0 [OF that(2)] create_temp_stays [OF ct [unfolded CreateTemp_def] _ assms(2) that(1)]]
        that(2) same0 by simp
    show ?thesis
    proof (cases r1)
      case (Inl e)
      then have "s' = s1" "r = Inl (TempFailed e)"
        using assms(1) mk r0 b ct by (simp_all add: replace_file_def)
      with early p1 create_temp_failed [OF ct [unfolded CreateTemp_def Inl]] same0 show ?thesis
        by auto
    next
      case (Inr tmp)
      obtain r2 s2 where wt: "write_temp sys tmp path b s1 = (r2, s2)" by fastforce
      then have "r = r2" "s' = snd (Remove sys tmp s2)"
        using assms(1) mk r0 b ct Inr by (simp_all add: replace_file_def)
      with temp [OF b _ _ _ _ p1, of tmp] create_temp_new [OF ct [unfolded CreateTemp_def Inr] assms(2)] wt same0
      show ?thesis
        by simp
    qed
  qed
qed

lemma Remove_renamed:
  assumes "st_files s2 = (st_files s1)(path_Clean tmp := None, q \<mapsto> n)"
    and "\<And>q. q \<noteq> path_Clean tmp \<Longrightarrow> st_files s1 q = st_files s q" and "st_files s (path_Clean tmp) = None"
    and "q \<noteq> path_Clean tmp"
  shows "st_files (snd (Remove sys tmp s2)) = (st_files s)(q \<mapsto> n)"
proof -
  have "st_files s2 = (st_files s)(q \<mapsto> n)"
    using assms(1-3) by (auto simp: fun_eq_iff)
  with assms(3,4) show ?thesis
    by (simp add: Remove_def)
qed

theorem replace_file_target:
  assumes "replace_file sys pre path text s = (r, s')" and "temp_prefix pre" and "target path"
  shows "stays_in (old_or_new s path text) (path_Clean path) s s'"
    and "r = Inr () \<longrightarrow> (\<exists>b. text = Some b \<and> st_files s' = (st_files s)(path_Clean path \<mapsto> new_node b))"
    and "r \<noteq> Inr () \<longrightarrow> st_files s' (path_Clean path) = st_files s (path_Clean path)"
proof -
  let ?q = "path_Clean path"
  have q: "\<not> is_temp ?q"
    using assms(3) by (simp add: target_def)
  have old: "st_files s ?q \<in> old_or_new s path text"
    by (simp add: old_or_new_def)
  have "stays_in (old_or_new s path text) ?q s s'
      \<and> (r = Inr () \<longrightarrow> (\<exists>b. text = Some b \<and> st_files s' = (st_files s)(?q \<mapsto> new_node b)))
      \<and> (r \<noteq> Inr () \<longrightarrow> st_files s' ?q = st_files s ?q)"
  proof (rule replace_file_cases [OF assms(1,2)])
    fix e
    assume "r = Inl e" "st_files s' = st_files s"
      "\<And>q A. \<not> is_temp q \<Longrightarrow> st_files s q \<in> A \<Longrightarrow> stays_in A q s s'"
    with q old show ?thesis
      by simp
  next
    fix b tmp s1 s2
    assume b: "text = Some b" and tmp: "is_temp (path_Clean tmp)" "st_files s (path_Clean tmp) = None"
        "st_files s1 (path_Clean tmp) \<noteq> None" and others: "\<And>q. q \<noteq> path_Clean tmp \<Longrightarrow> st_files s1 q = st_files s q"
      and p1: "\<And>q A. \<not> is_temp q \<Longrightarrow> st_files s q \<in> A \<Longrightarrow> stays_in A q s s1"
      and wt: "write_temp sys tmp path b s1 = (r, s2)" and s': "s' = snd (Remove sys tmp s2)"
    have neq: "?q \<noteq> path_Clean tmp"
      using q tmp(1) by metis
    note target = write_temp_target [OF wt neq tmp(3) refl]
    have "old_or_new s path text = {st_files s1 ?q, Some (new_node b)}"
      using b others [OF neq] by (auto simp: old_or_new_def)
    then have p2: "stays_in (old_or_new s path text) ?q s s2"
      using stays_in_trans [OF p1 [OF q old]] target(1) by simp
    have p3: "stays_in (old_or_new s path text) ?q s s'"
      using stays_in_trans [OF p2 calls_stay(7) [OF stays_in_final [OF p2] neq, where sys = sys]] s' by simp
    have "st_files s' ?q = st_files s2 ?q"
      using s' neq by (auto simp: Remove_def split: option.split)
    moreover have "st_files s' = (st_files s)(?q \<mapsto> new_node b)" if "r = Inr ()"
      using Remove_renamed [OF target(2) [rule_format, OF that] others tmp(2) neq] s' by simp
    ultimately show ?thesis
      using p3 b target(3) others [OF neq] by simp
  qed
  then show "stays_in (old_or_new s path text) ?q s s'"
    and "r = Inr () \<longrightarrow> (\<exists>b. text = Some b \<and> st_files s' = (st_files s)(?q \<mapsto> new_node b))"
    and "r \<noteq> Inr () \<longrightarrow> st_files s' ?q = st_files s ?q"
    by simp_all
qed

theorem replace_file_others:
  assumes "replace_file sys pre path text s = (r, s')" and "temp_prefix pre"
    and "\<not> is_temp q" and "q \<noteq> path_Clean path"
  shows "stays_in {st_files s q} q s s'"
proof (rule replace_file_cases [OF assms(1,2)])
  fix b tmp s1 s2
  assume tmp: "is_temp (path_Clean tmp)"
    and p1: "\<And>q A. \<not> is_temp q \<Longrightarrow> st_files s q \<in> A \<Longrightarrow> stays_in A q s s1"
    and wt: "write_temp sys tmp path b s1 = (r, s2)" and s': "s' = snd (Remove sys tmp s2)"
  have neq: "q \<noteq> path_Clean tmp"
    using assms(3) tmp by metis
  have p: "stays_in {st_files s q} q s s1"
    using p1 [OF assms(3)] by simp
  have p2: "stays_in {st_files s q} q s s2"
    using stays_in_trans [OF p write_temp_other [OF wt neq assms(4) stays_in_final [OF p]]] .
  show ?thesis
    using stays_in_trans [OF p2 calls_stay(7) [OF stays_in_final [OF p2] neq, where sys = sys]] s' by simp
qed (use assms(3) in simp)

text \<open>A failed save leaves nothing behind, unless removing the temporary file fails as well.\<close>

theorem replace_file_clean:
  assumes "replace_file sys pre path text s = (r, s')" and "temp_prefix pre" and "target path"
    and "r \<noteq> Inr ()" and "sys_ok sys (st_calls s' - 1)"
  shows "st_files s' = st_files s"
proof (rule replace_file_cases [OF assms(1,2)])
  fix b tmp s1 s2
  assume tmp: "is_temp (path_Clean tmp)" "st_files s (path_Clean tmp) = None"
      "st_files s1 (path_Clean tmp) \<noteq> None" and others: "\<And>q. q \<noteq> path_Clean tmp \<Longrightarrow> st_files s1 q = st_files s q"
    and wt: "write_temp sys tmp path b s1 = (r, s2)" and s': "s' = snd (Remove sys tmp s2)"
  have neq: "path_Clean path \<noteq> path_Clean tmp"
    using assms(3) tmp(1) by (metis target_def)
  have rest: "st_files s2 q = st_files s q" if "q \<noteq> path_Clean tmp" for q
    using that write_temp_target(3) [OF wt neq tmp(3) refl] assms(4) others
      stays_in_final [OF write_temp_other [OF wt that _ singletonI]] by (cases "q = path_Clean path") simp_all
  have "st_calls s' = Suc (st_calls s2)"
    by (simp add: s' Remove_def split: option.split)
  with assms(5) have "call_ok sys s2"
    by (simp add: call_ok_def)
  with s' have "st_files s' = (st_files s2)(path_Clean tmp := None)"
    by (auto simp: Remove_def fun_eq_iff split: option.split)
  with rest tmp(2) show "st_files s' = st_files s"
    by (auto simp: fun_eq_iff)
qed

text \<open>When no call fails and one of the names tried is free, the file is saved.\<close>

definition temp_path :: "system \<Rightarrow> go_string \<Rightarrow> go_string \<Rightarrow> nat \<Rightarrow> go_string" where
  "temp_path sys dir pre k = join_path dir (pre @ itoa_nat (sys_random sys k mod 2 ^ 32) @ ''.tmp'')"

lemma create_temp_finds:
  assumes "i < n" and "st_files s (path_Clean (temp_path sys dir pre (st_calls s + i))) = None"
    and "\<And>k. sys_ok sys k"
  shows "\<exists>tmp s'. create_temp sys n dir pre ''.tmp'' s = (Inr tmp, s')"
  using assms(1,2)
proof (induction n arbitrary: s i)
  case (Suc n)
  let ?name = "join_path dir (temp_name sys pre ''.tmp'' s)"
  show ?case
  proof (cases "st_files s (path_Clean ?name)")
    case None
    then show ?thesis
      by (simp add: open_exclusive_def call_ok_def assms(3) Let_def)
  next
    case (Some node)
    then have "i \<noteq> 0"
      using Suc.prems(2) by (cases i) (auto simp: temp_path_def temp_name_def)
    then obtain j where "i = Suc j"
      by (cases i) simp_all
    with Suc.IH [of j "step [] s"] Suc.prems Some show ?thesis
      by (simp add: open_exclusive_def Let_def)
  qed
qed simp

theorem replace_file_succeeds:
  assumes "\<And>k. sys_ok sys k" and "temp_prefix pre" and "target path" and "i < temp_tries"
    and "st_files s (path_Clean (temp_path sys (path_Dir path) pre (Suc (st_calls s + i)))) = None"
  shows "\<exists>s'. replace_file sys pre path (Some b) s = (Inr (), s')"
proof -
  have ok: "call_ok sys s" for s
    by (simp add: call_ok_def assms(1))
  have mk: "MkdirAll sys (path_Dir path) s = (Inr (), step [] s)"
    by (simp add: MkdirAll_def ok)
  have "\<exists>tmp s'. create_temp sys temp_tries (path_Dir path) pre ''.tmp'' (step [] s) = (Inr tmp, s')"
    using assms(5) by (intro create_temp_finds [OF assms(4) _ assms(1)]) simp
  then obtain tmp s1 where ct: "create_temp sys temp_tries (path_Dir path) pre ''.tmp'' (step [] s) = (Inr tmp, s1)"
    by blast
  note tmp = create_temp_new [OF ct assms(2)]
  obtain s2 where chmod: "Chmod sys tmp private_mode s1 = (Inr (), s2)"
    by (simp add: Chmod_def ok)
  obtain s3 where wr: "Write sys tmp b s2 = (Inr (), s3)"
    by (simp add: Write_def ok)
  have "st_files s3 (path_Clean tmp) = Some (new_node b)"
    using Chmod_Write [OF chmod wr] tmp by simp
  then have "\<exists>s4. write_temp sys tmp path b s1 = (Inr (), s4)"
    by (simp add: write_temp_def chmod wr Close_def Rename_def ok)
  with mk ct show ?thesis
    by (auto simp: replace_file_def CreateTemp_def)
qed

end
