(* ===== verification/Go_Double.thy ===== *)
theory Go_Double
  imports Go_Float
begin

section \<open>Doubles and the decimals near them\<close>

text \<open>
  A rational is a double when rounding leaves it alone.  Every result of \<open>fl64\<close> is one, and a
  decimal closer to a double than one part in \<open>2 ^ 54\<close> is read as that double: this is why
  seventeen digits are always enough to print one.
\<close>

definition is_double :: "rat \<Rightarrow> bool" where
  "is_double q \<longleftrightarrow> fl64 q = Fin q"

definition double_value :: "f64 \<Rightarrow> bool" where
  "double_value v \<longleftrightarrow> (case v of Fin q \<Rightarrow> is_double q | _ \<Rightarrow> False)"

lemma round_half_even_near: "\<bar>x - of_int n\<bar> < 1 / 2 \<Longrightarrow> round_half_even x = n"
proof -
  assume near: "\<bar>x - of_int n\<bar> < 1 / 2"
  then have "\<bar>of_int (round_half_even x) - (of_int n :: rat)\<bar> < 1"
    using round_half_even_error [of x] by linarith
  then have "of_int \<bar>round_half_even x - n\<bar> < (of_int 1 :: rat)"
    by simp
  then show ?thesis
    by linarith
qed

lemma round_half_even_minus: "round_half_even (- x) = - round_half_even x"
proof -
  define f where "f = \<lfloor>x\<rfloor>"
  have f: "of_int f \<le> x" "x < of_int f + 1"
    using floor_correct [of x] by (simp_all add: f_def)
  consider "x = of_int f" | "x - of_int f = 1 / 2" | "x \<noteq> of_int f" "x - of_int f \<noteq> 1 / 2"
    by blast
  then show ?thesis
  proof cases
    case 1
    then show ?thesis
      by (metis of_int_minus round_half_even_int)
  next
    case 2
    have "\<lfloor>- x\<rfloor> = - f - 1"
      using 2 by (simp add: floor_eq_iff)
    with 2 show ?thesis
      by (simp add: round_half_even_def Let_def f_def [symmetric])
  next
    case 3
    define n where "n = (if x - of_int f < 1 / 2 then f else f + 1)"
    have "\<bar>x - of_int n\<bar> < 1 / 2"
      using 3 f by (auto simp: n_def abs_less_iff)
    then have "\<bar>- x - of_int (- n)\<bar> < 1 / 2"
      by (simp add: abs_minus_commute)
    with \<open>\<bar>x - of_int n\<bar> < 1 / 2\<close> show ?thesis
      using round_half_even_near [of x n] round_half_even_near [of "- x" "- n"] by simp
  qed
qed

lemma fl64_minus_Fin: "fl64 q = Fin v \<Longrightarrow> fl64 (- q) = Fin (- v)"
  by (auto simp: fl64_def last_place_def Let_def round_half_even_minus split: if_splits)

lemma is_double_minus [simp]: "is_double (- q) \<longleftrightarrow> is_double q"
  using fl64_minus_Fin [of q q] fl64_minus_Fin [of "- q" "- q"] by (auto simp: is_double_def)

lemma is_double_zero [simp]: "is_double 0"
  by (simp add: is_double_def fl64_def)

lemma is_double_int: "\<bar>n\<bar> < 2 ^ 53 \<Longrightarrow> is_double (of_int n)"
  by (simp add: is_double_def fl64_int)

lemma fl64_rounds:
  assumes "y \<noteq> 0" and "\<bar>y / pow2 (last_place y) - of_int n\<bar> < 1 / 2"
    and "of_int n * pow2 (last_place y) = q" and "\<bar>q\<bar> < pow2 1024"
  shows "fl64 y = Fin q"
  using assms round_half_even_near [OF assms(2)] by (simp add: fl64_def Let_def)

lemma ilog2_unique:
  assumes "pow2 k \<le> q" and "q < pow2 (k + 1)"
  shows "ilog2 q = k"
proof -
  have q: "0 < q"
    using assms(1) pow2_pos [of k] by linarith
  then have "ilog2 q < k + 1"
    using assms(2) by (rule ilog2_less)
  moreover have "pow2 k < pow2 (ilog2 q + 1)"
    using ilog2_bounds(2) [OF q] assms(1) by linarith
  then have "k < ilog2 q + 1"
    by (simp add: pow2_less_iff)
  ultimately show ?thesis
    by linarith
qed

lemma double_mantissa:
  assumes "is_double q" and "0 < q"
  obtains m where "q = of_int m * pow2 (last_place q)" and "1 \<le> m" and "m < 2 ^ 53" and "q < pow2 1024"
proof -
  define e where "e = last_place q"
  define m where "m = round_half_even (q / pow2 e)"
  have q: "q = of_int m * pow2 e" and "q < pow2 1024"
    using assms by (auto simp: is_double_def fl64_def Let_def e_def m_def split: if_splits)
  have "0 < (of_int m :: rat)"
    using q assms(2) pow2_pos [of e] by (metis zero_less_mult_pos2)
  then have "1 \<le> m"
    by simp
  have "ilog2 q + 1 \<le> 53 + e"
    using assms(2) by (simp add: e_def last_place_def)
  then have "pow2 (ilog2 q + 1) \<le> pow2 53 * pow2 e"
    by (metis pow2_add pow2_mono)
  then have "of_int m * pow2 e < pow2 53 * pow2 e"
    using ilog2_bounds(2) [OF assms(2)] q by linarith
  then have "(of_int m :: rat) < pow2 53"
    using pow2_pos [of e] by simp
  then have "(of_int m :: rat) < of_int (2 ^ 53)"
    by (simp add: pow2_def)
  then have "m < 2 ^ 53"
    by (simp only: of_int_less_iff)
  with q \<open>1 \<le> m\<close> \<open>q < pow2 1024\<close> show ?thesis
    using that [of m] by (simp add: e_def)
qed

lemma last_place_le_ilog2:
  assumes "is_double q" and "0 < q"
  shows "last_place q \<le> ilog2 q"
proof -
  obtain m where q: "q = of_int m * pow2 (last_place q)" "1 \<le> m"
    using double_mantissa [OF assms] by blast
  have "1 * pow2 (last_place q) \<le> of_int m * pow2 (last_place q)"
    using q(2) by (intro mult_right_mono) simp_all
  then have "pow2 (last_place q) < pow2 (ilog2 q + 1)"
    using ilog2_bounds(2) [OF assms(2)] q(1) by linarith
  then show ?thesis
    by (simp add: pow2_less_iff)
qed

text \<open>Comparing multiples of the same power of two.\<close>

lemma multiple_pow2_iff:
  "of_int m * pow2 e < of_int n * pow2 e \<longleftrightarrow> m < n" "of_int m * pow2 e \<le> of_int n * pow2 e \<longleftrightarrow> m \<le> n"
  using pow2_pos [of e] by simp_all

text \<open>A number rounds to the nearest multiple of the place that its own last digit has.\<close>

lemma fl64_near_multiple:
  assumes "q = of_int m * pow2 (last_place y)" and "0 < q" and "q < pow2 1024"
    and "\<bar>y - q\<bar> < pow2 (last_place y) / 2" and "y \<noteq> 0"
  shows "fl64 y = Fin q"
proof -
  let ?e = "last_place y"
  have "y / pow2 ?e - of_int m = (y - q) / pow2 ?e"
    by (subst assms(1)) (simp add: field_simps)
  then have "\<bar>y / pow2 ?e - of_int m\<bar> = \<bar>y - q\<bar> / pow2 ?e"
    by simp
  then have "\<bar>y / pow2 ?e - of_int m\<bar> < 1 / 2"
    using assms(4) pow2_pos [of ?e] by (simp add: field_simps)
  with assms(1-3,5) show ?thesis
    by (intro fl64_rounds [of _ m]) simp_all
qed

lemma fl64_near_same:
  assumes "is_double q" and "0 < q" and "\<bar>y - q\<bar> < pow2 (last_place q) / 2" and "last_place y = last_place q"
    and "y \<noteq> 0"
  shows "fl64 y = Fin q"
proof -
  obtain m where "q = of_int m * pow2 (last_place q)" "q < pow2 1024"
    using double_mantissa [OF assms(1,2)] by blast
  with assms show ?thesis
    by (intro fl64_near_multiple [of _ m]) simp_all
qed

text \<open>A neighbour of a double is in the same binade, above it, or just below the power of two that the double is.\<close>

lemma neighbour_above:
  assumes "is_double q" and "0 < q" and "\<bar>y - q\<bar> < pow2 (last_place q) / 2" and "pow2 (ilog2 q) \<le> y"
  shows "last_place y = last_place q"
proof -
  define e where "e = last_place q"
  define k where "k = ilog2 q"
  obtain m where q: "q = of_int m * pow2 e"
    using double_mantissa [OF assms(1,2)] unfolding e_def by blast
  have "e \<le> k"
    using last_place_le_ilog2 [OF assms(1,2)] by (simp add: k_def e_def)
  then have top: "pow2 (k + 1) = of_int (2 ^ nat (k + 1 - e)) * pow2 e"
    using pow2_add [of "k + 1 - e" e] by (simp add: pow2_def)
  have "m < 2 ^ nat (k + 1 - e)"
    using ilog2_bounds(2) [OF assms(2)] by (simp only: k_def [symmetric] top) (simp only: q multiple_pow2_iff)
  then have "of_int (m + 1) * pow2 e \<le> pow2 (k + 1)"
    by (simp only: top multiple_pow2_iff)
  then have "q + pow2 e \<le> pow2 (k + 1)"
    by (simp add: q distrib_right)
  then have "y < pow2 (k + 1)"
    using assms(3) pow2_pos [of e] unfolding abs_less_iff e_def by linarith
  with assms(4) have "ilog2 y = k"
    by (intro ilog2_unique) (simp_all add: k_def)
  moreover have "0 < y"
    using assms(4) pow2_pos [of "ilog2 q"] by linarith
  ultimately show ?thesis
    using assms(2) by (simp add: last_place_def k_def)
qed

lemma neighbour_below:
  assumes "is_double q" and "0 < q" and "\<bar>y - q\<bar> < pow2 (last_place q) / 2" and "y < pow2 (ilog2 q)"
    and "last_place q = ilog2 q - 52"
  shows "q = pow2 (ilog2 q)"
proof -
  let ?e = "last_place q"
  obtain m where q: "q = of_int m * pow2 ?e"
    using double_mantissa [OF assms(1,2)] by blast
  have top: "pow2 (ilog2 q) = of_int (2 ^ 52) * pow2 ?e"
    using pow2_add [of 52 ?e] assms(5) by (simp add: pow2_def)
  have "of_int m * pow2 ?e < of_int (2 ^ 52) * pow2 ?e + pow2 ?e"
    using assms(3,4) pow2_pos [of ?e] unfolding abs_less_iff top [symmetric] q [symmetric] by linarith
  then have "of_int m * pow2 ?e < of_int (2 ^ 52 + 1) * pow2 ?e"
    by (simp add: distrib_right)
  moreover have "of_int (2 ^ 52) * pow2 ?e \<le> of_int m * pow2 ?e"
    using ilog2_bounds(1) [OF assms(2)] by (simp only: top q [symmetric])
  ultimately have "m = 2 ^ 52"
    unfolding multiple_pow2_iff by linarith
  with q top show ?thesis
    by simp
qed

lemma fl64_near_power:
  assumes "\<bar>y - pow2 k\<bar> < pow2 (k - 54)" and "y < pow2 k" and "- 1022 < k" and "k < 1024"
  shows "fl64 y = Fin (pow2 k)"
proof -
  have two: "pow2 k = of_int (2 ^ 53) * pow2 (k - 53)" "pow2 k = 2 * pow2 (k - 1)" "pow2 (k - 53) = 2 * pow2 (k - 54)"
    using pow2_add [of 53 "k - 53"] pow2_add [of 1 "k - 1"] pow2_add [of 1 "k - 54"] by (simp_all add: pow2_def)
  have "pow2 (k - 54) \<le> pow2 (k - 1)"
    by (rule pow2_mono) simp
  then have above: "pow2 (k - 1) \<le> y"
    using assms(1) two(2) unfolding abs_less_iff by linarith
  then have "ilog2 y = k - 1"
    using assms(2) by (intro ilog2_unique) simp_all
  moreover have "0 < y"
    using above pow2_pos [of "k - 1"] by linarith
  ultimately have "last_place y = k - 53"
    using assms(3) by (simp add: last_place_def)
  moreover have "pow2 k < pow2 1024"
    using assms(4) by (rule pow2_strict_mono)
  ultimately show ?thesis
    using assms(1) two(1,3) \<open>0 < y\<close> by (intro fl64_near_multiple [of _ "2 ^ 53"]) simp_all
qed

theorem fl64_near:
  assumes "is_double q" and "0 < q" and near: "\<bar>y - q\<bar> < q / 2 ^ 54"
  shows "fl64 y = Fin q"
proof -
  define e where "e = last_place q"
  define k where "k = ilog2 q"
  obtain m where q: "q = of_int m * pow2 e" and m: "m < 2 ^ 53" and max: "q < pow2 1024"
    using double_mantissa [OF assms(1,2)] unfolding e_def by blast
  have k: "pow2 k \<le> q" and e: "e = max (- 1074) (k - 52)"
    using ilog2_bounds(1) [OF assms(2)] assms(2) by (simp_all add: k_def e_def last_place_def)
  have "q / 2 ^ 54 < 2 ^ 53 * pow2 e / 2 ^ 54"
    using m by (subst q) (simp add: divide_strict_right_mono)
  then have half: "\<bar>y - q\<bar> < pow2 (last_place q) / 2"
    using near by (simp add: e_def)
  have "q / 2 ^ 54 < q"
    using assms(2) by simp
  then have y: "0 < y"
    using near unfolding abs_less_iff by linarith
  consider "pow2 k \<le> y" | "y < pow2 k" "k - 52 \<le> - 1074" | "y < pow2 k" "- 1022 < k"
    by linarith
  then show ?thesis
  proof cases
    case 1
    with neighbour_above [OF assms(1,2) half] y show ?thesis
      by (intro fl64_near_same [OF assms(1,2) half]) (simp_all add: k_def)
  next
    case 2
    have "ilog2 y < k"
      using y 2(1) by (rule ilog2_less)
    with 2(2) y assms(2) have "last_place y = last_place q"
      by (simp add: last_place_def k_def)
    with y show ?thesis
      by (intro fl64_near_same [OF assms(1,2) half]) simp_all
  next
    case 3
    have "q = pow2 k"
      using neighbour_below [OF assms(1,2) half] 3 e by (simp add: k_def e_def)
    moreover from this max have "k < 1024"
      by (simp add: pow2_less_iff)
    moreover have "pow2 k / 2 ^ 54 = pow2 (k - 54)"
      using pow2_add [of 54 "k - 54"] by (simp add: pow2_def)
    ultimately show ?thesis
      using fl64_near_power [of y k] near 3 by simp
  qed
qed

subsection \<open>Rounding yields doubles\<close>

lemma dyadic_double:
  assumes q: "q = of_int m * pow2 e" and m: "\<bar>m\<bar> < 2 ^ 53" and e: "- 1074 \<le> e" and max: "\<bar>q\<bar> < pow2 1024"
  shows "is_double q"
proof (cases "q = 0")
  case False
  have "(of_int \<bar>m\<bar> :: rat) < of_int (2 ^ 53)"
    using m by (simp only: of_int_less_iff)
  then have "\<bar>of_int m :: rat\<bar> < pow2 53"
    by (simp add: pow2_def)
  then have "\<bar>q\<bar> < pow2 (53 + e)"
    by (simp add: q abs_mult pow2_add)
  then have "ilog2 \<bar>q\<bar> < 53 + e"
    using False by (intro ilog2_less) simp_all
  then have lp: "last_place q \<le> e"
    using e by (simp add: last_place_def)
  define l where "l = last_place q"
  have "pow2 e = 2 ^ nat (e - l) * pow2 l"
    using lp pow2_add [of "e - l" l] by (simp add: pow2_def l_def)
  then have ql: "q = of_int (m * 2 ^ nat (e - l)) * pow2 l"
    by (simp add: q)
  then have "q / pow2 l = of_int (m * 2 ^ nat (e - l))"
    by (simp only:) simp
  then have "\<bar>q / pow2 l - of_int (m * 2 ^ nat (e - l))\<bar> < 1 / 2"
    by simp
  then have "fl64 q = Fin q"
    unfolding l_def by (rule fl64_rounds [OF False _ _ max]) (rule ql [unfolded l_def, symmetric])
  then show ?thesis
    by (simp only: is_double_def)
qed simp

lemma dyadic_double_le:
  assumes "q = of_int m * pow2 e" and "\<bar>m\<bar> \<le> 2 ^ 53" and "- 1074 \<le> e" and "\<bar>q\<bar> < pow2 1024"
  shows "is_double q"
proof (cases "\<bar>m\<bar> = 2 ^ 53")
  case True
  then have "m = 2 * (sgn m * 2 ^ 52)"
    by (auto simp: abs_if sgn_if split: if_splits)
  then have "q = of_int (sgn m * 2 ^ 52) * pow2 (e + 1)"
    using assms(1) pow2_add [of e 1] by (simp add: pow2_def)
  moreover have "\<bar>sgn m * 2 ^ 52\<bar> < 2 ^ 53"
    by (simp add: abs_mult sgn_if)
  moreover have "- 1074 \<le> e + 1"
    using assms(3) by simp
  ultimately show ?thesis
    using assms(4) by (rule dyadic_double)
next
  case False
  with assms show ?thesis
    by (intro dyadic_double [of q m e]) simp_all
qed

theorem fl64_double: "fl64 q = Fin v \<Longrightarrow> is_double v"
proof (cases "q = 0")
  case True
  assume "fl64 q = Fin v"
  with True show ?thesis
    by (simp add: fl64_def)
next
  case False
  define e where "e = last_place q"
  define r where "r = round_half_even (q / pow2 e)"
  assume "fl64 q = Fin v"
  with False have v: "v = of_int r * pow2 e" and max: "\<bar>v\<bar> < pow2 1024"
    by (auto simp: fl64_def Let_def e_def r_def split: if_splits)
  have "\<bar>q\<bar> < pow2 (ilog2 \<bar>q\<bar> + 1)"
    using False by (intro ilog2_bounds) simp
  also have "\<dots> \<le> pow2 (53 + e)"
    by (rule pow2_mono) (simp add: e_def last_place_def)
  finally have "\<bar>q / pow2 e\<bar> < 2 ^ 53"
    using pow2_pos [of e] by (simp add: pow2_add field_simps pow2_def [of 53])
  then have "\<bar>of_int r :: rat\<bar> < 2 ^ 53 + 1"
    using round_half_even_error [of "q / pow2 e"] unfolding r_def abs_less_iff abs_le_iff by linarith
  then have "of_int \<bar>r\<bar> < (of_int (2 ^ 53 + 1) :: rat)"
    by simp
  then have "\<bar>r\<bar> < 2 ^ 53 + 1"
    by (simp only: of_int_less_iff)
  with v max show ?thesis
    by (intro dyadic_double_le [of _ r e]) (simp_all add: e_def last_place_def)
qed

lemma ParseFloat_double: "ParseFloat s = Some v \<Longrightarrow> double_value v"
  by (auto simp: ParseFloat_def double_value_def split: option.splits f64.splits dest: fl64_double)

lemma round_tenth_double: "round_tenth v = Fin q \<Longrightarrow> is_double q"
  by (cases "math_Round (f64_times10 v)") (auto simp: round_tenth_def dest: fl64_double)

end
