(* ===== verification/Go_Utf8.thy ===== *)
theory Go_Utf8
  imports Go_Text
begin

section \<open>UTF-8 and quoted JSON strings\<close>

text \<open>
  \<^verbatim>\<open>utf8.DecodeRune\<close> as far as the program needs it (how many bytes the first character has),
  the replacement of invalid bytes by U+FFFD, and the two string functions of
  \<^verbatim>\<open>encoding/json\<close>: \<^verbatim>\<open>appendString\<close> with HTML escaping, which \<^verbatim>\<open>MarshalIndent\<close> uses, and
  \<^verbatim>\<open>unquote\<close> with the scanner's checks.  Quoting and unquoting gives back the string with its
  invalid bytes replaced.
\<close>

subsection \<open>Characters of several bytes\<close>

definition between :: "nat \<Rightarrow> nat \<Rightarrow> char \<Rightarrow> bool" where
  "between lo hi c \<longleftrightarrow> lo \<le> char_code c \<and> char_code c \<le> hi"

text \<open>The length of the well-formed character a string begins with, 0 if there is none.\<close>

definition rune_len :: "go_string \<Rightarrow> nat" where
  "rune_len s =
     (case s of
        [] \<Rightarrow> 0
      | a # r \<Rightarrow>
          let n = char_code a
          in if n < 128 then 1
             else if 194 \<le> n \<and> n \<le> 223 then
               (case r of
                  [] \<Rightarrow> 0
                | b # _ \<Rightarrow> if between 128 191 b then 2 else 0)
             else if 224 \<le> n \<and> n \<le> 239 then
               (case r of
                  b # c # _ \<Rightarrow>
                    if between (if n = 224 then 160 else 128) (if n = 237 then 159 else 191) b
                       \<and> between 128 191 c then 3 else 0
                | _ \<Rightarrow> 0)
             else if 240 \<le> n \<and> n \<le> 244 then
               (case r of
                  b # c # d # _ \<Rightarrow>
                    if between (if n = 240 then 144 else 128) (if n = 244 then 143 else 191) b
                       \<and> between 128 191 c \<and> between 128 191 d then 4 else 0
                | _ \<Rightarrow> 0)
             else 0)"

definition replacement :: go_string where
  "replacement = map char_of [239, 191, 189 :: nat]"

fun to_valid_utf8 :: "go_string \<Rightarrow> go_string" where
  "to_valid_utf8 [] = []"
| "to_valid_utf8 (c # s) =
     (let n = rune_len (c # s)
      in if n = 0 then replacement @ to_valid_utf8 s
         else take n (c # s) @ to_valid_utf8 (drop (n - 1) s))"

declare to_valid_utf8.simps [simp del]

lemma to_valid_utf8_Nil [simp]: "to_valid_utf8 [] = []"
  by (simp add: to_valid_utf8.simps)

definition valid_utf8 :: "go_string \<Rightarrow> bool" where
  "valid_utf8 s \<longleftrightarrow> to_valid_utf8 s = s"

definition is_ascii :: "go_string \<Rightarrow> bool" where
  "is_ascii s \<longleftrightarrow> list_all (\<lambda>c. char_code c < 128) s"

lemma rune_len_ascii [simp]: "char_code c < 128 \<Longrightarrow> rune_len (c # s) = 1"
  by (simp add: rune_len_def)

lemma rune_len_pos_iff: "rune_len (c # s) = 1 \<longleftrightarrow> char_code c < 128"
  unfolding rune_len_def Let_def by (simp split: list.split)

lemma rune_len_le: "rune_len s \<le> length s"
  unfolding rune_len_def Let_def by (simp split: list.split)

text \<open>Only the bytes of the character itself count.\<close>

lemma rune_len_2: "rune_len (a # b # t) = 2 \<longleftrightarrow> 194 \<le> char_code a \<and> char_code a \<le> 223 \<and> between 128 191 b"
  unfolding rune_len_def Let_def list.case by (cases t; cases "tl t") simp_all

lemma rune_len_3:
  "rune_len (a # b # c # t) = 3 \<longleftrightarrow> 224 \<le> char_code a \<and> char_code a \<le> 239
     \<and> between (if char_code a = 224 then 160 else 128) (if char_code a = 237 then 159 else 191) b
     \<and> between 128 191 c"
  unfolding rune_len_def Let_def list.case by (cases t) simp_all

lemma rune_len_4:
  "rune_len (a # b # c # d # t) = 4 \<longleftrightarrow> 240 \<le> char_code a \<and> char_code a \<le> 244
     \<and> between (if char_code a = 240 then 144 else 128) (if char_code a = 244 then 143 else 191) b
     \<and> between 128 191 c \<and> between 128 191 d"
  unfolding rune_len_def Let_def list.case by (auto split: if_splits)

lemma rune_len_bound: "rune_len s \<le> 4"
  unfolding rune_len_def Let_def by (simp split: list.split)

lemma rune_len_take:
  assumes "rune_len s = n" and "0 < n"
  shows "rune_len (take n s @ r) = n"
proof -
  obtain a t where s: "s = a # t"
    using assms rune_len_le [of s] by (cases s) auto
  consider "n = 1" | "n = 2" | "n = 3" | "n = 4"
    using assms rune_len_bound [of s] by linarith
  then show ?thesis
  proof cases
    case 1
    then show ?thesis
      using assms(1) by (simp add: s rune_len_pos_iff take_Cons' del: One_nat_def)
  next
    case 2
    moreover obtain b u where "t = b # u"
      using rune_len_le [of s] assms(1) 2 s by (cases t) auto
    ultimately show ?thesis
      using assms(1) by (simp add: s rune_len_2)
  next
    case 3
    moreover obtain b c u where "t = b # c # u"
      using rune_len_le [of s] assms(1) 3 s by (cases t; cases "tl t") auto
    ultimately show ?thesis
      using assms(1) by (simp add: s rune_len_3)
  next
    case 4
    moreover obtain b c d u where "t = b # c # d # u"
      using rune_len_le [of s] assms(1) 4 s by (cases t; cases "tl t"; cases "tl (tl t)") auto
    ultimately show ?thesis
      using assms(1) by (simp add: s rune_len_4)
  qed
qed

lemma rune_len_replacement [simp]: "rune_len (replacement @ s) = 3"
  by (simp add: rune_len_def replacement_def char_code_char_of between_def)

lemma to_valid_utf8_step:
  assumes "rune_len s = n" and "0 < n"
  shows "to_valid_utf8 (take n s @ r) = take n s @ to_valid_utf8 r"
proof -
  obtain c t where s: "s = c # t"
    using assms rune_len_le [of s] by (cases s) auto
  obtain m where n: "n = Suc m"
    using assms(2) by (cases n) auto
  have "length (take m t) = m"
    using rune_len_le [of s] assms(1) by (simp add: s n)
  then show ?thesis
    using rune_len_take [OF assms, of r] by (simp add: s n to_valid_utf8.simps)
qed

lemma to_valid_utf8_replacement [simp]: "to_valid_utf8 (replacement @ s) = replacement @ to_valid_utf8 s"
proof -
  have "take 3 (replacement @ s) = replacement"
    by (simp add: replacement_def)
  with to_valid_utf8_step [OF rune_len_replacement, of s s] show ?thesis
    by (simp del: take_append)
qed

lemma to_valid_utf8_cases:
  obtains (bad) "rune_len (c # s) = 0" "to_valid_utf8 (c # s) = replacement @ to_valid_utf8 s"
  | (good) "0 < rune_len (c # s)"
      "to_valid_utf8 (c # s) = take (rune_len (c # s)) (c # s) @ to_valid_utf8 (drop (rune_len (c # s)) (c # s))"
proof (cases "rune_len (c # s)")
  case 0
  then show ?thesis
    by (intro bad) (simp_all add: to_valid_utf8.simps Let_def)
next
  case (Suc n)
  then show ?thesis
    by (intro good) (simp_all add: to_valid_utf8.simps Let_def)
qed

lemma to_valid_utf8_idem [simp]: "to_valid_utf8 (to_valid_utf8 s) = to_valid_utf8 s"
proof (induction "length s" arbitrary: s rule: less_induct)
  case less
  show ?case
  proof (cases s)
    case Nil
    then show ?thesis by simp
  next
    case (Cons c t)
    show ?thesis
    proof (cases rule: to_valid_utf8_cases [of c t])
      case bad
      then show ?thesis
        using less [of t] Cons by simp
    next
      case good
      then show ?thesis
        using less [of "drop (rune_len (c # t)) (c # t)"] to_valid_utf8_step [of "c # t"] Cons by simp
    qed
  qed
qed

lemma valid_to_valid [simp]: "valid_utf8 (to_valid_utf8 s)"
  by (simp add: valid_utf8_def)

lemma ascii_to_valid: "is_ascii s \<Longrightarrow> to_valid_utf8 s = s"
  by (induction s) (simp_all add: is_ascii_def to_valid_utf8.simps)

lemma ascii_valid: "is_ascii s \<Longrightarrow> valid_utf8 s"
  by (simp add: valid_utf8_def ascii_to_valid)

subsection \<open>Encoding a code point\<close>

definition encode_rune :: "nat \<Rightarrow> go_string" where
  "encode_rune v =
     map char_of
       (if v < 0x80 then [v]
        else if v < 0x800 then [192 + v div 64, 128 + v mod 64]
        else if v < 0x10000 then [224 + v div 4096, 128 + v div 64 mod 64, 128 + v mod 64]
        else [240 + v div 262144, 128 + v div 4096 mod 64, 128 + v div 64 mod 64, 128 + v mod 64])"

lemma encode_rune_replacement: "encode_rune 0xFFFD = replacement"
  by (simp add: encode_rune_def replacement_def)

subsection \<open>Quoting\<close>

definition quote :: char where "quote = CHR 0x22"
definition bslash :: char where "bslash = CHR 0x5C"

text \<open>The escapes of one letter: \<^verbatim>\<open>b f n r t\<close>, the quote, the backslash and the slash.\<close>

definition simple_escapes :: "(char \<times> char) list" where
  "simple_escapes = [(CHR ''b'', CHR 0x08), (CHR ''f'', CHR 0x0C), (CHR ''n'', CHR 0x0A), (CHR ''r'', CHR 0x0D),
     (CHR ''t'', CHR 0x09), (bslash, bslash), (quote, quote), (CHR ''/'', CHR ''/'')]"

definition hex4_of :: "nat \<Rightarrow> go_string" where
  "hex4_of v = [hex_digit (v div 4096 mod 16), hex_digit (v div 256 mod 16), hex_digit (v div 16 mod 16),
     hex_digit (v mod 16)]"

definition escape_u :: "nat \<Rightarrow> go_string" where
  "escape_u v = bslash # CHR ''u'' # hex4_of v"

definition html_safe :: "char \<Rightarrow> bool" where
  "html_safe c \<longleftrightarrow> 32 \<le> char_code c \<and> c \<notin> {quote, bslash, CHR ''<'', CHR ''>'', CHR 0x26}"

definition quote_ascii :: "char \<Rightarrow> go_string" where
  "quote_ascii c =
     (if html_safe c then [c]
      else if c = quote \<or> c = bslash then [bslash, c]
      else if c = CHR 0x08 then [bslash, CHR ''b'']
      else if c = CHR 0x0C then [bslash, CHR ''f'']
      else if c = CHR 0x0A then [bslash, CHR ''n'']
      else if c = CHR 0x0D then [bslash, CHR ''r'']
      else if c = CHR 0x09 then [bslash, CHR ''t'']
      else escape_u (char_code c))"

text \<open>U+2028 and U+2029, which JavaScript takes for ends of lines, are escaped.\<close>

definition quote_rune :: "go_string \<Rightarrow> go_string" where
  "quote_rune r =
     (if r = encode_rune 0x2028 then escape_u 0x2028
      else if r = encode_rune 0x2029 then escape_u 0x2029
      else r)"

fun quote_chars :: "go_string \<Rightarrow> go_string" where
  "quote_chars [] = []"
| "quote_chars (c # s) =
     (if char_code c < 128 then quote_ascii c @ quote_chars s
      else
        let n = rune_len (c # s)
        in if n = 0 then escape_u 0xFFFD @ quote_chars s
           else quote_rune (take n (c # s)) @ quote_chars (drop (n - 1) s))"

definition quote_string :: "go_string \<Rightarrow> go_string" where
  "quote_string s = quote # quote_chars s @ [quote]"

subsection \<open>Unquoting\<close>

definition hex4 :: "go_string \<Rightarrow> nat option" where
  "hex4 s =
     (if 4 \<le> length s \<and> list_all is_hex (take 4 s)
      then Some (foldl (\<lambda>v c. 16 * v + hex_val c) 0 (take 4 s)) else None)"

text \<open>The second half of a surrogate pair, when the text continues with one.\<close>

definition surrogate_pair :: "nat \<Rightarrow> go_string \<Rightarrow> nat option" where
  "surrogate_pair v s =
     (if 2 \<le> length s \<and> s ! 0 = bslash \<and> s ! 1 = CHR ''u'' then
        (case hex4 (drop 2 s) of
           None \<Rightarrow> None
         | Some w \<Rightarrow>
             if 0xD800 \<le> v \<and> v < 0xDC00 \<and> 0xDC00 \<le> w \<and> w < 0xE000
             then Some ((v - 0xD800) * 1024 + (w - 0xDC00) + 0x10000) else None)
      else None)"

definition prepend :: "go_string \<Rightarrow> (go_string \<times> go_string) option \<Rightarrow> (go_string \<times> go_string) option" where
  "prepend p r = map_option (\<lambda>(s, rest). (p @ s, rest)) r"

text \<open>What follows an opening quote, up to the closing one: the string and the text after it.\<close>

function unquote_chars :: "go_string \<Rightarrow> (go_string \<times> go_string) option" where
  "unquote_chars [] = None"
| "unquote_chars (c # s) =
     (if c = quote then Some ([], s)
      else if c = bslash then
        (case s of
           [] \<Rightarrow> None
         | e # t \<Rightarrow>
             if e = CHR ''u'' then
               (case hex4 t of
                  None \<Rightarrow> None
                | Some v \<Rightarrow>
                    if 0xD800 \<le> v \<and> v < 0xE000 then
                      (case surrogate_pair v (drop 4 t) of
                         Some w \<Rightarrow> prepend (encode_rune w) (unquote_chars (drop 10 t))
                       | None \<Rightarrow> prepend replacement (unquote_chars (drop 4 t)))
                    else prepend (encode_rune v) (unquote_chars (drop 4 t)))
             else
               (case map_of simple_escapes e of
                  None \<Rightarrow> None
                | Some x \<Rightarrow> prepend [x] (unquote_chars t)))
      else if char_code c < 32 then None
      else
        let n = rune_len (c # s)
        in if n = 0 then prepend replacement (unquote_chars s)
           else prepend (take n (c # s)) (unquote_chars (drop (n - 1) s)))"
  by pat_completeness auto
termination
  by (relation "measure length") auto

declare unquote_chars.simps [simp del]

lemma prepend_Some [simp]: "prepend p (Some (s, r)) = Some (p @ s, r)"
  by (simp add: prepend_def)

subsection \<open>Quoting and unquoting\<close>

lemma unquote_raw:
  assumes "rune_len (c # s) = n" and "0 < n" and "32 \<le> char_code c" and "c \<noteq> quote" and "c \<noteq> bslash"
  shows "unquote_chars (take n (c # s) @ r) = prepend (take n (c # s)) (unquote_chars r)"
proof -
  obtain m where n: "n = Suc m"
    using assms(2) by (cases n) auto
  have "length (take m s) = m"
    using rune_len_le [of "c # s"] assms(1) by (simp add: n)
  moreover have "rune_len (c # take m s @ r) = Suc m"
    using rune_len_take [OF assms(1,2), of r] by (simp add: n)
  ultimately show ?thesis
    using assms(3-5) by (simp add: n unquote_chars.simps Let_def)
qed

lemma hex4_of_hex4: "v < 65536 \<Longrightarrow> hex4 (hex4_of v @ r) = Some v"
proof -
  assume "v < 65536"
  then have "v div 4096 < 16"
    by (simp add: less_mult_imp_div_less)
  moreover have "v div 256 = v div 16 div 16" and "v div 4096 = v div 256 div 16"
    by (simp_all flip: div_mult2_eq)
  ultimately have "16 * (16 * (16 * (v div 4096 mod 16) + v div 256 mod 16) + v div 16 mod 16) + v mod 16 = v"
    using mult_div_mod_eq [of 16 v] mult_div_mod_eq [of 16 "v div 16"] mult_div_mod_eq [of 16 "v div 256"]
    by simp
  moreover have "hex4 (hex4_of v @ r)
      = Some (16 * (16 * (16 * (v div 4096 mod 16) + v div 256 mod 16) + v div 16 mod 16) + v mod 16)"
    by (simp add: hex4_def hex4_of_def hex_digit_props)
  ultimately show ?thesis
    by (simp only:)
qed

lemma unquote_escape_u:
  assumes "v < 0xD800 \<or> 0xE000 \<le> v" and "v < 65536"
  shows "unquote_chars (escape_u v @ r) = prepend (encode_rune v) (unquote_chars r)"
proof -
  have "drop 4 (hex4_of v @ r) = r"
    by (simp add: hex4_of_def)
  moreover have "(55296 \<le> v \<and> v < 57344) = False"
    using assms(1) by auto
  ultimately show ?thesis
    using hex4_of_hex4 [OF assms(2), of r]
    by (simp only: escape_u_def unquote_chars.simps bslash_def quote_def append_Cons char.inject
        option.case list.case if_False if_True simp_thms prepend_def)
qed

lemma encode_rune_ascii: "char_code c < 128 \<Longrightarrow> encode_rune (char_code c) = [c]"
  by (simp add: encode_rune_def char_code_def)

lemma unquote_quote_ascii:
  assumes "char_code c < 128"
  shows "unquote_chars (quote_ascii c @ r) = prepend [c] (unquote_chars r)"
proof (cases "html_safe c")
  case True
  then have "32 \<le> char_code c" "c \<noteq> quote" "c \<noteq> bslash"
    by (simp_all add: html_safe_def)
  with True unquote_raw [OF rune_len_ascii [OF assms], of "[]" r] show ?thesis
    by (simp add: quote_ascii_def)
next
  case unsafe: False
  show ?thesis
  proof (cases "c \<in> {quote, bslash, CHR 0x08, CHR 0x0C, CHR 0x0A, CHR 0x0D, CHR 0x09}")
    case True
    then obtain e where "quote_ascii c = [bslash, e]" "map_of simple_escapes e = Some c" "e \<noteq> CHR ''u''"
      using unsafe
      by (auto simp: quote_ascii_def simple_escapes_def quote_def bslash_def html_safe_def)
    then show ?thesis
      by (simp add: unquote_chars.simps bslash_def quote_def)
  next
    case False
    then have "quote_ascii c = escape_u (char_code c)"
      using unsafe by (simp add: quote_ascii_def)
    then show ?thesis
      using assms unquote_escape_u [of "char_code c" r] by (simp add: encode_rune_ascii)
  qed
qed

lemma unquote_quote_rune:
  assumes "rune_len (c # s) = n" and "0 < n" and "128 \<le> char_code c"
  shows "unquote_chars (quote_rune (take n (c # s)) @ r) = prepend (take n (c # s)) (unquote_chars r)"
proof -
  have "c \<noteq> quote" "c \<noteq> bslash"
    using assms(3) by (auto simp: quote_def bslash_def char_code_def)
  with unquote_raw [OF assms(1,2)] assms(3) unquote_escape_u [of "0x2028" r] unquote_escape_u [of "0x2029" r]
  show ?thesis
    by (simp add: quote_rune_def)
qed

lemma unquote_quote_chars:
  "unquote_chars (quote_chars s @ quote # r) = Some (to_valid_utf8 s, r)"
proof (induction s rule: quote_chars.induct)
  case 1
  then show ?case
    by (simp add: unquote_chars.simps)
next
  case (2 c s)
  consider (ascii) "char_code c < 128" | (bad) "128 \<le> char_code c" "rune_len (c # s) = 0"
    | (rune) n where "128 \<le> char_code c" "rune_len (c # s) = Suc n"
    by (metis not0_implies_Suc not_less)
  then show ?case
  proof cases
    case ascii
    with 2 show ?thesis
      by (simp add: unquote_quote_ascii to_valid_utf8.simps)
  next
    case bad
    with 2 unquote_escape_u [of "0xFFFD" "quote_chars s @ quote # r"] show ?thesis
      by (simp add: to_valid_utf8.simps encode_rune_replacement)
  next
    case rune
    with 2 unquote_quote_rune [OF rune(2), of "quote_chars (drop n s) @ quote # r"] show ?thesis
      by (simp add: to_valid_utf8.simps)
  qed
qed

lemma unquote_quote_string: "tl (quote_string s @ r) = quote_chars s @ quote # r" "hd (quote_string s @ r) = quote"
  by (simp_all add: quote_string_def)

end
