(* ===== verification/Json_Text.thy ===== *)
theory Json_Text
  imports Go_Json Go_Utf8
begin

section \<open>JSON documents as text\<close>

text \<open>
  The text side of \<^verbatim>\<open>encoding/json\<close>: \<open>parse_json\<close> is the scanner and the literal conversions of
  \<^verbatim>\<open>json.Unmarshal\<close> (\<open>None\<close> is a syntax error, which \<^verbatim>\<open>Unmarshal\<close> reports before it decodes
  anything), and \<open>print_json\<close> is the layout of \<^verbatim>\<open>json.MarshalIndent(v, "", "  ")\<close>.  What is
  printed is read back, with invalid UTF-8 in strings replaced.

  The scanner refuses nesting deeper than 10000, which is the bound of the recursion here.  The
  tests that a remainder is shorter always hold (\<open>parse_value_shorter\<close>); they make the
  termination of the mutual recursion evident.
\<close>

subsection \<open>Reading\<close>

definition is_ws :: "char \<Rightarrow> bool" where
  "is_ws c \<longleftrightarrow> c \<in> {CHR '' '', CHR 0x09, CHR 0x0A, CHR 0x0D}"

definition skip_ws :: "go_string \<Rightarrow> go_string" where
  "skip_ws s = dropWhile is_ws s"

text \<open>The parts of a number literal; each yields what it read and the rest.\<close>

definition number_int :: "go_string \<Rightarrow> (go_string \<times> go_string) option" where
  "number_int s =
     (case s of
        [] \<Rightarrow> None
      | c # r \<Rightarrow>
          if c = CHR ''0'' then Some ([c], r)
          else if is_digit c then Some (takeWhile is_digit s, dropWhile is_digit s)
          else None)"

definition number_digits :: "go_string \<Rightarrow> (go_string \<times> go_string) option" where
  "number_digits s =
     (if takeWhile is_digit s = [] then None else Some (takeWhile is_digit s, dropWhile is_digit s))"

definition number_frac :: "go_string \<Rightarrow> (go_string \<times> go_string) option" where
  "number_frac s =
     (case s of
        [] \<Rightarrow> Some ([], [])
      | c # r \<Rightarrow> if c = CHR ''.'' then prepend [c] (number_digits r) else Some ([], s))"

definition number_exp :: "go_string \<Rightarrow> (go_string \<times> go_string) option" where
  "number_exp s =
     (case s of
        [] \<Rightarrow> Some ([], [])
      | c # r \<Rightarrow>
          if c = CHR ''e'' \<or> c = CHR ''E'' then
            (case r of
               [] \<Rightarrow> None
             | d # t \<Rightarrow>
                 if d = CHR ''+'' \<or> d = CHR ''-'' then prepend [c, d] (number_digits t)
                 else prepend [c] (number_digits r))
          else Some ([], s))"

definition number_abs :: "go_string \<Rightarrow> (go_string \<times> go_string) option" where
  "number_abs s = do {
     (i, r1) \<leftarrow> number_int s;
     (f, r2) \<leftarrow> number_frac r1;
     (e, r3) \<leftarrow> number_exp r2;
     Some (i @ f @ e, r3)
   }"

definition parse_number :: "go_string \<Rightarrow> (go_string \<times> go_string) option" where
  "parse_number s =
     (if s \<noteq> [] \<and> hd s = CHR ''-'' then prepend [hd s] (number_abs (tl s)) else number_abs s)"

text \<open>
  A value, the rest of an array after its opening bracket or after a comma, and likewise the
  members of an object; the text begins at the first character that is not white space.
\<close>

function parse_value :: "nat \<Rightarrow> go_string \<Rightarrow> (json \<times> go_string) option"
  and parse_elems :: "nat \<Rightarrow> go_string \<Rightarrow> (json list \<times> go_string) option"
  and parse_members :: "nat \<Rightarrow> go_string \<Rightarrow> ((go_string \<times> json) list \<times> go_string) option"
where
  "parse_value depth s =
     (case s of
        [] \<Rightarrow> None
      | c # t \<Rightarrow>
          if c = CHR ''{'' then
            (if depth = 0 then None
             else
               let t1 = skip_ws t
               in if t1 \<noteq> [] \<and> hd t1 = CHR ''}'' then Some (JObj [], tl t1)
                  else if length t1 < length s
                  then map_option (\<lambda>(ms, r). (JObj ms, r)) (parse_members (depth - 1) t1) else None)
          else if c = CHR ''['' then
            (if depth = 0 then None
             else
               let t1 = skip_ws t
               in if t1 \<noteq> [] \<and> hd t1 = CHR '']'' then Some (JArr [], tl t1)
                  else if length t1 < length s
                  then map_option (\<lambda>(vs, r). (JArr vs, r)) (parse_elems (depth - 1) t1) else None)
          else if c = quote then map_option (\<lambda>(k, r). (JStr k, r)) (unquote_chars t)
          else if c = CHR ''-'' \<or> is_digit c then map_option (\<lambda>(lit, r). (JNum lit, r)) (parse_number s)
          else if has_prefix s ''true'' then Some (JBool True, trim_prefix s ''true'')
          else if has_prefix s ''false'' then Some (JBool False, trim_prefix s ''false'')
          else if has_prefix s ''null'' then Some (JNull, trim_prefix s ''null'')
          else None)"
| "parse_elems depth s =
     (case parse_value depth s of
        None \<Rightarrow> None
      | Some (v, r) \<Rightarrow>
          let r1 = skip_ws r
          in if r1 = [] then None
             else if hd r1 = CHR '']'' then Some ([v], tl r1)
             else if hd r1 = CHR '','' \<and> length (skip_ws (tl r1)) < length s
             then map_option (\<lambda>(vs, r2). (v # vs, r2)) (parse_elems depth (skip_ws (tl r1)))
             else None)"
| "parse_members depth s =
     (if s = [] \<or> hd s \<noteq> quote then None
      else
        (case unquote_chars (tl s) of
           None \<Rightarrow> None
         | Some (k, r) \<Rightarrow>
             let r1 = skip_ws r
             in if r1 = [] \<or> hd r1 \<noteq> CHR '':'' then None
                else
                  let r2 = skip_ws (tl r1)
                  in if \<not> length r2 < length s then None
                     else
                       (case parse_value depth r2 of
                          None \<Rightarrow> None
                        | Some (v, r3) \<Rightarrow>
                            let r4 = skip_ws r3
                            in if r4 = [] then None
                               else if hd r4 = CHR ''}'' then Some ([(k, v)], tl r4)
                               else if hd r4 = CHR '','' \<and> length (skip_ws (tl r4)) < length s
                               then map_option (\<lambda>(ms, r5). ((k, v) # ms, r5))
                                      (parse_members depth (skip_ws (tl r4)))
                               else None)))"
  by pat_completeness auto
termination
  by (relation "measure (\<lambda>x. case x of
        Inl (_, s) \<Rightarrow> 2 * length s
      | Inr (Inl (_, s)) \<Rightarrow> 2 * length s + 1
      | Inr (Inr (_, s)) \<Rightarrow> 2 * length s + 1)") auto

declare parse_value.simps [simp del] parse_elems.simps [simp del] parse_members.simps [simp del]

definition max_nesting :: nat where
  "max_nesting = 10000"

definition parse_json :: "go_string \<Rightarrow> json option" where
  "parse_json text =
     (case parse_value max_nesting (skip_ws text) of
        None \<Rightarrow> None
      | Some (v, r) \<Rightarrow> if skip_ws r = [] then Some v else None)"

subsection \<open>Printing\<close>

definition newline :: "nat \<Rightarrow> go_string" where
  "newline depth = CHR 0x0A # replicate (2 * depth) (CHR '' '')"

text \<open>The elements of a container, each on a line of its own.\<close>

fun print_items :: "nat \<Rightarrow> go_string list \<Rightarrow> go_string" where
  "print_items depth [] = []"
| "print_items depth [x] = newline depth @ x"
| "print_items depth (x # y # xs) = newline depth @ x @ '','' @ print_items depth (y # xs)"

fun print_json :: "nat \<Rightarrow> json \<Rightarrow> go_string" where
  "print_json depth JNull = ''null''"
| "print_json depth (JBool b) = (if b then ''true'' else ''false'')"
| "print_json depth (JNum lit) = lit"
| "print_json depth (JStr s) = quote_string s"
| "print_json depth (JArr vs) =
     (if vs = [] then ''[]''
      else ''['' @ print_items (depth + 1) (map (print_json (depth + 1)) vs) @ newline depth @ '']'')"
| "print_json depth (JObj ms) =
     (if ms = [] then ''{}''
      else ''{'' @ print_items (depth + 1)
             (map (\<lambda>(k, v). quote_string k @ '': '' @ print_json (depth + 1) v) ms)
           @ newline depth @ ''}'')"

subsection \<open>The length tests always hold\<close>

lemma skip_ws_length: "length (skip_ws s) \<le> length s"
  by (simp add: skip_ws_def length_dropWhile_le)

lemma unquote_chars_shorter: "unquote_chars s = Some (k, r) \<Longrightarrow> length r < length s"
proof (induction "length s" arbitrary: s k r rule: less_induct)
  case less
  have step: "length t < length s \<longrightarrow> length r < length s" if "unquote_chars t = Some (k', r)" for t k'
    using less.hyps [OF _ that] by auto
  show ?case
  proof (cases s)
    case Nil
    with less.prems show ?thesis
      by (simp add: unquote_chars.simps)
  next
    case (Cons c t)
    with less.prems show ?thesis
      by (subst (asm) (1) Cons, subst (asm) unquote_chars.simps)
         (auto simp: prepend_def Let_def split: if_splits list.splits option.splits dest!: step)
  qed
qed

lemma digits_shorter: "length (dropWhile is_digit s) \<le> length s"
  by (rule length_dropWhile_le)

lemma number_int_shorter: "number_int s = Some (x, r) \<Longrightarrow> length r < length s"
  by (auto simp: number_int_def less_Suc_eq_le digits_shorter split: list.splits if_splits)

lemma number_digits_le: "number_digits s = Some (x, r) \<Longrightarrow> length r \<le> length s"
  by (auto simp: number_digits_def digits_shorter split: if_splits)

lemma number_frac_le: "number_frac s = Some (x, r) \<Longrightarrow> length r \<le> length s"
  by (auto simp: number_frac_def prepend_def split: list.splits if_splits dest!: number_digits_le)

lemma number_exp_le: "number_exp s = Some (x, r) \<Longrightarrow> length r \<le> length s"
  by (auto simp: number_exp_def prepend_def split: list.splits if_splits dest!: number_digits_le)

lemma number_abs_shorter: "number_abs s = Some (x, r) \<Longrightarrow> length r < length s"
  by (auto simp: number_abs_def split: Option.bind_splits dest!: number_int_shorter number_frac_le number_exp_le)

lemma parse_number_shorter: "parse_number s = Some (x, r) \<Longrightarrow> length r < length s"
  by (cases s) (auto simp: parse_number_def prepend_def split: if_splits dest!: number_abs_shorter)

lemma trim_prefix_shorter: "has_prefix s p \<Longrightarrow> p \<noteq> [] \<Longrightarrow> length (trim_prefix s p) < length s"
  by (auto simp: has_prefix_iff)

lemma tl_skip_ws_length: "skip_ws s \<noteq> [] \<Longrightarrow> length (tl (skip_ws s)) < length s"
  using skip_ws_length [of s] by (cases "skip_ws s") simp_all

lemma parse_value_shorter: "parse_value d s = Some (v, r) \<Longrightarrow> length r < length s"
  and parse_elems_shorter: "parse_elems d s = Some (vs, r) \<Longrightarrow> length r < length s"
  and parse_members_shorter: "parse_members d s = Some (ms, r) \<Longrightarrow> length r < length s"
proof (induction d s and d s and d s arbitrary: v r and vs r and ms r
    rule: parse_value_parse_elems_parse_members.induct)
  case (1 depth s)
  show ?case
  proof (cases s)
    case Nil
    with "1.prems" show ?thesis
      by (simp add: parse_value.simps)
  next
    case (Cons c t)
    note p = "1.prems" [unfolded parse_value.simps [of depth s], unfolded Cons list.case]
    have ih: "length r' < Suc (length t)"
      if "c = CHR ''{''" "depth \<noteq> 0" "\<not> (skip_ws t \<noteq> [] \<and> hd (skip_ws t) = CHR ''}'')"
        "parse_members (depth - 1) (skip_ws t) = Some (ms, r')" for ms r'
      using "1.IH"(1) [OF Cons that(1,2) refl that(3) _ that(4)] skip_ws_length [of t] Cons by simp
    have ih2: "length r' < Suc (length t)"
      if "c = CHR ''[''" "depth \<noteq> 0" "\<not> (skip_ws t \<noteq> [] \<and> hd (skip_ws t) = CHR '']'')"
        "parse_elems (depth - 1) (skip_ws t) = Some (vs, r')" for vs r'
      using "1.IH"(2) [OF Cons _ that(1,2) refl that(3) _ that(4)] skip_ws_length [of t] Cons that(1) by simp
    from p tl_skip_ws_length [of t] ih ih2 show ?thesis
      by (auto simp: Cons Let_def split: if_splits option.splits
            dest: unquote_chars_shorter parse_number_shorter trim_prefix_shorter)
  qed
next
  case (2 depth s)
  note p = "2.prems" [unfolded parse_elems.simps [of depth s]]
  then obtain v r1 where v: "parse_value depth s = Some (v, r1)"
    by (auto split: option.splits)
  from "2.IH"(1) [OF v] have r1: "length r1 < length s" .
  from p v r1 tl_skip_ws_length [of r1] "2.IH"(2) [OF v refl refl] show ?case
    by (auto simp: Let_def split: if_splits)
next
  case (3 depth s)
  note p = "3.prems" [unfolded parse_members.simps [of depth s]]
  then obtain k r1 where k: "unquote_chars (tl s) = Some (k, r1)"
    by (auto split: option.splits if_splits)
  have r1: "length (skip_ws (tl (skip_ws r1))) < length s" if "skip_ws r1 \<noteq> []"
    using unquote_chars_shorter [OF k] tl_skip_ws_length [OF that] skip_ws_length [of "tl (skip_ws r1)"]
    by simp
  from p k obtain v r3 where h: "skip_ws r1 \<noteq> []" "hd (skip_ws r1) = CHR '':''" "\<not> (s = [] \<or> hd s \<noteq> quote)"
    and v: "parse_value depth (skip_ws (tl (skip_ws r1))) = Some (v, r3)"
    by (auto simp: Let_def split: if_splits option.splits)
  have "length r3 < length (skip_ws (tl (skip_ws r1)))"
    using "3.IH"(1) [OF h(3) k refl refl _ refl _ v] h r1 by simp
  with p k h v r1 tl_skip_ws_length [of r3] "3.IH"(2) [OF h(3) k refl refl _ refl _ v refl refl] show ?case
    by (auto simp: Let_def split: if_splits)
qed

subsection \<open>Number literals\<close>

text \<open>What may follow a number so that the literal ends there.\<close>

definition number_stop :: "go_string \<Rightarrow> bool" where
  "number_stop r \<longleftrightarrow> r = [] \<or> (\<not> is_digit (hd r) \<and> hd r \<notin> {CHR ''.'', CHR ''e'', CHR ''E''})"

definition number_literal :: "go_string \<Rightarrow> bool" where
  "number_literal lit \<longleftrightarrow> parse_number lit = Some (lit, [])"

lemma takeWhile_stop:
  "number_stop r \<Longrightarrow> takeWhile is_digit (s @ r) = takeWhile is_digit s"
  by (induction s) (cases r; simp add: number_stop_def)+

lemma dropWhile_stop:
  "number_stop r \<Longrightarrow> dropWhile is_digit (s @ r) = dropWhile is_digit s @ r"
  by (induction s) (cases r; simp add: number_stop_def)+

lemma number_digits_stop:
  "number_digits s = Some (x, y) \<Longrightarrow> number_stop r \<Longrightarrow> number_digits (s @ r) = Some (x, y @ r)"
  by (auto simp: number_digits_def takeWhile_stop dropWhile_stop split: if_splits)

lemma number_int_stop:
  "number_int s = Some (x, y) \<Longrightarrow> number_stop r \<Longrightarrow> number_int (s @ r) = Some (x, y @ r)"
  using takeWhile_stop [of r s] dropWhile_stop [of r s]
  by (auto simp: number_int_def split: list.splits if_splits)

lemma number_frac_stop:
  "number_frac s = Some (x, y) \<Longrightarrow> number_stop r \<Longrightarrow> number_frac (s @ r) = Some (x, y @ r)"
  by (cases s; cases r) (auto simp: number_frac_def number_stop_def [of "_ # _"] prepend_def
      number_digits_stop split: if_splits)

lemma number_exp_stop:
  "number_exp s = Some (x, y) \<Longrightarrow> number_stop r \<Longrightarrow> number_exp (s @ r) = Some (x, y @ r)"
proof (cases s)
  case Nil
  assume "number_exp s = Some (x, y)" "number_stop r"
  with Nil show ?thesis
    by (cases r) (auto simp: number_exp_def number_stop_def)
next
  case (Cons c t)
  assume "number_exp s = Some (x, y)" "number_stop r"
  with Cons number_digits_stop [of t _ _ r] show ?thesis
    by (cases t) (auto simp: number_exp_def prepend_def number_digits_stop split: if_splits)
qed

lemma number_abs_stop:
  "number_abs s = Some (x, y) \<Longrightarrow> number_stop r \<Longrightarrow> number_abs (s @ r) = Some (x, y @ r)"
proof -
  assume "number_abs s = Some (x, y)" and stop: "number_stop r"
  then obtain i r1 f r2 e where "number_int s = Some (i, r1)" "number_frac r1 = Some (f, r2)"
    "number_exp r2 = Some (e, y)" "x = i @ f @ e"
    by (auto simp: number_abs_def split: Option.bind_splits)
  with stop show ?thesis
    by (simp add: number_abs_def number_int_stop number_frac_stop number_exp_stop)
qed

lemma parse_number_stop:
  assumes "number_literal lit" and "number_stop r"
  shows "parse_number (lit @ r) = Some (lit, r)"
proof (cases lit)
  case Nil
  with assms(1) show ?thesis
    by (simp add: number_literal_def parse_number_def number_abs_def number_int_def)
next
  case (Cons c t)
  with assms number_abs_stop [OF _ assms(2), of "c # t"] number_abs_stop [OF _ assms(2), of t] show ?thesis
    by (auto simp: number_literal_def parse_number_def prepend_def split: if_splits)
qed

lemma number_literal_head:
  "number_literal lit \<Longrightarrow> lit \<noteq> [] \<and> (hd lit = CHR ''-'' \<or> is_digit (hd lit))"
  by (cases lit) (auto simp: number_literal_def parse_number_def number_abs_def number_int_def
      is_digit_def char_code_def split: if_splits)

lemma itoa_nat_head: "0 < n \<Longrightarrow> hd (itoa_nat n) \<noteq> CHR ''0''"
proof (induction n rule: itoa_nat.induct)
  case (1 n)
  show ?case
  proof (cases "n < 10")
    case True
    have "digit_val (digit_char n) \<noteq> digit_val (CHR ''0'')"
      using True "1.prems" digit_char_props [OF True] by (simp add: digit_val_def char_code_def)
    with True show ?thesis
      by (auto simp: itoa_nat.simps [of n])
  next
    case False
    then show ?thesis
      using "1.IH" itoa_nat_digits [of "n div 10"] by (simp add: itoa_nat.simps [of n])
  qed
qed

lemma number_int_itoa: "number_int (itoa_nat n) = Some (itoa_nat n, [])"
proof -
  obtain c t where t: "itoa_nat n = c # t" and digits: "is_digit c" "list_all is_digit t"
    using itoa_nat_digits [of n] by (cases "itoa_nat n") auto
  have "t = []" if "c = CHR ''0''"
    using that t itoa_nat_head [of n] by (cases "n = 0") (auto simp: itoa_nat.simps [of 0])
  with digits show ?thesis
    by (auto simp: t number_int_def takeWhile_eq_all_conv list_all_iff)
qed

lemma number_literal_itoa_nat: "number_literal (itoa_nat n)"
proof -
  have "itoa_nat n \<noteq> []" "hd (itoa_nat n) \<noteq> CHR ''-''"
    using itoa_nat_digits [of n] by (cases "itoa_nat n"; auto simp: is_digit_def char_code_def)+
  then show ?thesis
    by (simp add: number_literal_def parse_number_def number_abs_def number_int_itoa number_frac_def number_exp_def)
qed

lemma number_literal_itoa: "number_literal (itoa n)"
proof (cases "n < 0")
  case True
  then show ?thesis
    by (simp add: itoa_def number_literal_def parse_number_def number_abs_def number_int_itoa
        number_frac_def number_exp_def)
next
  case False
  then show ?thesis
    by (simp add: itoa_def number_literal_itoa_nat)
qed

subsection \<open>What is printed is read back\<close>

text \<open>Documents that Go can print: every number is a literal, and nesting is bounded.\<close>

fun json_ok :: "nat \<Rightarrow> json \<Rightarrow> bool" where
  "json_ok d (JNum lit) \<longleftrightarrow> number_literal lit"
| "json_ok d (JArr vs) \<longleftrightarrow> 0 < d \<and> list_all (json_ok (d - 1)) vs"
| "json_ok d (JObj ms) \<longleftrightarrow> 0 < d \<and> list_all (\<lambda>(k, v). json_ok (d - 1) v) ms"
| "json_ok d _ \<longleftrightarrow> True"

text \<open>The document with the invalid bytes of its strings replaced.\<close>

fun utf8_json :: "json \<Rightarrow> json" where
  "utf8_json (JStr s) = JStr (to_valid_utf8 s)"
| "utf8_json (JArr vs) = JArr (map utf8_json vs)"
| "utf8_json (JObj ms) = JObj (map (\<lambda>(k, v). (to_valid_utf8 k, utf8_json v)) ms)"
| "utf8_json j = j"

text \<open>All items but the first, each with the comma before it.\<close>

definition more_items :: "nat \<Rightarrow> go_string list \<Rightarrow> go_string" where
  "more_items k xs = concat (map (\<lambda>x. '','' @ newline k @ x) xs)"

lemma more_items_simps [simp]:
  "more_items k [] = []" "more_items k (x # xs) = '','' @ newline k @ x @ more_items k xs"
  by (simp_all add: more_items_def)

lemma print_items_Cons: "print_items k (x # xs) = newline k @ x @ more_items k xs"
  by (induction xs arbitrary: x) simp_all

lemma skip_ws_newline [simp]: "skip_ws (newline k @ s) = skip_ws s"
proof -
  have "dropWhile is_ws (replicate n (CHR '' '') @ s) = dropWhile is_ws s" for n
    by (induction n) (simp_all add: is_ws_def)
  then show ?thesis
    by (simp add: skip_ws_def newline_def is_ws_def)
qed

lemma skip_ws_id: "s \<noteq> [] \<Longrightarrow> \<not> is_ws (hd s) \<Longrightarrow> skip_ws s = s"
  by (cases s) (simp_all add: skip_ws_def)

lemma skip_ws_Cons [simp]: "\<not> is_ws c \<Longrightarrow> skip_ws (c # s) = c # s"
  by (simp add: skip_ws_def)

lemma not_ws [simp]:
  "\<not> is_ws (CHR '','')" "\<not> is_ws (CHR '']'')" "\<not> is_ws (CHR ''}'')" "\<not> is_ws (CHR '':'')"
  "\<not> is_ws quote"
  by (simp_all add: is_ws_def quote_def)

lemma print_json_head:
  "json_ok d j \<Longrightarrow> print_json k j \<noteq> [] \<and> \<not> is_ws (hd (print_json k j)) \<and> hd (print_json k j) \<noteq> CHR '']''"
proof (cases j)
  case (JNum lit)
  assume "json_ok d j"
  with JNum number_literal_head [of lit] have "lit \<noteq> []" "hd lit = CHR ''-'' \<or> is_digit (hd lit)"
    by auto
  with JNum show ?thesis
    by (auto simp: is_ws_def is_digit_def char_code_def)
qed (simp_all add: is_ws_def quote_string_def quote_def)

lemma number_stop_newline [simp]: "number_stop (newline k @ r)"
  by (simp add: number_stop_def newline_def is_digit_def char_code_def)

lemma number_stop_comma [simp]: "number_stop (CHR '','' # r)"
  by (simp add: number_stop_def is_digit_def char_code_def)

lemma number_stop_items [simp]: "number_stop (more_items k xs @ newline j @ r)"
  by (cases xs) simp_all

text \<open>The elements of an array, once each of them is read back.\<close>

lemma parse_printed_elems:
  assumes "\<And>v r. v \<in> set (v0 # vs) \<Longrightarrow> number_stop r \<Longrightarrow>
      parse_value d (print_json k v @ r) = Some (utf8_json v, r)"
    and "list_all (json_ok d) (v0 # vs)"
  shows "parse_elems d (print_json k v0 @ more_items k (map (print_json k) vs) @ newline j @ '']'' @ r)
    = Some (map utf8_json (v0 # vs), r)"
  using assms
proof (induction vs arbitrary: v0)
  case Nil
  then show ?case
    by (subst parse_elems.simps) simp
next
  case (Cons v1 vs)
  let ?rest = "print_json k v1 @ more_items k (map (print_json k) vs) @ newline j @ '']'' @ r"
  have "skip_ws ?rest = ?rest"
    using Cons.prems(2) print_json_head [of d v1 k] by (intro skip_ws_id) simp_all
  moreover have "parse_elems d ?rest = Some (map utf8_json (v1 # vs), r)"
    using Cons.prems by (intro Cons.IH) auto
  moreover have "parse_value d (print_json k v0 @ '','' @ newline k @ ?rest)
      = Some (utf8_json v0, '','' @ newline k @ ?rest)"
    using Cons.prems(1) [of v0 "'','' @ newline k @ ?rest"] by simp
  ultimately show ?case
    by (subst parse_elems.simps) (simp add: less_Suc_eq_le)
qed

text \<open>The members of an object, likewise.\<close>

definition print_member :: "nat \<Rightarrow> go_string \<times> json \<Rightarrow> go_string" where
  "print_member k m = quote_string (fst m) @ '': '' @ print_json k (snd m)"

definition utf8_member :: "go_string \<times> json \<Rightarrow> go_string \<times> json" where
  "utf8_member m = (to_valid_utf8 (fst m), utf8_json (snd m))"

lemma print_json_obj:
  "print_json k (JObj (m # ms)) = ''{'' @ newline (k + 1) @ print_member (k + 1) m
     @ more_items (k + 1) (map (print_member (k + 1)) ms) @ newline k @ ''}''"
  by (simp add: print_items_Cons print_member_def [abs_def] case_prod_beta')

lemma utf8_json_obj: "utf8_json (JObj ms) = JObj (map utf8_member ms)"
  by (simp add: utf8_member_def case_prod_beta')

lemma parse_printed_members:
  assumes "\<And>m r. m \<in> set (m0 # ms) \<Longrightarrow> number_stop r \<Longrightarrow>
      parse_value d (print_json k (snd m) @ r) = Some (utf8_json (snd m), r)"
    and "list_all (\<lambda>m. json_ok d (snd m)) (m0 # ms)"
  shows "parse_members d (print_member k m0 @ more_items k (map (print_member k) ms) @ newline j @ ''}'' @ r)
    = Some (map utf8_member (m0 # ms), r)"
  using assms
proof (induction ms arbitrary: m0)
  case Nil
  let ?item = "print_json k (snd m0) @ newline j @ ''}'' @ r"
  have "skip_ws (CHR '' '' # ?item) = ?item"
    using Nil.prems(2) print_json_head [of d "snd m0" k] skip_ws_id [of ?item]
    by (simp add: skip_ws_def is_ws_def)
  with Nil.prems(1) [of m0 "newline j @ ''}'' @ r"] show ?case
    by (subst parse_members.simps)
       (simp add: print_member_def quote_string_def unquote_quote_chars utf8_member_def less_Suc_eq_le)
next
  case (Cons m1 ms)
  let ?rest = "print_member k m1 @ more_items k (map (print_member k) ms) @ newline j @ ''}'' @ r"
  let ?item = "print_json k (snd m0) @ '','' @ newline k @ ?rest"
  have "skip_ws (CHR '' '' # ?item) = ?item"
    using Cons.prems(2) print_json_head [of d "snd m0" k] skip_ws_id [of ?item]
    by (simp add: skip_ws_def is_ws_def)
  moreover have "skip_ws ?rest = ?rest"
    by (simp add: print_member_def quote_string_def)
  moreover have "parse_members d ?rest = Some (map utf8_member (m1 # ms), r)"
    using Cons.prems by (intro Cons.IH) auto
  moreover have "parse_value d ?item = Some (utf8_json (snd m0), '','' @ newline k @ ?rest)"
    using Cons.prems(1) [of m0 "'','' @ newline k @ ?rest"] by simp
  ultimately show ?case
    by (subst parse_members.simps)
       (simp add: print_member_def [of k m0] quote_string_def unquote_quote_chars utf8_member_def less_Suc_eq_le)
qed

lemma parse_printed_array:
  assumes "json_ok d (JArr (v # vs))" and "number_stop r"
    and "\<And>x r. x \<in> set (v # vs) \<Longrightarrow> number_stop r \<Longrightarrow>
           parse_value (d - 1) (print_json (k + 1) x @ r) = Some (utf8_json x, r)"
  shows "parse_value d (print_json k (JArr (v # vs)) @ r) = Some (utf8_json (JArr (v # vs)), r)"
proof -
  have "parse_elems (d - 1) (print_json (k + 1) v @ more_items (k + 1) (map (print_json (k + 1)) vs)
      @ newline k @ '']'' @ r) = Some (map utf8_json (v # vs), r)"
    using assms by (intro parse_printed_elems) (auto simp: list_all_iff)
  moreover have "skip_ws (print_json (k + 1) v @ t) = print_json (k + 1) v @ t"
    and "hd (print_json (k + 1) v @ t) \<noteq> CHR '']''" for t
    using assms(1) print_json_head [of "d - 1" v "k + 1"] by (auto intro: skip_ws_id)
  ultimately show ?thesis
    using assms(1) by (simp add: parse_value.simps print_items_Cons)
qed

lemma parse_printed_object:
  assumes "json_ok d (JObj (m # ms))" and "number_stop r"
    and "\<And>x r. x \<in> set (m # ms) \<Longrightarrow> number_stop r \<Longrightarrow>
           parse_value (d - 1) (print_json (k + 1) (snd x) @ r) = Some (utf8_json (snd x), r)"
  shows "parse_value d (print_json k (JObj (m # ms)) @ r) = Some (utf8_json (JObj (m # ms)), r)"
proof -
  have "parse_members (d - 1) (print_member (k + 1) m @ more_items (k + 1) (map (print_member (k + 1)) ms)
      @ newline k @ ''}'' @ r) = Some (map utf8_member (m # ms), r)"
    using assms by (intro parse_printed_members) (auto simp: list_all_iff)
  moreover have "skip_ws (print_member (k + 1) m @ t) = print_member (k + 1) m @ t"
    and "hd (print_member (k + 1) m @ t) \<noteq> CHR ''}''" and "print_member (k + 1) m \<noteq> []" for t
    by (simp_all add: print_member_def quote_string_def quote_def is_ws_def)
  ultimately show ?thesis
    using assms(1)
    by (simp add: parse_value.simps print_json_obj utf8_json_obj del: print_json.simps(6) utf8_json.simps(3))
qed

theorem parse_print:
  "json_ok d j \<Longrightarrow> number_stop r \<Longrightarrow> parse_value d (print_json k j @ r) = Some (utf8_json j, r)"
proof (induction j arbitrary: d k r)
  case (JNum lit)
  then show ?case
    using number_literal_head [of lit] parse_number_stop [of lit r]
    by (cases lit) (auto simp: parse_value.simps quote_def is_digit_def char_code_def)
next
  case (JStr s)
  then show ?case
    by (simp add: parse_value.simps quote_string_def unquote_quote_chars quote_def [symmetric])
       (simp add: quote_def)
next
  case (JArr vs)
  show ?case
  proof (cases vs)
    case Nil
    with JArr.prems show ?thesis
      by (simp add: parse_value.simps)
  next
    case (Cons v vs')
    with JArr.prems(1) have ok: "json_ok (d - 1) x" if "x \<in> set (v # vs')" for x
      using that by (auto simp: list_all_iff)
    show ?thesis
      unfolding Cons using JArr.IH Cons ok by (intro parse_printed_array [OF JArr.prems [unfolded Cons]]) auto
  qed
next
  case (JObj ms)
  show ?case
  proof (cases ms)
    case Nil
    with JObj.prems show ?thesis
      by (simp add: parse_value.simps)
  next
    case (Cons m ms')
    with JObj.prems(1) have ok: "json_ok (d - 1) (snd x)" if "x \<in> set (m # ms')" for x
      using that by (auto simp: list_all_iff)
    show ?thesis
      unfolding Cons
    proof (rule parse_printed_object [OF JObj.prems [unfolded Cons]])
      show "parse_value (d - 1) (print_json (k + 1) (snd x) @ r) = Some (utf8_json (snd x), r)"
        if "x \<in> set (m # ms')" "number_stop r" for x r
        using JObj.IH [of x "snd x" "d - 1" r "k + 1"] that ok [OF that(1)] Cons by (cases x) auto
    qed
  qed
qed (auto simp: parse_value.simps quote_def is_digit_def char_code_def has_prefix_iff trim_prefix_def)

text \<open>The text of a file: the document and a final newline.\<close>

theorem parse_json_print:
  assumes "json_ok max_nesting j"
  shows "parse_json (print_json 0 j @ [CHR 0x0A]) = Some (utf8_json j)"
proof -
  have "number_stop [CHR 0x0A]"
    by (simp add: number_stop_def is_digit_def char_code_def)
  moreover have "skip_ws (print_json 0 j @ [CHR 0x0A]) = print_json 0 j @ [CHR 0x0A]"
    using print_json_head [OF assms, of 0] by (intro skip_ws_id) auto
  ultimately show ?thesis
    using parse_print [OF assms, of "[CHR 0x0A]" 0] by (simp add: parse_json_def skip_ws_def is_ws_def)
qed

end
