(* ===== verification/Go_Format.thy ===== *)
theory Go_Format
  imports Go_Double Json_Text
begin

section \<open>Printing floating point numbers\<close>

text \<open>
  \<^verbatim>\<open>encoding/json\<close> prints a \<^verbatim>\<open>float64\<close> with \<^verbatim>\<open>strconv.AppendFloat(b, f, fmt, -1, 64)\<close>: the
  fewest digits that are read back as the same double, and of the decimals with that many digits
  the nearest one.  The format is \<^verbatim>\<open>e\<close> below \<open>10 ^ -6\<close> and from \<open>10 ^ 21\<close> on, \<^verbatim>\<open>f\<close> between.
  Infinities and NaN are an \<^verbatim>\<open>UnsupportedValueError\<close> (\<open>None\<close>).

  \<open>shortest\<close> tries one digit, two digits and so on, up to the seventeen that always suffice.
\<close>

subsection \<open>The fewest digits\<close>

text \<open>The position of the decimal point: \<open>10 ^ (k - 1) \<le> q < 10 ^ k\<close>.\<close>

definition decimal_point :: "rat \<Rightarrow> int" where
  "decimal_point q =
     (let (a, b) = quotient_of q;
          k = int (length (itoa_nat (nat a))) - int (length (itoa_nat (nat b)))
      in if pow10 k \<le> q then k + 1 else k)"

text \<open>The decimal with \<open>n\<close> digits that is read back as \<open>q\<close>, the nearest one if there are two.\<close>

definition shortest_at :: "rat \<Rightarrow> nat \<Rightarrow> int option" where
  "shortest_at q n =
     (let scale = pow10 (decimal_point q - int n);
          near = round_half_even (q / scale);
          other = (if near = \<lfloor>q / scale\<rfloor> then near + 1 else near - 1)
      in if fl64 (of_int near * scale) = Fin q then Some near
         else if fl64 (of_int other * scale) = Fin q then Some other
         else None)"

fun shortest_from :: "rat \<Rightarrow> nat \<Rightarrow> nat \<Rightarrow> (int \<times> nat) option" where
  "shortest_from q n 0 = None"
| "shortest_from q n (Suc fuel) =
     (case shortest_at q n of
        Some c \<Rightarrow> Some (c, n)
      | None \<Rightarrow> shortest_from q (Suc n) fuel)"

definition shortest :: "rat \<Rightarrow> (int \<times> nat) option" where
  "shortest q = shortest_from q 1 17"

text \<open>The digits without trailing zeros.\<close>

definition strip_zeros :: "go_string \<Rightarrow> go_string" where
  "strip_zeros s = rev (dropWhile (\<lambda>c. c = CHR ''0'') (rev s))"

text \<open>\<open>0.d * 10 ^ dp\<close> as digits \<open>d\<close> and decimal point \<open>dp\<close>.\<close>

definition decimal_digits :: "rat \<Rightarrow> (go_string \<times> int) option" where
  "decimal_digits q =
     map_option (\<lambda>(c, n). let ds = itoa_nat (nat c)
        in (strip_zeros ds, int (length ds) + (decimal_point q - int n))) (shortest q)"

subsection \<open>The two formats\<close>

definition zeros :: "nat \<Rightarrow> go_string" where
  "zeros n = replicate n (CHR ''0'')"

definition format_f :: "go_string \<Rightarrow> int \<Rightarrow> go_string" where
  "format_f d dp =
     (let n = int (length d);
          whole = (if 0 < dp then take (nat dp) d @ zeros (nat (dp - n)) else zeros 1);
          frac = zeros (nat (- dp)) @ drop (nat dp) d
      in if n \<le> dp then whole else whole @ CHR ''.'' # frac)"

definition format_e :: "go_string \<Rightarrow> int \<Rightarrow> go_string" where
  "format_e d dp =
     (let e = dp - 1
      in take 1 d @ (if length d > 1 then CHR ''.'' # drop 1 d else [])
         @ [CHR ''e'', if e < 0 then CHR ''-'' else CHR ''+''] @ itoa_nat (nat \<bar>e\<bar>))"

definition format_float :: "f64 \<Rightarrow> go_string option" where
  "format_float v =
     (case v of
        Fin q \<Rightarrow>
          if q = 0 then Some ''0''
          else
            (case decimal_digits \<bar>q\<bar> of
               None \<Rightarrow> None
             | Some (d, dp) \<Rightarrow>
                 let body = (if \<bar>q\<bar> < 1 / 10 ^ 6 \<or> 10 ^ 21 \<le> \<bar>q\<bar> then format_e d dp else format_f d dp)
                 in Some (if q < 0 then CHR ''-'' # body else body))
      | _ \<Rightarrow> None)"

subsection \<open>Powers of ten\<close>

lemma pow10_powi: "pow10 e = 10 powi e"
  by (simp add: pow10_def power_int_def field_simps)

lemma pow10_pos [simp]: "0 < pow10 e"
  by (simp add: pow10_def)

lemma pow10_nonzero [simp]: "pow10 e \<noteq> 0"
  using pow10_pos [of e] by linarith

lemma pow10_add: "pow10 (d + e) = pow10 d * pow10 e"
  by (simp add: pow10_powi power_int_add)

lemma pow10_nat [simp]: "pow10 (int n) = 10 ^ n"
  by (simp add: pow10_def)

lemma itoa_nat_size: "0 < n \<Longrightarrow> 10 ^ (length (itoa_nat n) - 1) \<le> n \<and> n < 10 ^ length (itoa_nat n)"
proof (induction n rule: itoa_nat.induct)
  case (1 n)
  show ?case
  proof (cases "n < 10")
    case True
    with "1.prems" show ?thesis
      by (simp add: itoa_nat.simps [of n])
  next
    case False
    let ?l = "length (itoa_nat (n div 10))"
    have ih: "10 ^ (?l - 1) \<le> n div 10" "n div 10 < 10 ^ ?l"
      using "1.IH" False by auto
    have "0 < ?l"
      using itoa_nat_digits [of "n div 10"] by simp
    then have "10 ^ ?l = 10 * (10 ^ (?l - 1) :: nat)"
      by (metis power_minus_mult mult.commute)
    with ih(1) have "10 ^ ?l \<le> n"
      by linarith
    moreover have "n < 10 * 10 ^ ?l"
      using ih(2) by linarith
    ultimately show ?thesis
      using False by (simp add: itoa_nat.simps [of n])
  qed
qed

lemma decimal_point_bounds:
  assumes "0 < q"
  shows "pow10 (decimal_point q - 1) \<le> q" and "q < pow10 (decimal_point q)"
proof -
  obtain a b where ab: "quotient_of q = (a, b)"
    by fastforce
  then have b: "0 < b" and q: "q = of_int a / of_int b"
    by (simp_all add: quotient_of_denom_pos quotient_of_div)
  then have a: "0 < a"
    using assms by (simp add: zero_less_divide_iff)
  define la where "la = length (itoa_nat (nat a))"
  define lb where "lb = length (itoa_nat (nat b))"
  have l: "0 < la" "0 < lb"
    using itoa_nat_digits [of "nat a"] itoa_nat_digits [of "nat b"] by (simp_all add: la_def lb_def)
  have bounds: "10 ^ (length (itoa_nat (nat x)) - 1) \<le> (of_int x :: rat) \<and> of_int x < (10 :: rat) ^ length (itoa_nat (nat x))"
    if "0 < x" for x
  proof -
    have "of_nat (10 ^ (length (itoa_nat (nat x)) - 1)) \<le> (of_nat (nat x) :: rat)
        \<and> of_nat (nat x) < (of_nat (10 ^ length (itoa_nat (nat x))) :: rat)"
      using itoa_nat_size [of "nat x"] that by (simp only: of_nat_le_iff of_nat_less_iff zero_less_nat_eq)
    with that show ?thesis
      by simp
  qed
  define k where "k = int la - int lb"
  have "q < pow10 (int la) / pow10 (int (lb - 1))"
    unfolding q using bounds [OF a] bounds [OF b] a b by (intro frac_less) (simp_all add: la_def lb_def)
  also have "\<dots> = pow10 (k + 1)"
    using l pow10_add [of "k + 1" "int (lb - 1)"] by (simp add: k_def field_simps of_nat_diff)
  finally have up: "q < pow10 (k + 1)" .
  have "pow10 (k - 1) = pow10 (int (la - 1)) / pow10 (int lb)"
    using l pow10_add [of "k - 1" "int lb"] by (simp add: k_def field_simps of_nat_diff)
  also have "\<dots> \<le> q"
    unfolding q using bounds [OF a] bounds [OF b] b a by (intro frac_le) (simp_all add: la_def lb_def)
  finally have low: "pow10 (k - 1) \<le> q" .
  show "pow10 (decimal_point q - 1) \<le> q" and "q < pow10 (decimal_point q)"
    using up low by (auto simp: decimal_point_def ab Let_def k_def la_def lb_def)
qed

subsection \<open>Seventeen digits suffice\<close>

lemma shortest_at_17:
  assumes "is_double q" and "0 < q"
  shows "shortest_at q 17 \<noteq> None"
proof -
  define k where "k = decimal_point q"
  define scale where "scale = pow10 (k - 17)"
  define near where "near = round_half_even (q / scale)"
  have "\<bar>of_int near - q / scale\<bar> \<le> 1 / 2"
    unfolding near_def by (rule round_half_even_error)
  then have "\<bar>of_int near - q / scale\<bar> * scale \<le> 1 / 2 * scale"
    by (rule mult_right_mono) (simp add: scale_def less_imp_le)
  moreover have "of_int near * scale - q = (of_int near - q / scale) * scale"
    by (simp add: scale_def left_diff_distrib)
  then have "\<bar>of_int near * scale - q\<bar> = \<bar>of_int near - q / scale\<bar> * scale"
    by (simp add: abs_mult scale_def less_imp_le)
  ultimately have "\<bar>of_int near * scale - q\<bar> \<le> scale / 2"
    by simp
  also have "scale / 2 = pow10 (k - 1) / (2 * 10 ^ 16)"
    using pow10_add [of "k - 17" 16] by (simp add: scale_def pow10_def [of 16])
  also have "\<dots> \<le> q / (2 * 10 ^ 16)"
    using decimal_point_bounds(1) [OF assms(2)] by (simp add: k_def divide_right_mono)
  also have "\<dots> < q / 2 ^ 54"
    using assms(2) by (simp add: divide_strict_left_mono)
  finally have "fl64 (of_int near * scale) = Fin q"
    by (rule fl64_near [OF assms])
  then show ?thesis
    by (simp add: shortest_at_def Let_def k_def [symmetric] scale_def [symmetric] near_def [symmetric])
qed

lemma shortest_from_finds:
  "shortest_at q (n + k) \<noteq> None \<Longrightarrow> k < fuel \<Longrightarrow> \<exists>c m. shortest_from q n fuel = Some (c, m) \<and> n \<le> m \<and> shortest_at q m = Some c"
proof (induction fuel arbitrary: n k)
  case (Suc fuel)
  show ?case
  proof (cases "shortest_at q n")
    case None
    with Suc.prems obtain k' where k: "k = Suc k'"
      by (cases k) auto
    with Suc.prems Suc.IH [of "Suc n" k'] None show ?thesis
      by auto
  qed simp
qed simp

lemma shortest_at_reads_back:
  assumes "shortest_at q n = Some c"
  shows "fl64 (of_int c * pow10 (decimal_point q - int n)) = Fin q"
  using assms by (auto simp: shortest_at_def Let_def split: if_splits)

lemma shortest_at_pos:
  assumes "shortest_at q n = Some c" and "0 < q" and "0 < n"
  shows "0 < c"
proof -
  define scale where "scale = pow10 (decimal_point q - int n)"
  have "scale * 10 ^ (n - 1) = pow10 (decimal_point q - 1)"
    using assms(3) pow10_add [of "decimal_point q - int n" "int (n - 1)"] pow10_nat [of "n - 1"]
    by (simp add: scale_def of_nat_diff del: pow10_nat)
  moreover have "scale * 1 \<le> scale * 10 ^ (n - 1)"
    by (intro mult_left_mono) (simp_all add: scale_def less_imp_le)
  ultimately have "scale \<le> q"
    using decimal_point_bounds(1) [OF assms(2)] by simp
  then have x: "1 \<le> q / scale"
    by (simp add: scale_def)
  then have f: "1 \<le> \<lfloor>q / scale\<rfloor>"
    by (simp add: le_floor_iff)
  then have "1 \<le> round_half_even (q / scale)"
    by (simp add: round_half_even_def Let_def)
  moreover have "0 < round_half_even (q / scale) - 1" if "round_half_even (q / scale) \<noteq> \<lfloor>q / scale\<rfloor>"
    using that f by (auto simp: round_half_even_def Let_def split: if_splits)
  ultimately show ?thesis
    using assms(1) by (auto simp: shortest_at_def Let_def scale_def [symmetric] split: if_splits)
qed

theorem shortest_exists:
  assumes "is_double q" and "0 < q"
  obtains c n where "shortest q = Some (c, n)" and "0 < c"
    and "fl64 (of_int c * pow10 (decimal_point q - int n)) = Fin q"
proof -
  have "shortest_at q (1 + 16) \<noteq> None"
    using shortest_at_17 [OF assms] by simp
  from shortest_from_finds [OF this, of 17] obtain c n
    where "shortest q = Some (c, n)" "1 \<le> n" "shortest_at q n = Some c"
    by (auto simp: shortest_def)
  with that shortest_at_pos [of q n c] shortest_at_reads_back [of q n c] assms(2) show ?thesis
    by auto
qed

subsection \<open>The value of the digits\<close>

lemma digits_val_scale: "digits_val acc s = acc * 10 ^ length s + digits_val 0 s"
proof (induction s arbitrary: acc)
  case (Cons c s)
  from Cons [of "10 * acc + digit_val c"] Cons [of "digit_val c"] show ?case
    by (simp add: algebra_simps)
qed simp

lemma digits_val_concat: "digits_val 0 (s @ t) = digits_val 0 s * 10 ^ length t + digits_val 0 t"
proof -
  have "digits_val acc (s @ t) = digits_val (digits_val acc s) t" for acc
    by (induction s arbitrary: acc) simp_all
  then show ?thesis
    by (simp add: digits_val_scale [of "digits_val 0 s"])
qed

lemma digits_val_zeros [simp]: "digits_val 0 (zeros n) = 0"
proof -
  have "digit_val (CHR ''0'') = 0"
    by (simp add: digit_val_def char_code_def)
  then show ?thesis
    by (induction n) (simp_all add: zeros_def)
qed

lemma zeros_digits [simp]: "list_all is_digit (zeros n)" "length (zeros n) = n"
  by (simp_all add: zeros_def list_all_iff is_digit_def char_code_def)

lemma strip_zeros_split: "\<exists>n. s = strip_zeros s @ zeros n"
proof -
  have "takeWhile (\<lambda>c. c = CHR ''0'') r = zeros (length (takeWhile (\<lambda>c. c = CHR ''0'') r))" for r
    by (induction r) (simp_all add: zeros_def)
  then have "rev s = zeros (length (takeWhile (\<lambda>c. c = CHR ''0'') (rev s))) @ dropWhile (\<lambda>c. c = CHR ''0'') (rev s)"
    by (metis takeWhile_dropWhile_id)
  then have "s = strip_zeros s @ rev (zeros (length (takeWhile (\<lambda>c. c = CHR ''0'') (rev s))))"
    by (metis strip_zeros_def rev_append rev_rev_ident)
  moreover have "rev (zeros n) = zeros n" for n
    by (simp add: zeros_def)
  ultimately show ?thesis
    by metis
qed

lemma strip_zeros_value:
  assumes "list_all is_digit s" and "digits_val 0 s \<noteq> 0"
  shows "strip_zeros s \<noteq> []" and "list_all is_digit (strip_zeros s)"
    and "(of_nat (digits_val 0 s) :: rat) = of_nat (digits_val 0 (strip_zeros s)) * pow10 (int (length s) - int (length (strip_zeros s)))"
proof -
  obtain n where s: "s = strip_zeros s @ zeros n"
    using strip_zeros_split by blast
  then have "digits_val 0 s = digits_val 0 (strip_zeros s) * 10 ^ n"
    by (metis digits_val_concat digits_val_zeros zeros_digits(2) add_0_right)
  moreover have "int (length s) - int (length (strip_zeros s)) = int n"
    using arg_cong [OF s, of length] by simp
  ultimately show "(of_nat (digits_val 0 s) :: rat)
      = of_nat (digits_val 0 (strip_zeros s)) * pow10 (int (length s) - int (length (strip_zeros s)))"
    by simp
  show "strip_zeros s \<noteq> []"
    using assms(2) s by (metis append_Nil digits_val_zeros)
  show "list_all is_digit (strip_zeros s)"
    using assms(1) by (subst (asm) s) simp
qed

subsection \<open>The printed text\<close>

definition digit_text :: "go_string \<Rightarrow> bool" where
  "digit_text s \<longleftrightarrow> s \<noteq> [] \<and> list_all is_digit s"

definition whole_text :: "go_string \<Rightarrow> bool" where
  "whole_text w \<longleftrightarrow> digit_text w \<and> (w = ''0'' \<or> hd w \<noteq> CHR ''0'')"

definition frac_text :: "go_string \<Rightarrow> go_string \<Rightarrow> bool" where
  "frac_text f t \<longleftrightarrow> (if f = [] then t = [] else digit_text f \<and> t = CHR ''.'' # f)"

definition exp_text :: "int \<Rightarrow> go_string \<Rightarrow> bool" where
  "exp_text e t \<longleftrightarrow> (e = 0 \<and> t = [])
     \<or> t = [CHR ''e'', if e < 0 then CHR ''-'' else CHR ''+''] @ itoa_nat (nat \<bar>e\<bar>)"

text \<open>What ends a run of digits.\<close>

definition digit_stop :: "go_string \<Rightarrow> bool" where
  "digit_stop r \<longleftrightarrow> r = [] \<or> \<not> is_digit (hd r)"

lemma digits_split:
  assumes "list_all is_digit s" and "digit_stop t"
  shows "takeWhile is_digit (s @ t) = s" and "dropWhile is_digit (s @ t) = t"
  using assms by (induction s) (cases t; simp add: digit_stop_def)+

lemma digit_text_itoa_nat [simp]: "digit_text (itoa_nat n)"
  using itoa_nat_digits [of n] by (simp add: digit_text_def)

lemma number_digits_text: "digit_text s \<Longrightarrow> number_digits s = Some (s, [])"
  using digits_split [of s "[]"] unfolding number_digits_def digit_text_def digit_stop_def append_Nil2 by presburger

lemma exp_text_read:
  assumes "exp_text e t"
  shows "number_exp t = Some (t, [])" and "parse_exponent t = Some e"
    and "t = [] \<or> hd t = CHR ''e''"
proof -
  have "parse_int (CHR ''-'' # itoa_nat (nat \<bar>e\<bar>)) = Some e" if "e < 0"
    using that by (simp add: parse_int_def)
  moreover have "map_option int (parse_nat (itoa_nat (nat \<bar>e\<bar>))) = Some e" if "\<not> e < 0"
    using that by simp
  ultimately show "parse_exponent t = Some e"
    using assms by (auto simp: exp_text_def parse_exponent_def)
  show "number_exp t = Some (t, [])" and "t = [] \<or> hd t = CHR ''e''"
    using assms by (auto simp: exp_text_def number_exp_def prepend_def number_digits_text)
qed

lemma number_text:
  assumes w: "whole_text w" and f: "frac_text f ft" and e: "exp_text e et"
  shows "number_abs (w @ ft @ et) = Some (w @ ft @ et, [])"
    and "parse_decimal (w @ ft @ et) = Some (of_nat (digits_val 0 (w @ f)) * pow10 (e - int (length f)))"
    and "hd (w @ ft @ et) \<noteq> CHR ''-''" and "w @ ft @ et \<noteq> []"
proof -
  note et = exp_text_read [OF e]
  have wd: "w \<noteq> []" "list_all is_digit w"
    using w by (simp_all add: whole_text_def digit_text_def)
  have stop: "digit_stop et" "digit_stop (ft @ et)"
    using f et(3) by (cases "f = []"; auto simp: digit_stop_def frac_text_def is_digit_def char_code_def)+
  have int: "number_int (w @ ft @ et) = Some (w, ft @ et)"
    using digits_split [OF wd(2) stop(2)] w wd
    by (cases w) (auto simp: number_int_def whole_text_def)
  have frac: "number_frac (ft @ et) = Some (ft, et)" "parse_fraction (ft @ et) = Some (f, et)"
  proof -
    have "number_frac et = Some ([], et)" "parse_fraction et = Some ([], et)"
      using et(3) by (cases et; auto simp: number_frac_def parse_fraction_def)+
    moreover have "number_frac (CHR ''.'' # f @ et) = Some (CHR ''.'' # f, et)"
      "parse_fraction (CHR ''.'' # f @ et) = Some (f, et)" if "digit_text f"
      using that digits_split [of f et] stop(1)
      by (simp_all add: number_frac_def parse_fraction_def number_digits_def prepend_def digit_text_def)
    ultimately show "number_frac (ft @ et) = Some (ft, et)" "parse_fraction (ft @ et) = Some (f, et)"
      using f by (auto simp: frac_text_def split: if_splits)
  qed
  show "number_abs (w @ ft @ et) = Some (w @ ft @ et, [])"
    by (simp add: number_abs_def int frac(1) et(1))
  show "w @ ft @ et \<noteq> []" and head: "hd (w @ ft @ et) \<noteq> CHR ''-''"
    using wd by (cases w; auto simp: is_digit_def char_code_def)+
  show "parse_decimal (w @ ft @ et) = Some (of_nat (digits_val 0 (w @ f)) * pow10 (e - int (length f)))"
    using head wd digits_split [OF wd(2) stop(2)] frac(2) et(2) by (simp add: parse_decimal_def Let_def)
qed

text \<open>With the sign in front.\<close>

lemma signed_number_text:
  assumes "whole_text w" and "frac_text f ft" and "exp_text e et"
    and "v = of_nat (digits_val 0 (w @ f)) * pow10 (e - int (length f))"
  shows "number_literal (w @ ft @ et) \<and> parse_decimal (w @ ft @ et) = Some v"
    and "number_literal (CHR ''-'' # w @ ft @ et) \<and> parse_decimal (CHR ''-'' # w @ ft @ et) = Some (- v)"
proof -
  note t = number_text [OF assms(1-3)]
  show "number_literal (w @ ft @ et) \<and> parse_decimal (w @ ft @ et) = Some v"
    using t assms(4) by (simp add: number_literal_def parse_number_def del: append_is_Nil_conv)
  have "parse_decimal (CHR ''-'' # s) = map_option uminus (parse_decimal s)" if "s \<noteq> []" "hd s \<noteq> CHR ''-''" for s
    using that by (auto simp: parse_decimal_def Let_def bind_eq_Some_conv split: Option.bind_splits)
  with t show "number_literal (CHR ''-'' # w @ ft @ et) \<and> parse_decimal (CHR ''-'' # w @ ft @ et) = Some (- v)"
    using assms(4) by (simp add: number_literal_def parse_number_def prepend_def del: append_is_Nil_conv)
qed

text \<open>The two formats are of this shape, and have the value of the digits.\<close>

lemma format_f_whole:
  assumes "digit_text d" and "hd d \<noteq> CHR ''0''" and "0 < n"
  shows "whole_text (take n d @ zeros k)"
proof -
  have "take n d \<noteq> []" "hd (take n d) = hd d" "list_all is_digit (take n d)"
    using assms by (auto simp: digit_text_def hd_take list_all_iff dest: in_set_takeD)
  with assms(2) show ?thesis
    by (simp add: whole_text_def digit_text_def)
qed

lemma format_f_frac:
  assumes "digit_text d" and "\<not> int (length d) \<le> dp"
  shows "frac_text (zeros k @ drop (nat dp) d) (CHR ''.'' # zeros k @ drop (nat dp) d)"
proof -
  have "list_all is_digit (drop (nat dp) d)"
    using assms(1) by (auto simp: digit_text_def list_all_iff dest: in_set_dropD)
  moreover have "drop (nat dp) d \<noteq> []"
    using assms by (cases d) (auto simp: nat_le_iff digit_text_def)
  ultimately show ?thesis
    by (simp add: frac_text_def digit_text_def)
qed

lemma format_f_text:
  assumes d: "digit_text d" and head: "hd d \<noteq> CHR ''0''"
  obtains w f ft where "format_f d dp = w @ ft @ []" and "whole_text w" and "frac_text f ft"
    and "(of_nat (digits_val 0 (w @ f)) :: rat) * pow10 (0 - int (length f)) = of_nat (digits_val 0 d) * pow10 (dp - int (length d))"
proof -
  let ?n = "int (length d)"
  let ?w = "if 0 < dp then take (nat dp) d @ zeros (nat (dp - ?n)) else zeros 1"
  let ?f = "if ?n \<le> dp then [] else zeros (nat (- dp)) @ drop (nat dp) d"
  have "whole_text (zeros 1)"
    by (simp add: whole_text_def digit_text_def zeros_def is_digit_def char_code_def)
  then have whole: "whole_text ?w"
    using format_f_whole [OF d head] by simp
  have frac: "frac_text ?f (if ?n \<le> dp then [] else CHR ''.'' # ?f)"
    using format_f_frac [OF d, of dp "nat (- dp)"] by (cases "?n \<le> dp") (simp_all add: frac_text_def [of "[]"])
  have "(of_nat (digits_val 0 (?w @ ?f)) :: rat) * pow10 (0 - int (length ?f))
      = of_nat (digits_val 0 d) * pow10 (dp - ?n)"
  proof (cases "?n \<le> dp")
    case True
    moreover from this have "0 < dp"
      using d by (cases d) (auto simp: digit_text_def)
    ultimately show ?thesis
      by (simp add: digits_val_concat pow10_def)
  next
    case False
    then have "int (length ?f) = ?n - dp"
      by (auto simp: nat_le_iff)
    moreover have "digits_val 0 (?w @ ?f) = digits_val 0 d"
      using False by (cases "0 < dp") (simp add: zeros_def, simp add: digits_val_concat)
    ultimately show ?thesis
      by simp
  qed
  moreover have "format_f d dp = ?w @ (if ?n \<le> dp then [] else CHR ''.'' # ?f) @ []"
    by (simp add: format_f_def Let_def)
  ultimately show ?thesis
    using that [OF _ whole frac] by blast
qed

lemma format_e_text:
  assumes d: "digit_text d" and head: "hd d \<noteq> CHR ''0''"
  obtains w f ft et where "format_e d dp = w @ ft @ et" and "whole_text w" and "frac_text f ft" and "exp_text (dp - 1) et"
    and "(of_nat (digits_val 0 (w @ f)) :: rat) * pow10 (dp - 1 - int (length f)) = of_nat (digits_val 0 d) * pow10 (dp - int (length d))"
proof -
  obtain c r where cr: "d = c # r" "is_digit c" "list_all is_digit r"
    using d by (cases d) (auto simp: digit_text_def)
  let ?et = "[CHR ''e'', if dp - 1 < 0 then CHR ''-'' else CHR ''+''] @ itoa_nat (nat \<bar>dp - 1\<bar>)"
  show ?thesis
  proof (rule that [of "[c]" "if r = [] then [] else CHR ''.'' # r" ?et r])
    show "format_e d dp = [c] @ (if r = [] then [] else CHR ''.'' # r) @ ?et"
      by (simp add: format_e_def cr Let_def)
    show "whole_text [c]"
      using cr head by (simp add: whole_text_def digit_text_def)
    show "frac_text r (if r = [] then [] else CHR ''.'' # r)"
      using cr by (simp add: frac_text_def digit_text_def)
    show "exp_text (dp - 1) ?et"
      by (simp add: exp_text_def)
    show "(of_nat (digits_val 0 ([c] @ r)) :: rat) * pow10 (dp - 1 - int (length r))
        = of_nat (digits_val 0 d) * pow10 (dp - int (length d))"
      by (simp add: cr algebra_simps)
  qed
qed

text \<open>The shortest digits read back as the double, without zeros at their end.\<close>

lemma decimal_digits_read:
  assumes "is_double a" and "0 < a"
  obtains d dp where "decimal_digits a = Some (d, dp)" and "digit_text d" and "hd d \<noteq> CHR ''0''"
    and "fl64 (of_nat (digits_val 0 d) * pow10 (dp - int (length d))) = Fin a"
proof -
  obtain c n where s: "shortest a = Some (c, n)" and c: "0 < c"
    and reads: "fl64 (of_int c * pow10 (decimal_point a - int n)) = Fin a"
    using shortest_exists [OF assms] .
  define ds where "ds = itoa_nat (nat c)"
  define d where "d = strip_zeros ds"
  define dp where "dp = int (length ds) + (decimal_point a - int n)"
  have digits: "decimal_digits a = Some (d, dp)"
    by (simp add: decimal_digits_def s Let_def d_def ds_def dp_def)
  have ds: "list_all is_digit ds" "digits_val 0 ds = nat c"
    using itoa_nat_digits [of "nat c"] by (simp_all add: ds_def)
  have strip: "d \<noteq> []" "list_all is_digit d"
    "(of_nat (digits_val 0 ds) :: rat) = of_nat (digits_val 0 d) * pow10 (int (length ds) - int (length d))"
    unfolding d_def using ds c by (intro strip_zeros_value; simp)+
  have "hd ds = hd d"
    using strip(1) strip_zeros_split [of ds] by (metis d_def hd_append2)
  then have head: "hd d \<noteq> CHR ''0''"
    using itoa_nat_head [of "nat c"] c by (simp add: ds_def)
  have "of_int c = (of_nat (digits_val 0 ds) :: rat)"
    using ds c by simp
  then have "of_nat (digits_val 0 d) * pow10 (dp - int (length d)) = of_int c * pow10 (decimal_point a - int n)"
    using strip(3) pow10_add [of "int (length ds) - int (length d)" "decimal_point a - int n"]
    by (simp add: dp_def algebra_simps)
  with digits strip head reads that show ?thesis
    by (simp add: digit_text_def)
qed

definition number_of :: "go_string \<Rightarrow> rat \<Rightarrow> bool" where
  "number_of s v \<longleftrightarrow> number_literal s \<and> parse_decimal s = Some v"

lemma format_e_number:
  assumes "digit_text d" and "hd d \<noteq> CHR ''0''" and "v = of_nat (digits_val 0 d) * pow10 (dp - int (length d))"
  shows "number_of (format_e d dp) v" and "number_of (CHR ''-'' # format_e d dp) (- v)"
proof -
  obtain w f ft et where t: "format_e d dp = w @ ft @ et" "whole_text w" "frac_text f ft" "exp_text (dp - 1) et"
    "v = of_nat (digits_val 0 (w @ f)) * pow10 (dp - 1 - int (length f))"
    using format_e_text [OF assms(1,2), of dp] by (metis assms(3))
  show "number_of (format_e d dp) v" and "number_of (CHR ''-'' # format_e d dp) (- v)"
    using signed_number_text [OF t(2-5)] by (simp_all add: number_of_def t(1))
qed

lemma format_f_number:
  assumes "digit_text d" and "hd d \<noteq> CHR ''0''" and "v = of_nat (digits_val 0 d) * pow10 (dp - int (length d))"
  shows "number_of (format_f d dp) v" and "number_of (CHR ''-'' # format_f d dp) (- v)"
proof -
  obtain w f ft where t: "format_f d dp = w @ ft @ []" "whole_text w" "frac_text f ft"
    "v = of_nat (digits_val 0 (w @ f)) * pow10 (0 - int (length f))"
    using format_f_text [OF assms(1,2), of dp] by (metis assms(3))
  moreover have "exp_text 0 []"
    by (simp add: exp_text_def)
  ultimately show "number_of (format_f d dp) v" and "number_of (CHR ''-'' # format_f d dp) (- v)"
    using signed_number_text [OF t(2,3) _ t(4), of "[]"] by (simp_all add: number_of_def t(1))
qed

text \<open>Every double is printed, as a number literal, and read back.\<close>

theorem format_float_roundtrip:
  assumes "is_double q"
  obtains s where "format_float (Fin q) = Some s" and "number_literal s" and "ParseFloat s = Some (Fin q)"
proof (cases "q = 0")
  case True
  have "number_literal ''0'' \<and> parse_decimal ''0'' = Some 0"
    using signed_number_text(1) [of "''0''" "[]" "[]" 0 "[]" 0]
    by (simp add: whole_text_def digit_text_def frac_text_def exp_text_def is_digit_def digit_val_def char_code_def)
  with True that [of "''0''"] show ?thesis
    by (simp add: format_float_def ParseFloat_def fl64_def)
next
  case False
  define a where "a = \<bar>q\<bar>"
  have a: "is_double a" "0 < a"
    using assms False by (simp_all add: a_def abs_if)
  obtain d dp where digits: "decimal_digits a = Some (d, dp)" and d: "digit_text d" "hd d \<noteq> CHR ''0''"
    and reads: "fl64 (of_nat (digits_val 0 d) * pow10 (dp - int (length d))) = Fin a"
    by (rule decimal_digits_read [OF a])
  define v where "v = of_nat (digits_val 0 d) * pow10 (dp - int (length d))"
  have v: "fl64 v = Fin a" "fl64 (- v) = Fin (- a)"
    using reads by (simp_all add: fl64_minus_Fin v_def)
  define body where "body = (if a < 1 / 10 ^ 6 \<or> 10 ^ 21 \<le> a then format_e d dp else format_f d dp)"
  have "number_of body v" and "number_of (CHR ''-'' # body) (- v)"
    using format_e_number [OF d v_def] format_f_number [OF d v_def] by (simp_all add: body_def)
  moreover have "format_float (Fin q) = Some (if q < 0 then CHR ''-'' # body else body)"
    using \<open>q \<noteq> 0\<close> digits by (simp add: format_float_def a_def body_def)
  ultimately show ?thesis
    using that v a(2) by (auto simp: number_of_def ParseFloat_def a_def split: if_splits)
qed

end
