(* ===== verification/File_Documents.thy ===== *)
theory File_Documents
  imports Go_Format Measurements "HOL-Library.List_Lexorder" "HOL-Library.Char_ord"
begin

section \<open>The documents kept in files\<close>

text \<open>
  The structs that are written to \<^verbatim>\<open>config.json\<close>, \<^verbatim>\<open>devices.json\<close> and \<^verbatim>\<open>measurements.json\<close>,
  with their JSON tags: encoders in the order of the fields, with \<^verbatim>\<open>omitempty\<close>, and the tables of
  field decoders.  Decoding what was encoded gives the value back, as long as its numbers fit
  the Go types; invalid UTF-8 in its strings is replaced.
\<close>

subsection \<open>Omitted members\<close>

definition omit_if :: "bool \<Rightarrow> go_string \<Rightarrow> json \<Rightarrow> (go_string \<times> json) list" where
  "omit_if omit key v = (if omit then [] else [(key, v)])"

lemma dec_pairs_append:
  "dec_pairs fs (xs @ ys) s = (case dec_pairs fs xs s of None \<Rightarrow> None | Some s' \<Rightarrow> dec_pairs fs ys s')"
  by (induction fs xs s rule: dec_pairs.induct) (auto split: option.split)

lemma to_valid_utf8_empty [simp]: "to_valid_utf8 s = [] \<longleftrightarrow> s = []"
proof (cases s)
  case (Cons c t)
  then show ?thesis
    by (cases rule: to_valid_utf8_cases [of c t]) (simp_all add: replacement_def)
qed simp

text \<open>All field names are in lower case, so that they match only themselves among each other.\<close>

definition lower_name :: "go_string \<Rightarrow> bool" where
  "lower_name s \<longleftrightarrow> list_all (\<lambda>c. c = CHR ''_'' \<or> between 97 122 c) s"

lemma underscore_code: "char_code (CHR ''_'') = 95"
  by (simp add: char_code_def)

lemma lower_name_ascii: "lower_name s \<Longrightarrow> is_ascii s"
  by (fastforce simp: lower_name_def is_ascii_def list_all_iff between_def underscore_code)

lemma fold_lower_name: "lower_name s \<Longrightarrow> fold_name s = s"
proof (induction s)
  case (Cons c s)
  then have c: "c = CHR ''_'' \<or> between 97 122 c" and "lower_name s"
    by (simp_all add: lower_name_def)
  then have code: "char_code c < 123" and lower: "lower_char c = c"
    by (auto simp: between_def lower_char_def underscore_code)
  have "c \<noteq> char_of n" if "123 \<le> n mod 256" for n :: nat
  proof
    assume "c = char_of n"
    then have "char_code c = n mod 256"
      by (simp add: char_code_def)
    with code that show False
      by simp
  qed
  from this [of 226] this [of 197] show ?case
    using Cons.IH \<open>lower_name s\<close> lower by simp
qed simp

lemma name_matches_lower: "lower_name a \<Longrightarrow> lower_name b \<Longrightarrow> name_matches a b \<longleftrightarrow> a = b"
  by (simp add: name_matches_def fold_lower_name)

lemma lower_key: "lower_name k \<Longrightarrow> to_valid_utf8 k = k"
  by (simp add: ascii_to_valid lower_name_ascii)

lemma lower_names [simp]:
  "lower_name ''name''" "lower_name ''mac''" "lower_name ''did''" "lower_name ''product_id''"
  "lower_name ''model''" "lower_name ''aid''" "lower_name ''devices''" "lower_name ''version''"
  "lower_name ''temperature''" "lower_name ''humidity''" "lower_name ''battery''" "lower_name ''updated_at''"
  "lower_name ''bridge_name''" "lower_name ''pin''" "lower_name ''port''" "lower_name ''interfaces''"
  "lower_name ''state_dir''" "lower_name ''discovery''" "lower_name ''mqtt''" "lower_name ''mode''"
  "lower_name ''window_seconds''" "lower_name ''address''" "lower_name ''topic''" "lower_name ''client_id''"
  by (simp_all add: lower_name_def between_def char_code_def)

subsection \<open>Devices and the registry\<close>

definition device_doc :: "device \<Rightarrow> json" where
  "device_doc d = JObj ([(''name'', JStr (d_name d))]
     @ omit_if (d_mac d = []) ''mac'' (JStr (d_mac d))
     @ omit_if (d_did d = []) ''did'' (JStr (d_did d))
     @ omit_if (d_product_id d = 0) ''product_id'' (JNum (itoa (d_product_id d)))
     @ omit_if (d_model d = []) ''model'' (JStr (d_model d))
     @ omit_if (d_aid d = 0) ''aid'' (JNum (itoa (int (d_aid d)))))"

definition dec_aid :: "nat decoder" where
  "dec_aid j old = map_option nat (dec_uint64 j (int old))"

definition device_fields :: "device fields" where
  "device_fields =
     [(''name'', field dec_string d_name d_name_update),
      (''mac'', field dec_string d_mac d_mac_update),
      (''did'', field dec_string d_did d_did_update),
      (''product_id'', field dec_go_int d_product_id d_product_id_update),
      (''model'', field dec_string d_model d_model_update),
      (''aid'', field dec_aid d_aid d_aid_update)]"

definition zero_device :: device where
  "zero_device = \<lparr>d_name = [], d_mac = [], d_did = [], d_product_id = 0, d_model = [], d_aid = 0\<rparr>"

text \<open>A nil slice, which is what every empty list of devices is here, is printed as \<^verbatim>\<open>null\<close>.\<close>

definition list_doc :: "json list \<Rightarrow> json" where
  "list_doc js = (if js = [] then JNull else JArr js)"

definition registry_doc :: "device list \<Rightarrow> json" where
  "registry_doc ds = JObj [(''devices'', list_doc (map device_doc ds))]"

definition registry_fields :: "device list fields" where
  "registry_fields = [(''devices'', dec_list (dec_struct device_fields) zero_device)]"

text \<open>Numbers in the range of their Go types.\<close>

definition device_fits :: "device \<Rightarrow> bool" where
  "device_fits d \<longleftrightarrow> in_i32 (d_product_id d) \<and> in_u64 (int (d_aid d))"

definition utf8_device :: "device \<Rightarrow> device" where
  "utf8_device d = d\<lparr>d_name := to_valid_utf8 (d_name d), d_mac := to_valid_utf8 (d_mac d),
     d_did := to_valid_utf8 (d_did d), d_model := to_valid_utf8 (d_model d)\<rparr>"

definition utf8_clean :: "device \<Rightarrow> bool" where
  "utf8_clean d \<longleftrightarrow> valid_utf8 (d_name d) \<and> valid_utf8 (d_mac d) \<and> valid_utf8 (d_did d) \<and> valid_utf8 (d_model d)"

lemma utf8_device_clean: "utf8_clean d \<Longrightarrow> utf8_device d = d"
  by (simp add: utf8_clean_def utf8_device_def valid_utf8_def)

lemma utf8_device_fits [simp]: "device_fits (utf8_device d) \<longleftrightarrow> device_fits d"
  by (simp add: device_fits_def utf8_device_def)

lemma utf8_device_doc: "utf8_json (device_doc d) = device_doc (utf8_device d)"
  by (simp add: device_doc_def utf8_device_def omit_if_def lower_key)

lemma dec_aid_literal: "in_u64 (int n) \<Longrightarrow> dec_aid (JNum (itoa (int n))) old = Some n"
  by (simp add: dec_aid_def dec_uint64_def)

lemma dec_device_doc:
  assumes "device_fits d"
  shows "dec_struct device_fields (device_doc d) zero_device = Some d"
  using assms unfolding device_doc_def omit_if_def device_fits_def
  by (simp add: dec_struct_def dec_pairs_append dec_field_def field_def device_fields_def zero_device_def
      name_matches_lower dec_go_int_def dec_aid_literal)

lemma dec_items_docs:
  assumes "\<And>x. x \<in> set xs \<Longrightarrow> d (doc x) zero = Some x"
  shows "dec_items d zero (map doc xs) [] = Some xs"
  using assms by (induction xs) simp_all

lemma dec_list_docs:
  assumes "\<And>x. x \<in> set xs \<Longrightarrow> d (doc x) zero = Some x"
  shows "dec_list d zero (list_doc (map doc xs)) [] = Some xs"
  using dec_items_docs [of xs d doc zero] assms by (simp add: dec_list_def list_doc_def)

lemma dec_registry_doc:
  assumes "list_all device_fits ds"
  shows "dec_struct registry_fields (registry_doc ds) [] = Some ds"
proof -
  have "dec_list (dec_struct device_fields) zero_device (list_doc (map device_doc ds)) [] = Some ds"
    using assms by (intro dec_list_docs dec_device_doc) (simp add: list_all_iff)
  then show ?thesis
    by (simp add: registry_doc_def registry_fields_def dec_struct_def dec_field_def name_matches_lower)
qed

lemma utf8_registry_doc: "utf8_json (registry_doc ds) = registry_doc (map utf8_device ds)"
  by (simp add: registry_doc_def list_doc_def lower_key utf8_device_doc)

lemma device_doc_ok: "0 < n \<Longrightarrow> json_ok n (device_doc d)"
  by (simp add: device_doc_def omit_if_def number_literal_itoa)

lemma registry_doc_ok: "json_ok max_nesting (registry_doc ds)"
  by (simp add: registry_doc_def list_doc_def max_nesting_def list_all_iff device_doc_ok)

subsection \<open>Readings and the measurement cache\<close>

definition currentVersion :: int where
  "currentVersion = 1"

text \<open>A reading with a value that JSON cannot express has no document.\<close>

definition float_member :: "go_string \<Rightarrow> f64 option \<Rightarrow> (go_string \<times> json) list option" where
  "float_member key v =
     (case v of
        None \<Rightarrow> Some []
      | Some x \<Rightarrow> map_option (\<lambda>lit. [(key, JNum lit)]) (format_float x))"

definition reading_doc :: "reading \<Rightarrow> json option" where
  "reading_doc r = do {
     t \<leftarrow> float_member ''temperature'' (r_temperature r);
     h \<leftarrow> float_member ''humidity'' (r_humidity r);
     Some (JObj (t @ h
       @ (case r_battery r of None \<Rightarrow> [] | Some b \<Rightarrow> [(''battery'', JNum (itoa b))])
       @ omit_if (r_updated_at r = 0) ''updated_at'' (JNum (itoa (r_updated_at r)))))
   }"

definition reading_fields :: "reading fields" where
  "reading_fields =
     [(''temperature'', field dec_float_ptr r_temperature r_temperature_update),
      (''humidity'', field dec_float_ptr r_humidity r_humidity_update),
      (''battery'', field dec_int_ptr r_battery r_battery_update),
      (''updated_at'', field dec_int64 r_updated_at r_updated_at_update)]"

record cache_file =
  cf_version :: int
  cf_devices :: "(go_string \<times> reading) list"

definition cache_file_fields :: "cache_file fields" where
  "cache_file_fields =
     [(''version'', field dec_go_int cf_version cf_version_update),
      (''devices'', field (dec_map (dec_struct reading_fields) zero_reading) cf_devices cf_devices_update)]"

definition zero_cache_file :: cache_file where
  "zero_cache_file = \<lparr>cf_version = 0, cf_devices = []\<rparr>"

text \<open>The members of a map are printed in the order of their keys.\<close>

definition cache_entries :: "measurement_state \<Rightarrow> (go_string \<times> reading) list" where
  "cache_entries s = map (\<lambda>k. (k, the (s k))) (sorted_list_of_set (dom s))"

fun entry_docs :: "(go_string \<times> reading) list \<Rightarrow> (go_string \<times> json) list option" where
  "entry_docs [] = Some []"
| "entry_docs ((k, r) # es) =
     (case reading_doc r of
        None \<Rightarrow> None
      | Some j \<Rightarrow> map_option (\<lambda>ms. (k, j) # ms) (entry_docs es))"

definition cache_doc :: "measurement_state \<Rightarrow> json option" where
  "cache_doc s = map_option (\<lambda>ms. JObj [(''version'', JNum (itoa currentVersion)), (''devices'', JObj ms)])
     (entry_docs (cache_entries s))"

definition double_option :: "f64 option \<Rightarrow> bool" where
  "double_option v \<longleftrightarrow> (case v of None \<Rightarrow> True | Some x \<Rightarrow> double_value x)"

definition reading_fits :: "reading \<Rightarrow> bool" where
  "reading_fits r \<longleftrightarrow> double_option (r_temperature r) \<and> double_option (r_humidity r)
     \<and> (case r_battery r of None \<Rightarrow> True | Some b \<Rightarrow> in_i32 b) \<and> in_i64 (r_updated_at r)"

lemma float_member_ok:
  assumes "double_option v"
  shows "\<exists>ms. float_member key v = Some ms \<and> (lower_name key \<longrightarrow> map utf8_member ms = ms)
    \<and> list_all (\<lambda>(k, j). json_ok n j) ms
    \<and> ms = (case v of None \<Rightarrow> [] | Some x \<Rightarrow> [(key, JNum (the (format_float x)))])
    \<and> (\<forall>x old. v = Some x \<longrightarrow> dec_float_ptr (JNum (the (format_float x))) old = Some v)"
proof (cases v)
  case None
  then show ?thesis
    by (simp add: float_member_def)
next
  case (Some x)
  with assms obtain q where x: "x = Fin q" and "is_double q"
    by (auto simp: double_option_def double_value_def split: f64.splits)
  from format_float_roundtrip [OF this(2)] obtain lit
    where lit: "format_float (Fin q) = Some lit" "number_literal lit" "ParseFloat lit = Some (Fin q)" .
  with Some x show ?thesis
    by (simp add: float_member_def utf8_member_def lower_key dec_float_ptr_def)
qed

lemma put_new: "k \<notin> set (map fst m) \<Longrightarrow> put k v m = m @ [(k, v)]"
  by (induction k v m rule: put.induct) auto

lemma dec_reading_doc:
  assumes "reading_fits r" and "1 < n"
  obtains j where "reading_doc r = Some j" and "dec_struct reading_fields j zero_reading = Some r"
    and "json_ok (n - 1) j" and "utf8_json j = j"
proof -
  have doubles: "double_option (r_temperature r)" "double_option (r_humidity r)"
    using assms(1) by (simp_all add: reading_fits_def)
  obtain t where t: "float_member ''temperature'' (r_temperature r) = Some t"
    "lower_name ''temperature'' \<longrightarrow> map utf8_member t = t" "list_all (\<lambda>(k, j). json_ok (n - 1 - 1) j) t"
    "t = (case r_temperature r of None \<Rightarrow> [] | Some x \<Rightarrow> [(''temperature'', JNum (the (format_float x)))])"
    "\<forall>x old. r_temperature r = Some x \<longrightarrow> dec_float_ptr (JNum (the (format_float x))) old = Some (r_temperature r)"
    using float_member_ok [OF doubles(1), of "''temperature''" "n - 1 - 1"] by blast
  obtain h where h: "float_member ''humidity'' (r_humidity r) = Some h"
    "lower_name ''humidity'' \<longrightarrow> map utf8_member h = h" "list_all (\<lambda>(k, j). json_ok (n - 1 - 1) j) h"
    "h = (case r_humidity r of None \<Rightarrow> [] | Some x \<Rightarrow> [(''humidity'', JNum (the (format_float x)))])"
    "\<forall>x old. r_humidity r = Some x \<longrightarrow> dec_float_ptr (JNum (the (format_float x))) old = Some (r_humidity r)"
    using float_member_ok [OF doubles(2), of "''humidity''" "n - 1 - 1"] by blast
  let ?b = "case r_battery r of None \<Rightarrow> [] | Some b \<Rightarrow> [(''battery'', JNum (itoa b))]"
  let ?u = "omit_if (r_updated_at r = 0) ''updated_at'' (JNum (itoa (r_updated_at r)))"
  let ?s0 = "zero_reading"
  let ?s1 = "?s0\<lparr>r_temperature := r_temperature r\<rparr>"
  let ?s2 = "?s1\<lparr>r_humidity := r_humidity r\<rparr>"
  let ?s3 = "?s2\<lparr>r_battery := r_battery r\<rparr>"
  have "dec_pairs reading_fields t ?s0 = Some ?s1"
    using t(4,5) by (cases "r_temperature r")
      (simp_all add: dec_field_def field_def reading_fields_def name_matches_lower zero_reading_def)
  moreover have "dec_pairs reading_fields h ?s1 = Some ?s2"
    using h(4,5) by (cases "r_humidity r")
      (simp_all add: dec_field_def field_def reading_fields_def name_matches_lower zero_reading_def)
  moreover have "dec_pairs reading_fields ?b ?s2 = Some ?s3"
    using assms(1) by (cases "r_battery r")
      (simp_all add: dec_field_def field_def reading_fields_def name_matches_lower zero_reading_def
        dec_int_ptr_def dec_go_int_def reading_fits_def)
  moreover have "dec_pairs reading_fields ?u ?s3 = Some r"
    using assms(1) by (cases r)
      (simp add: omit_if_def dec_field_def field_def reading_fields_def name_matches_lower zero_reading_def
        dec_int64_def reading_fits_def)
  ultimately have dec: "dec_struct reading_fields (JObj (t @ h @ ?b @ ?u)) zero_reading = Some r"
    by (simp add: dec_struct_def dec_pairs_append)
  have u: "map utf8_member ?b = ?b" "map utf8_member ?u = ?u"
    by (simp_all add: utf8_member_def omit_if_def lower_key split: option.split)
  show ?thesis
  proof (rule that [OF _ dec])
    show "reading_doc r = Some (JObj (t @ h @ ?b @ ?u))"
      by (simp add: reading_doc_def t(1) h(1))
    show "json_ok (n - 1) (JObj (t @ h @ ?b @ ?u))"
      using t(3) h(3) assms(2) by (simp add: omit_if_def number_literal_itoa split: option.split)
    show "utf8_json (JObj (t @ h @ ?b @ ?u)) = JObj (t @ h @ ?b @ ?u)"
      using t(2) h(2) u by (simp add: utf8_json_obj del: utf8_json.simps)
  qed
qed

lemma dec_entries_docs:
  assumes "list_all (\<lambda>(k, r). reading_fits r) es" and "distinct (map fst (m @ es))" and "2 < n"
  shows "\<exists>ms. entry_docs es = Some ms \<and> dec_entries (dec_struct reading_fields) zero_reading ms m = Some (m @ es)
    \<and> list_all (\<lambda>(k, j). json_ok (n - 1 - 1) j) ms
    \<and> map utf8_member ms = map (\<lambda>(k, j). (to_valid_utf8 k, j)) ms \<and> map fst ms = map fst es"
  using assms
proof (induction es arbitrary: m)
  case Nil
  then show ?case
    by simp
next
  case (Cons e es)
  obtain k r where e: "e = (k, r)"
    by fastforce
  then have "reading_fits r"
    using Cons.prems(1) by simp
  moreover have "1 < n - 1"
    using assms(3) by simp
  ultimately obtain j where j: "reading_doc r = Some j" "dec_struct reading_fields j zero_reading = Some r"
    "json_ok (n - 1 - 1) j" "utf8_json j = j"
    by (rule dec_reading_doc)
  have "put k r m = m @ [(k, r)]"
    using Cons.prems(2) e by (intro put_new) simp
  with Cons.IH [of "m @ [(k, r)]"] Cons.prems e j show ?case
    by (auto simp: utf8_member_def)
qed

lemma cache_entries_keys:
  assumes "finite (dom s)"
  shows "distinct (map fst (cache_entries s))" and "set (map fst (cache_entries s)) = dom s"
    and "map_of (cache_entries s) = s"
proof -
  have keys: "map fst (cache_entries s) = sorted_list_of_set (dom s)"
    by (simp add: cache_entries_def comp_def)
  with assms show "distinct (map fst (cache_entries s))" and "set (map fst (cache_entries s)) = dom s"
    by simp_all
  show "map_of (cache_entries s) = s"
  proof
    fix k
    show "map_of (cache_entries s) k = s k"
      using assms by (cases "s k")
        (auto simp: cache_entries_def map_of_map_keys map_of_eq_None_iff image_image domIff comp_def)
  qed
qed

definition storable_cache :: "measurement_state \<Rightarrow> bool" where
  "storable_cache s \<longleftrightarrow> finite (dom s) \<and> (\<forall>r \<in> ran s. reading_fits r) \<and> (\<forall>k \<in> dom s. valid_utf8 k)"

lemma cache_entries_fit: "storable_cache s \<Longrightarrow> list_all (\<lambda>(k, r). reading_fits r) (cache_entries s)"
  by (auto simp: storable_cache_def list_all_iff cache_entries_def ran_def)

lemma dec_cache_doc:
  assumes "storable_cache s"
  shows "\<exists>j. cache_doc s = Some j \<and> json_ok max_nesting j \<and> utf8_json j = j
    \<and> dec_struct cache_file_fields j zero_cache_file
        = Some \<lparr>cf_version = currentVersion, cf_devices = cache_entries s\<rparr>"
proof -
  have fin: "finite (dom s)" and keys: "\<forall>k \<in> dom s. to_valid_utf8 k = k"
    using assms by (simp_all add: storable_cache_def valid_utf8_def)
  obtain ms where ms: "entry_docs (cache_entries s) = Some ms"
    "dec_entries (dec_struct reading_fields) zero_reading ms [] = Some (cache_entries s)"
    "list_all (\<lambda>(k, j). json_ok (max_nesting - 1 - 1) j) ms"
    "map utf8_member ms = map (\<lambda>(k, j). (to_valid_utf8 k, j)) ms" "map fst ms = map fst (cache_entries s)"
    using dec_entries_docs [OF cache_entries_fit [OF assms], of "[]" max_nesting] cache_entries_keys(1) [OF fin]
    by (auto simp: max_nesting_def)
  have "\<forall>k \<in> set (map fst ms). to_valid_utf8 k = k"
    using keys cache_entries_keys(2) [OF fin] ms(5) by simp
  then have "map utf8_member ms = ms"
    unfolding ms(4) by (intro map_idI) auto
  moreover have "in_i32 currentVersion"
    by (simp add: currentVersion_def in_i32_def)
  ultimately show ?thesis
    using ms(1-3)
    by (simp add: cache_doc_def utf8_json_obj utf8_member_def [of "(_, _)"] lower_key max_nesting_def
        number_literal_itoa dec_struct_def dec_field_def field_def cache_file_fields_def name_matches_lower
        dec_go_int_def dec_map_def zero_cache_file_def del: utf8_json.simps(3))
qed

end
