(* ===== verification/Config_Correct.thy ===== *)
theory Config_Correct
  imports Config
begin

section \<open>Correctness of validation and PIN generation\<close>

text \<open>
  \<open>NormalizeAndValidate\<close> accepts exactly the configurations whose normal form is valid: what it
  returns satisfies \<open>valid_config\<close>, a valid configuration in normal form is returned unchanged,
  and so a second pass changes nothing.  \<open>generatePin\<close> returns a PIN that passes
  \<open>validatePin\<close>, and more than twelve different draws are always enough.
\<close>

subsection \<open>Devices\<close>

lemma trim_space_empty_iff [simp]: "trim_space (trim_space s) = [] \<longleftrightarrow> trim_space s = []"
  by simp

lemma normalize_device_normal: "device_normal (normalize_device i d)"
  using trim_default_name [of i]
  by (simp add: device_normal_def normalize_device_def Let_def config_NormalizeMAC_eq)

lemma normalize_device_named: "d_name (normalize_device i d) \<noteq> []"
  by (simp add: normalize_device_def Let_def)

lemma normalize_device_id: "device_normal d \<Longrightarrow> d_name d \<noteq> [] \<Longrightarrow> normalize_device i d = d"
  by (simp add: device_normal_def normalize_device_def Let_def)

lemma normalize_device_aid [simp]: "d_aid (normalize_device i d) = d_aid d"
  by (simp add: normalize_device_def Let_def)

text \<open>The seen keys and AIDs after a device that passes.\<close>

definition seen_after :: "device \<Rightarrow> seen_state \<Rightarrow> seen_state" where
  "seen_after d st = (device_key_of d # fst st, (if 0 < d_aid d then d_aid d # snd st else snd st))"

definition passes :: "device \<Rightarrow> seen_state \<Rightarrow> bool" where
  "passes d st \<longleftrightarrow> (d_mac d \<noteq> [] \<or> d_did d \<noteq> []) \<and> (d_mac d \<noteq> [] \<longrightarrow> valid_mac (d_mac d))
     \<and> device_key_of d \<notin> set (fst st) \<and> d_aid d \<noteq> 1
     \<and> (0 < d_aid d \<longrightarrow> d_aid d \<notin> set (snd st))"

lemma check_device_iff: "check_device i d st = Inr st' \<longleftrightarrow> passes d st \<and> st' = seen_after d st"
  by (cases st) (auto simp: check_device_def passes_def seen_after_def)

lemma check_device_Inl: "check_device i d st = Inl err \<Longrightarrow> \<not> passes d st"
  by (cases st) (auto simp: check_device_def passes_def split: if_splits)

text \<open>
  A list of devices is accepted relative to what has been seen: the keys and AIDs are new and
  pairwise different.
\<close>

definition fresh_devices :: "seen_state \<Rightarrow> device list \<Rightarrow> bool" where
  "fresh_devices st ds \<longleftrightarrow> distinct (map device_key_of ds) \<and> distinct (positive_aids ds)
     \<and> set (map device_key_of ds) \<inter> set (fst st) = {} \<and> set (positive_aids ds) \<inter> set (snd st) = {}"

lemma fresh_devices_Cons:
  "fresh_devices st (d # ds) \<longleftrightarrow>
     device_key_of d \<notin> set (fst st) \<and> (0 < d_aid d \<longrightarrow> d_aid d \<notin> set (snd st))
     \<and> fresh_devices (seen_after d st) ds"
  by (auto simp: fresh_devices_def seen_after_def positive_aids_def)

lemma normalize_devices_sound:
  assumes "normalize_devices i st ds = Inr ds'"
  shows "list_all (\<lambda>d. device_ok d \<and> device_normal d) ds' \<and> fresh_devices st ds'"
  using assms
proof (induction ds arbitrary: i st ds')
  case Nil
  then show ?case
    by (simp add: fresh_devices_def positive_aids_def)
next
  case (Cons d ds)
  let ?d = "normalize_device i d"
  obtain es where p: "passes ?d st" and es: "normalize_devices (Suc i) (seen_after ?d st) ds = Inr es"
    and ds': "ds' = ?d # es"
    using Cons.prems by (auto simp: check_device_iff split: sum.splits)
  have "device_ok ?d"
    using p normalize_device_named by (simp add: passes_def device_ok_def)
  with Cons.IH [OF es] p normalize_device_normal show ?case
    by (simp add: ds' fresh_devices_Cons passes_def)
qed

lemma normalize_devices_complete:
  assumes "list_all (\<lambda>d. device_ok d \<and> device_normal d) ds" and "fresh_devices st ds"
  shows "normalize_devices i st ds = Inr ds"
  using assms
proof (induction ds arbitrary: i st)
  case Nil
  then show ?case by simp
next
  case (Cons d ds)
  then have d: "device_ok d" "device_normal d"
    by simp_all
  then have norm: "normalize_device i d = d"
    by (intro normalize_device_id) (simp_all add: device_ok_def)
  have "passes d st" and "fresh_devices (seen_after d st) ds"
    using Cons.prems(2) d(1) by (simp_all add: passes_def device_ok_def fresh_devices_Cons)
  then have "check_device i d st = Inr (seen_after d st)"
    by (simp add: check_device_iff)
  moreover have "normalize_devices (Suc i) (seen_after d st) ds = Inr ds"
    using Cons \<open>fresh_devices (seen_after d st) ds\<close> by simp
  ultimately show ?case
    by (simp add: norm)
qed

lemma fresh_devices_init: "fresh_devices ([], []) ds \<longleftrightarrow>
    distinct (map device_key_of ds) \<and> distinct (positive_aids ds)"
  by (simp add: fresh_devices_def)

subsection \<open>The whole configuration\<close>

lemma or_default_nonblank: "trim_space dflt \<noteq> [] \<Longrightarrow> trim_space (or_default s dflt) \<noteq> []"
  by (simp add: or_default_def)

lemma or_default_id: "trim_space s \<noteq> [] \<Longrightarrow> or_default s dflt = s"
  by (simp add: or_default_def)

lemma normalize_discovery_sound: "normalize_discovery ds = Inr ds' \<Longrightarrow> discovery_ok ds'"
  by (auto simp: normalize_discovery_def discovery_ok_def Let_def split: if_splits)

lemma normalize_discovery_complete: "discovery_ok ds \<Longrightarrow> normalize_discovery ds = Inr ds"
  by (cases ds) (auto simp: normalize_discovery_def discovery_ok_def Let_def)

lemma normalize_mqtt_sound: "mqtt_ok (normalize_mqtt m)"
  by (simp add: mqtt_ok_def normalize_mqtt_def or_default_nonblank)

lemma normalize_mqtt_complete: "mqtt_ok m \<Longrightarrow> normalize_mqtt m = m"
  by (cases m) (simp add: mqtt_ok_def normalize_mqtt_def or_default_id)

lemma validatePin_iff: "validatePin pin = None \<longleftrightarrow> pin_ok pin"
  unfolding validatePin_def pin_ok_def by auto

lemma strip_pin_digits: "list_all is_digit pin \<Longrightarrow> strip_pin pin = pin"
  by (induction pin) (auto simp: strip_pin_def is_digit_def char_code_def)

lemma NormalizeAndValidate_Inr:
  "NormalizeAndValidate path c = Inr c' \<longleftrightarrow>
     (\<exists>disc devices. normalize_discovery (c_discovery c) = Inr disc
        \<and> normalize_devices 0 ([], []) (c_devices c) = Inr devices
        \<and> pin_ok (strip_pin (c_pin c))
        \<and> 1 \<le> (if c_port c = 0 then DefaultPort else c_port c)
        \<and> (if c_port c = 0 then DefaultPort else c_port c) \<le> 65535
        \<and> c' = c\<lparr>c_bridge_name := or_default (c_bridge_name c) DefaultBridgeName,
             c_pin := strip_pin (c_pin c), c_port := (if c_port c = 0 then DefaultPort else c_port c),
             c_state_dir := (if trim_space (c_state_dir c) = [] then default_state_dir path
               else c_state_dir c),
             c_discovery := disc, c_mqtt := normalize_mqtt (c_mqtt c), c_devices := devices\<rparr>)"
  unfolding validatePin_iff [symmetric]
  by (auto simp: NormalizeAndValidate_def Let_def split: sum.splits option.splits)

lemma NormalizeAndValidate_sound:
  assumes "NormalizeAndValidate path c = Inr c'"
  shows "valid_config c'"
  using assms normalize_discovery_sound normalize_devices_sound [of 0 "([], [])" "c_devices c"]
  by (auto simp: NormalizeAndValidate_Inr valid_config_def normalize_mqtt_sound or_default_nonblank
      devices_ok_def fresh_devices_init)

lemma NormalizeAndValidate_complete:
  assumes "valid_config c" and "trim_space (c_state_dir c) = [] \<longrightarrow> c_state_dir c = default_state_dir path"
  shows "NormalizeAndValidate path c = Inr c"
proof -
  have "normalize_devices 0 ([], []) (c_devices c) = Inr (c_devices c)"
    using assms(1) by (intro normalize_devices_complete)
      (simp_all add: valid_config_def devices_ok_def fresh_devices_init)
  moreover have "normalize_discovery (c_discovery c) = Inr (c_discovery c)"
    using assms(1) by (intro normalize_discovery_complete) (simp add: valid_config_def)
  moreover have "strip_pin (c_pin c) = c_pin c"
    using assms(1) by (intro strip_pin_digits) (simp add: valid_config_def pin_ok_def)
  ultimately show ?thesis
    using assms by (cases c)
      (auto simp: NormalizeAndValidate_Inr valid_config_def normalize_mqtt_complete or_default_id)
qed

subsection \<open>PINs\<close>

lemma itoa_nat_length: "n < 10 ^ k \<Longrightarrow> 0 < k \<Longrightarrow> length (itoa_nat n) \<le> k"
proof (induction n arbitrary: k rule: itoa_nat.induct)
  case (1 n)
  show ?case
  proof (cases "n < 10")
    case True
    with "1.prems" show ?thesis
      by (simp add: itoa_nat.simps [of n])
  next
    case False
    then obtain j where k: "k = Suc j" and "0 < j"
      using "1.prems" by (cases k; cases "k - 1") auto
    then have "n div 10 < 10 ^ j"
      using "1.prems" by (simp add: less_mult_imp_div_less)
    with "1.IH" [OF False] \<open>0 < j\<close> have "length (itoa_nat (n div 10)) \<le> j"
      by blast
    with False k show ?thesis
      by (simp add: itoa_nat.simps [of n])
  qed
qed

lemma pad8_format:
  assumes "n < 100000000"
  shows "length (pad8 n) = 8" and "list_all is_digit (pad8 n)"
proof -
  have "length (itoa_nat n) \<le> 8"
    using assms by (intro itoa_nat_length) simp_all
  then show "length (pad8 n) = 8"
    by (simp add: pad8_def)
  show "list_all is_digit (pad8 n)"
    using itoa_nat_digits [of n] by (auto simp: pad8_def list_all_iff is_digit_def char_code_def)
qed

lemma pin_of_bytes_format: "length (pin_of_bytes b) = 8 \<and> list_all is_digit (pin_of_bytes b)"
  unfolding pin_of_bytes_def by (intro conjI pad8_format) (simp_all add: nat_less_iff)

lemma pin_of_bytes_ok: "pin_ok (pin_of_bytes b) \<longleftrightarrow> pin_of_bytes b \<notin> set invalidPins"
  using pin_of_bytes_format by (simp add: pin_ok_def)

lemma generatePin_valid: "generatePin reads = Some (PinGenerated pin) \<Longrightarrow> pin_ok pin"
  by (induction reads rule: generatePin.induct) (auto simp: validatePin_iff split: if_splits)

lemma generatePin_stuck:
  "generatePin reads = None \<Longrightarrow> \<forall>r \<in> set reads. \<exists>b. r = Some b \<and> pin_of_bytes b \<in> set invalidPins"
  by (induction reads rule: generatePin.induct)
     (auto simp: validatePin_iff pin_of_bytes_ok split: if_splits)

lemma generatePin_error: "None \<notin> set reads \<Longrightarrow> generatePin reads \<noteq> Some PinReadError"
  by (induction reads rule: generatePin.induct) (auto split: if_splits)

lemma generatePin_enough:
  assumes "None \<notin> set reads" and "12 < card ((pin_of_bytes \<circ> the) ` set reads)"
  shows "\<exists>pin. generatePin reads = Some (PinGenerated pin)"
proof (cases "generatePin reads")
  case None
  then have "(pin_of_bytes \<circ> the) ` set reads \<subseteq> set invalidPins"
    by (fastforce dest: generatePin_stuck)
  then have "card ((pin_of_bytes \<circ> the) ` set reads) \<le> card (set invalidPins)"
    by (rule card_mono [rotated]) simp
  also have "\<dots> \<le> length invalidPins"
    by (rule card_length)
  also have "length invalidPins = 12"
    by (simp add: invalidPins_def)
  finally show ?thesis
    using assms(2) by simp
next
  case (Some out)
  with generatePin_error [OF assms(1)] show ?thesis
    by (cases out) auto
qed

lemma FormatPin_strip:
  assumes "length pin = 8" and "list_all is_digit pin"
  shows "strip_pin (FormatPin pin) = pin"
proof -
  have "list_all is_digit (take 3 pin)" "list_all is_digit (take 2 (drop 3 pin))"
    "list_all is_digit (drop 5 pin)"
    using assms(2) by (auto simp: list_all_iff dest: in_set_takeD in_set_dropD)
  then have "strip_pin (FormatPin pin) = take 3 pin @ take 2 (drop 3 pin) @ drop 5 pin"
    using assms(1) strip_pin_digits
    by (simp add: FormatPin_def) (simp add: strip_pin_def)
  also have "\<dots> = pin"
    using append_take_drop_id [of 2 "drop 3 pin"] append_take_drop_id [of 3 pin] by simp
  finally show ?thesis .
qed

lemma Defaults_valid:
  assumes "pin_ok pin"
  shows "NormalizeAndValidate path (Defaults pin path) = Inr (Defaults pin path)"
  using assms by (intro NormalizeAndValidate_complete)
    (simp_all add: Defaults_def valid_config_def discovery_ok_def mqtt_ok_def devices_ok_def
      positive_aids_def DefaultPort_def DefaultDiscoveryWindowSeconds_def)

end
