(* ===== verification/Config_Document.thy ===== *)
theory Config_Document
  imports File_Documents Config_Correct
begin

section \<open>The configuration file\<close>

text \<open>
  The document \<^verbatim>\<open>writeJSON\<close> prints for a \<^verbatim>\<open>config.Config\<close>, and the table by which
  \<^verbatim>\<open>json.Unmarshal\<close> reads one.  A configuration that was printed is read back unchanged, but
  for invalid UTF-8.
\<close>

subsection \<open>Printing\<close>

definition discovery_doc :: "discovery \<Rightarrow> json" where
  "discovery_doc ds = JObj
     (omit_if (ds_mode ds = []) ''mode'' (JStr (ds_mode ds))
      @ omit_if (ds_window_seconds ds = 0) ''window_seconds'' (JNum (itoa (ds_window_seconds ds))))"

definition mqtt_doc :: "mqtt_config \<Rightarrow> json" where
  "mqtt_doc m = JObj [(''address'', JStr (m_address m)), (''topic'', JStr (m_topic m)),
     (''client_id'', JStr (m_client_id m))]"

text \<open>\<^verbatim>\<open>omitempty\<close> leaves out empty slices; it has no effect on the struct \<^verbatim>\<open>discovery\<close>.\<close>

definition config_doc :: "config \<Rightarrow> json" where
  "config_doc c = JObj
     ([(''bridge_name'', JStr (c_bridge_name c)), (''pin'', JStr (c_pin c)), (''port'', JNum (itoa (c_port c)))]
      @ omit_if (c_interfaces c = []) ''interfaces'' (JArr (map JStr (c_interfaces c)))
      @ [(''state_dir'', JStr (c_state_dir c)), (''discovery'', discovery_doc (c_discovery c)),
         (''mqtt'', mqtt_doc (c_mqtt c))]
      @ omit_if (c_devices c = []) ''devices'' (JArr (map device_doc (c_devices c))))"

subsection \<open>Reading\<close>

definition discovery_fields :: "discovery fields" where
  "discovery_fields =
     [(''mode'', field dec_string ds_mode ds_mode_update),
      (''window_seconds'', field dec_go_int ds_window_seconds ds_window_seconds_update)]"

definition mqtt_fields :: "mqtt_config fields" where
  "mqtt_fields =
     [(''address'', field dec_string m_address m_address_update),
      (''topic'', field dec_string m_topic m_topic_update),
      (''client_id'', field dec_string m_client_id m_client_id_update)]"

definition config_fields :: "config fields" where
  "config_fields =
     [(''bridge_name'', field dec_string c_bridge_name c_bridge_name_update),
      (''pin'', field dec_string c_pin c_pin_update),
      (''port'', field dec_go_int c_port c_port_update),
      (''interfaces'', field (dec_list dec_string []) c_interfaces c_interfaces_update),
      (''state_dir'', field dec_string c_state_dir c_state_dir_update),
      (''discovery'', field (dec_struct discovery_fields) c_discovery c_discovery_update),
      (''mqtt'', field (dec_struct mqtt_fields) c_mqtt c_mqtt_update),
      (''devices'', field (dec_list (dec_struct device_fields) zero_device) c_devices c_devices_update)]"

definition zero_config :: config where
  "zero_config = \<lparr>c_bridge_name = [], c_pin = [], c_port = 0, c_interfaces = [], c_state_dir = [],
     c_discovery = \<lparr>ds_mode = [], ds_window_seconds = 0\<rparr>,
     c_mqtt = \<lparr>m_address = [], m_topic = [], m_client_id = []\<rparr>, c_devices = []\<rparr>"

subsection \<open>The round trip\<close>

definition config_fits :: "config \<Rightarrow> bool" where
  "config_fits c \<longleftrightarrow> in_i32 (c_port c) \<and> in_i32 (ds_window_seconds (c_discovery c))
     \<and> list_all device_fits (c_devices c)"

definition config_clean :: "config \<Rightarrow> bool" where
  "config_clean c \<longleftrightarrow> valid_utf8 (c_bridge_name c) \<and> valid_utf8 (c_pin c) \<and> list_all valid_utf8 (c_interfaces c)
     \<and> valid_utf8 (c_state_dir c) \<and> valid_utf8 (ds_mode (c_discovery c)) \<and> valid_utf8 (m_address (c_mqtt c))
     \<and> valid_utf8 (m_topic (c_mqtt c)) \<and> valid_utf8 (m_client_id (c_mqtt c)) \<and> list_all utf8_clean (c_devices c)"

lemma dec_discovery_doc:
  "in_i32 (ds_window_seconds d) \<Longrightarrow>
     dec_struct discovery_fields (discovery_doc d) \<lparr>ds_mode = [], ds_window_seconds = 0\<rparr> = Some d"
  by (simp add: discovery_doc_def omit_if_def dec_struct_def dec_pairs_append dec_field_def field_def
      discovery_fields_def name_matches_lower dec_go_int_def)

lemma dec_mqtt_doc: "dec_struct mqtt_fields (mqtt_doc m) m0 = Some m"
  by (simp add: mqtt_doc_def dec_struct_def dec_field_def field_def mqtt_fields_def name_matches_lower)

lemma dec_interfaces: "dec_list dec_string [] (JArr (map JStr xs)) old = Some xs"
proof -
  have "dec_items dec_string [] (map JStr xs) old = Some xs" for old
    by (induction xs arbitrary: old) simp_all
  then show ?thesis
    by (simp add: dec_list_def)
qed

lemma dec_devices_docs:
  "list_all device_fits ds \<Longrightarrow>
     dec_list (dec_struct device_fields) zero_device (JArr (map device_doc ds)) [] = Some ds"
  using dec_items_docs [of ds "dec_struct device_fields" device_doc zero_device]
  by (simp add: dec_list_def dec_device_doc list_all_iff)

lemma dec_config_doc:
  assumes "config_fits c"
  shows "dec_struct config_fields (config_doc c) zero_config = Some c"
proof -
  let ?a = "[(''bridge_name'', JStr (c_bridge_name c)), (''pin'', JStr (c_pin c)), (''port'', JNum (itoa (c_port c)))]"
  let ?b = "omit_if (c_interfaces c = []) ''interfaces'' (JArr (map JStr (c_interfaces c)))"
  let ?d = "[(''state_dir'', JStr (c_state_dir c)), (''discovery'', discovery_doc (c_discovery c)),
         (''mqtt'', mqtt_doc (c_mqtt c))]"
  let ?e = "omit_if (c_devices c = []) ''devices'' (JArr (map device_doc (c_devices c)))"
  let ?s1 = "zero_config\<lparr>c_bridge_name := c_bridge_name c, c_pin := c_pin c, c_port := c_port c\<rparr>"
  let ?s2 = "?s1\<lparr>c_interfaces := c_interfaces c\<rparr>"
  let ?s3 = "?s2\<lparr>c_state_dir := c_state_dir c, c_discovery := c_discovery c, c_mqtt := c_mqtt c\<rparr>"
  note fields = dec_field_def field_def config_fields_def name_matches_lower zero_config_def
  have "dec_pairs config_fields ?a zero_config = Some ?s1"
    using assms by (simp add: fields dec_go_int_def config_fits_def)
  moreover have "dec_pairs config_fields ?b ?s1 = Some ?s2"
    by (simp add: omit_if_def fields dec_interfaces)
  moreover have "dec_pairs config_fields ?d ?s2 = Some ?s3"
    using assms by (simp add: fields dec_discovery_doc dec_mqtt_doc config_fits_def)
  moreover have "dec_pairs config_fields ?e ?s3 = Some c"
    using assms by (cases c) (simp add: omit_if_def fields dec_devices_docs config_fits_def)
  ultimately show ?thesis
    by (simp add: config_doc_def dec_struct_def dec_pairs_append del: append.simps dec_pairs.simps)
qed

lemma utf8_config_doc: "config_clean c \<Longrightarrow> utf8_json (config_doc c) = config_doc c"
proof -
  assume "config_clean c"
  then have ids: "map (\<lambda>x. JStr (to_valid_utf8 x)) (c_interfaces c) = map JStr (c_interfaces c)"
    "map (\<lambda>d. device_doc (utf8_device d)) (c_devices c) = map device_doc (c_devices c)"
    by (auto simp: config_clean_def valid_utf8_def utf8_device_clean list_all_iff)
  with \<open>config_clean c\<close> show ?thesis
    by (simp add: config_doc_def config_clean_def valid_utf8_def discovery_doc_def mqtt_doc_def omit_if_def
        lower_key utf8_device_doc comp_def)
qed

lemma config_doc_ok: "json_ok max_nesting (config_doc c)"
  by (simp add: config_doc_def omit_if_def max_nesting_def list_all_iff device_doc_ok number_literal_itoa
      discovery_doc_def mqtt_doc_def)

subsection \<open>A normalised configuration is clean\<close>

lemma pin_ok_ascii: "pin_ok pin \<Longrightarrow> valid_utf8 pin"
  by (rule ascii_valid) (auto simp: pin_ok_def is_ascii_def list_all_iff is_digit_def char_code_def)

lemma default_strings_clean [simp]:
  "valid_utf8 DefaultBroker" "valid_utf8 DefaultTopic" "valid_utf8 DefaultBridgeName"
  "valid_utf8 DefaultClientID" "valid_utf8 DiscoveryModeAuto"
  by (rule ascii_valid; simp add: config_strings is_ascii_def char_code_def)+

lemma Defaults_clean:
  assumes "pin_ok pin" and "valid_utf8 (default_state_dir path)"
  shows "config_clean (Defaults pin path)"
  using assms by (simp add: config_clean_def Defaults_def pin_ok_ascii)

lemma Defaults_fits: "config_fits (Defaults pin path)"
  by (simp add: config_fits_def Defaults_def in_i32_def DefaultPort_def DefaultDiscoveryWindowSeconds_def)

end
