(* ===== verification/Stored_Data.thy ===== *)
theory Stored_Data
  imports File_Store Config_Document
begin

section \<open>Configuration, registry and cache on disk\<close>

text \<open>
  \<^verbatim>\<open>internal/registry/registry.go\<close>, \<^verbatim>\<open>Load\<close> and \<^verbatim>\<open>Save\<close> of \<^verbatim>\<open>internal/measurements/state.go\<close>, and
  \<^verbatim>\<open>LoadOrCreate\<close> and \<^verbatim>\<open>writeJSON\<close> of \<^verbatim>\<open>internal/config/config.go\<close>, over the store of
  \<^verbatim>\<open>File_Store\<close> and the documents of \<^verbatim>\<open>File_Documents\<close> and \<^verbatim>\<open>Config_Document\<close>.

  The locale \<^verbatim>\<open>atomic_save\<close> states what the three savers promise about the file they replace,
  \<^verbatim>\<open>saved_document\<close> adds what the loader gives back.  Both are interpreted on the functions of the
  program.
\<close>

subsection \<open>Texts\<close>

text \<open>\<^verbatim>\<open>json.MarshalIndent(value, "", "  ")\<close> and the newline appended to it.\<close>

definition file_text :: "json \<Rightarrow> go_string" where
  "file_text j = print_json 0 j @ [CHR 0x0A]"

text \<open>\<^verbatim>\<open>json.Unmarshal\<close> into a struct.\<close>

definition unmarshal :: "'a fields \<Rightarrow> 'a \<Rightarrow> go_string \<Rightarrow> 'a option" where
  "unmarshal fs zero b = (case parse_json b of None \<Rightarrow> None | Some j \<Rightarrow> dec_struct fs j zero)"

lemma unmarshal_text:
  "json_ok max_nesting j \<Longrightarrow> unmarshal fs zero (file_text j) = dec_struct fs (utf8_json j) zero"
  by (simp add: unmarshal_def file_text_def parse_json_print)

datatype load_error = ReadFailed os_error | DecodeFailed | UnsupportedVersion int

subsection \<open>The device registry\<close>

definition registry_Load :: "system \<Rightarrow> go_string \<Rightarrow> store \<Rightarrow> (load_error + device list) \<times> store" where
  "registry_Load sys path s =
     (case ReadFile sys path s of
        (Inl ErrNotExist, s) \<Rightarrow> (Inr [], s)
      | (Inl e, s) \<Rightarrow> (Inl (ReadFailed e), s)
      | (Inr b, s) \<Rightarrow>
          (case unmarshal registry_fields [] b of
             None \<Rightarrow> (Inl DecodeFailed, s)
           | Some ds \<Rightarrow> (Inr (map (\<lambda>d. d\<lparr>d_mac := config_NormalizeMAC (d_mac d)\<rparr>) ds), s)))"

definition registry_Save :: "system \<Rightarrow> go_string \<Rightarrow> device list \<Rightarrow> store \<Rightarrow> (save_error + unit) \<times> store" where
  "registry_Save sys path ds s = replace_file sys ''.devices-'' path (Some (file_text (registry_doc ds))) s"

subsection \<open>The measurement cache\<close>

definition measurements_New :: measurement_state where
  "measurements_New = Map.empty"

definition measurements_Load :: "system \<Rightarrow> go_string \<Rightarrow> store \<Rightarrow> (load_error + measurement_state) \<times> store" where
  "measurements_Load sys path s =
     (case ReadFile sys path s of
        (Inl ErrNotExist, s) \<Rightarrow> (Inr measurements_New, s)
      | (Inl e, s) \<Rightarrow> (Inl (ReadFailed e), s)
      | (Inr b, s) \<Rightarrow>
          (case unmarshal cache_file_fields zero_cache_file b of
             None \<Rightarrow> (Inl DecodeFailed, s)
           | Some data \<Rightarrow>
               if cf_version data \<noteq> currentVersion then (Inl (UnsupportedVersion (cf_version data)), s)
               else (Inr (load_devices (enumeration sys (cf_devices data))), s)))"

definition State_Save :: "system \<Rightarrow> go_string \<Rightarrow> measurement_state \<Rightarrow> store \<Rightarrow> (save_error + unit) \<times> store" where
  "State_Save sys path m s = replace_file sys ''.measurements-'' path (map_option file_text (cache_doc m)) s"

subsection \<open>The configuration\<close>

datatype config_file_error =
    ConfigReadFailed os_error
  | ConfigDecodeFailed
  | ConfigInvalid config_error
  | ConfigPinFailed
  | ConfigNotCreated save_error

definition writeJSON :: "system \<Rightarrow> go_string \<Rightarrow> config \<Rightarrow> store \<Rightarrow> (save_error + unit) \<times> store" where
  "writeJSON sys path c s = replace_file sys ''.config-'' path (Some (file_text (config_doc c))) s"

text \<open>
  The configuration and whether it was created; the whole result is \<open>None\<close> while the random
  source has only yielded PINs that HomeKit rejects.
\<close>

definition LoadOrCreate ::
  "system \<Rightarrow> bytes option list \<Rightarrow> go_string \<Rightarrow> store \<Rightarrow> ((config_file_error + config \<times> bool) \<times> store) option" where
  "LoadOrCreate sys reads configPath s =
     (case ReadFile sys configPath s of
        (Inr b, s) \<Rightarrow>
          (case unmarshal config_fields zero_config b of
             None \<Rightarrow> Some (Inl ConfigDecodeFailed, s)
           | Some cfg \<Rightarrow>
               (case NormalizeAndValidate configPath cfg of
                  Inl err \<Rightarrow> Some (Inl (ConfigInvalid err), s)
                | Inr cfg \<Rightarrow> Some (Inr (cfg, False), s)))
      | (Inl ErrNotExist, s) \<Rightarrow>
          (case generatePin reads of
             None \<Rightarrow> None
           | Some PinReadError \<Rightarrow> Some (Inl ConfigPinFailed, s)
           | Some (PinGenerated pin) \<Rightarrow>
               (case NormalizeAndValidate configPath (Defaults pin configPath) of
                  Inl err \<Rightarrow> Some (Inl (ConfigInvalid err), s)
                | Inr cfg \<Rightarrow>
                    (case writeJSON sys configPath cfg s of
                       (Inl e, s) \<Rightarrow> Some (Inl (ConfigNotCreated e), s)
                     | (Inr _, s) \<Rightarrow> Some (Inr (cfg, True), s))))
      | (Inl e, s) \<Rightarrow> Some (Inl (ConfigReadFailed e), s))"

subsection \<open>What saving promises\<close>

locale atomic_save =
  fixes save :: "system \<Rightarrow> go_string \<Rightarrow> 'v \<Rightarrow> store \<Rightarrow> (save_error + unit) \<times> store"
    and encode :: "'v \<Rightarrow> go_string option"
  assumes save_stays: "save sys path v s = (r, s') \<Longrightarrow> target path \<Longrightarrow>
      stays_in (old_or_new s path (encode v)) (path_Clean path) s s'"
    and save_done: "save sys path v s = (Inr x, s') \<Longrightarrow> target path \<Longrightarrow>
      \<exists>b. encode v = Some b \<and> st_files s' = (st_files s)(path_Clean path \<mapsto> new_node b)"
    and save_failed: "save sys path v s = (Inl e, s') \<Longrightarrow> target path \<Longrightarrow>
      st_files s' (path_Clean path) = st_files s (path_Clean path)"
    and save_others: "save sys path v s = (r, s') \<Longrightarrow> \<not> is_temp q \<Longrightarrow> q \<noteq> path_Clean path \<Longrightarrow>
      stays_in {st_files s q} q s s'"

text \<open>Saving one value after another, whatever becomes of each: errors are only logged.\<close>

fun save_all :: "('v \<Rightarrow> store \<Rightarrow> (save_error + unit) \<times> store) \<Rightarrow> 'v list \<Rightarrow> store \<Rightarrow> store" where
  "save_all save [] s = s"
| "save_all save (v # vs) s = save_all save vs (snd (save v s))"

lemma save_all_stays_in:
  assumes "\<And>v s r s'. v \<in> set vs \<Longrightarrow> save v s = (r, s') \<Longrightarrow> stays_in (insert (st_files s q) A) q s s'"
  shows "stays_in (insert (st_files s q) A) q s (save_all save vs s)"
  using assms
proof (induction vs arbitrary: s)
  case Nil
  then show ?case
    by (simp add: stays_in_refl)
next
  case (Cons v vs)
  obtain r s' where op: "save v s = (r, s')"
    by fastforce
  have one: "stays_in (insert (st_files s q) A) q s s'"
    using Cons.prems [OF list.set_intros(1) op] .
  then have "insert (st_files s' q) A \<subseteq> insert (st_files s q) A"
    by (auto dest: stays_in_final)
  moreover have "stays_in (insert (st_files s' q) A) q s' (save_all save vs s')"
    by (rule Cons.IH) (rule Cons.prems [OF list.set_intros(2)])
  ultimately have "stays_in (insert (st_files s q) A) q s' (save_all save vs s')"
    by (rule stays_in_mono [rotated])
  with stays_in_trans [OF one] op show ?case
    by simp
qed

definition texts_of :: "('v \<Rightarrow> go_string option) \<Rightarrow> 'v list \<Rightarrow> file_node option set" where
  "texts_of encode vs = {Some (new_node b) | b v. v \<in> set vs \<and> encode v = Some b}"

lemma old_or_new_texts: "v \<in> set vs \<Longrightarrow>
    old_or_new s path (encode v) \<subseteq> insert (st_files s (path_Clean path)) (texts_of encode vs)"
  by (auto simp: old_or_new_def texts_of_def)

context atomic_save
begin

lemma save_stays_texts:
  assumes "save sys path v s = (r, s')" and "target path" and "v \<in> set vs"
  shows "stays_in (insert (st_files s (path_Clean path)) (texts_of encode vs)) (path_Clean path) s s'"
  using stays_in_mono [OF save_stays [OF assms(1,2)]] old_or_new_texts [OF assms(3)] by blast

text \<open>
  At every moment of a run of saves the file is the one there was before, or the complete text of
  one of the values.
\<close>

lemma save_all_stays:
  assumes "target path"
  shows "stays_in (insert (st_files s (path_Clean path)) (texts_of encode vs)) (path_Clean path) s
    (save_all (save sys path) vs s)"
  by (rule save_all_stays_in) (rule save_stays_texts [OF _ assms])

lemma save_all_others:
  assumes "\<not> is_temp q" and "q \<noteq> path_Clean path"
  shows "stays_in {st_files s q} q s (save_all (save sys path) vs s)"
  by (rule save_all_stays_in [where A = "{}"]) (rule save_others [OF _ assms])

end

locale saved_document = atomic_save save encode
  for save :: "system \<Rightarrow> go_string \<Rightarrow> 'v \<Rightarrow> store \<Rightarrow> (save_error + unit) \<times> store"
    and encode :: "'v \<Rightarrow> go_string option" +
  fixes load :: "system \<Rightarrow> go_string \<Rightarrow> store \<Rightarrow> ('e + 'v) \<times> store"
    and storable :: "'v \<Rightarrow> bool"
  assumes load_encoded: "storable v \<Longrightarrow> encode v = Some b \<Longrightarrow>
      st_files s (path_Clean path) = Some (new_node b) \<Longrightarrow> call_ok sys s \<Longrightarrow> fst (load sys path s) = Inr v"

context saved_document
begin

lemma save_then_load:
  assumes "save sys path v s = (Inr x, s')" and "target path" and "storable v"
    and "st_files t (path_Clean path) = st_files s' (path_Clean path)" and "call_ok sys' t"
  shows "fst (load sys' path t) = Inr v"
  using save_done [OF assms(1,2)] assms(3-5) by (auto intro: load_encoded)

text \<open>Whenever the process ends during a run of saves, what is loaded is one of the values.\<close>

lemma crash_then_load:
  assumes "target path" and "\<forall>v \<in> set (v0 # vs). storable v" and "encode v0 = Some b0"
    and "st_files s (path_Clean path) = Some (new_node b0)"
    and "moment s (save_all (save sys path) vs s) (st_files t)" and "call_ok sys' t"
  shows "\<exists>v \<in> set (v0 # vs). fst (load sys' path t) = Inr v"
proof -
  have "st_files t (path_Clean path) \<in> insert (Some (new_node b0)) (texts_of encode vs)"
    using stays_in_moment [OF save_all_stays [OF assms(1)] assms(5)] assms(4) by simp
  then obtain v b where "v \<in> set (v0 # vs)" "encode v = Some b" "st_files t (path_Clean path) = Some (new_node b)"
    using assms(3) by (auto simp: texts_of_def)
  with load_encoded [of v b t path sys'] assms(2,6) show ?thesis
    by auto
qed

end

subsection \<open>The three files keep the promise\<close>

lemma replace_file_atomic:
  assumes "temp_prefix pre"
  shows "atomic_save (\<lambda>sys path v s. replace_file sys pre path (encode v) s) encode"
proof
  fix sys path v s r s'
  assume op: "replace_file sys pre path (encode v) s = (r, s')" and path: "target path"
  note spec = replace_file_target [OF op assms path]
  show "stays_in (old_or_new s path (encode v)) (path_Clean path) s s'"
    by (rule spec)
next
  fix sys path v s x s'
  assume op: "replace_file sys pre path (encode v) s = (Inr x, s')" and path: "target path"
  show "\<exists>b. encode v = Some b \<and> st_files s' = (st_files s)(path_Clean path \<mapsto> new_node b)"
    using replace_file_target(2) [OF op assms path] by simp
next
  fix sys path v s e s'
  assume op: "replace_file sys pre path (encode v) s = (Inl e, s')" and path: "target path"
  show "st_files s' (path_Clean path) = st_files s (path_Clean path)"
    using replace_file_target(3) [OF op assms path] by simp
qed (rule replace_file_others [OF _ assms])

lemma temp_prefixes [simp]:
  "temp_prefix ''.devices-''" "temp_prefix ''.measurements-''" "temp_prefix ''.config-''"
  by (simp_all add: temp_prefix_def slash_def)

definition registry_text :: "device list \<Rightarrow> go_string option" where
  "registry_text ds = Some (file_text (registry_doc ds))"

definition registry_storable :: "device list \<Rightarrow> bool" where
  "registry_storable ds \<longleftrightarrow>
     list_all (\<lambda>d. device_fits d \<and> utf8_clean d \<and> config_NormalizeMAC (d_mac d) = d_mac d) ds"

interpretation reg: saved_document registry_Save registry_text registry_Load registry_storable
proof (intro saved_document.intro saved_document_axioms.intro)
  have eq: "registry_Save = (\<lambda>sys path v s. replace_file sys ''.devices-'' path (registry_text v) s)"
    by (simp add: fun_eq_iff registry_Save_def registry_text_def)
  show "atomic_save registry_Save registry_text"
    unfolding eq by (rule replace_file_atomic) simp
next
  fix v b s path sys
  assume v: "registry_storable v" and b: "registry_text v = Some b"
    and here: "st_files s (path_Clean path) = Some (new_node b)" and ok: "call_ok sys s"
  have "map utf8_device v = v" and "map (\<lambda>d. d\<lparr>d_mac := config_NormalizeMAC (d_mac d)\<rparr>) v = v"
    and fits: "list_all device_fits v"
    using v by (auto simp: registry_storable_def list_all_iff utf8_device_clean intro!: map_idI)
  moreover have "unmarshal registry_fields [] b = dec_struct registry_fields (registry_doc (map utf8_device v)) []"
    using b unmarshal_text [OF registry_doc_ok [of v], of registry_fields "[]"]
    by (simp add: registry_text_def utf8_registry_doc)
  ultimately show "fst (registry_Load sys path s) = Inr v"
    using here ok dec_registry_doc [OF fits] by (simp add: registry_Load_def ReadFile_def new_node_def)
qed

definition cache_text :: "measurement_state \<Rightarrow> go_string option" where
  "cache_text m = map_option file_text (cache_doc m)"

definition cache_storable :: "measurement_state \<Rightarrow> bool" where
  "cache_storable m \<longleftrightarrow> storable_cache m \<and> keys_normal m"

lemma load_enumeration:
  assumes "distinct (map fst es)" and "map_of es = m" and "keys_normal m"
  shows "load_devices (enumeration sys es) = m"
proof -
  let ?es = "enumeration sys es"
  have mset: "mset ?es = mset es"
    by (rule enumeration_mset)
  then have "mset (map fst ?es) = mset (map fst es)"
    by simp
  then have dist: "distinct (map fst ?es)"
    using assms(1) by (metis mset_eq_imp_distinct_iff)
  moreover have "set ?es = set es"
    using mset by (rule mset_eq_setD)
  ultimately have "map_of ?es = m"
    using assms(1,2) by (metis map_of_inject_set)
  with load_devices_normal [OF dist] assms(3) show ?thesis
    by simp
qed

interpretation cache: saved_document State_Save cache_text measurements_Load cache_storable
proof (intro saved_document.intro saved_document_axioms.intro)
  have eq: "State_Save = (\<lambda>sys path v s. replace_file sys ''.measurements-'' path (cache_text v) s)"
    by (simp add: fun_eq_iff State_Save_def cache_text_def)
  show "atomic_save State_Save cache_text"
    unfolding eq by (rule replace_file_atomic) simp
next
  fix v b s path sys
  assume v: "cache_storable v" and b: "cache_text v = Some b"
    and here: "st_files s (path_Clean path) = Some (new_node b)" and ok: "call_ok sys s"
  obtain j where j: "cache_doc v = Some j" "json_ok max_nesting j" "utf8_json j = j"
    "dec_struct cache_file_fields j zero_cache_file = Some \<lparr>cf_version = currentVersion, cf_devices = cache_entries v\<rparr>"
    using v dec_cache_doc by (auto simp: cache_storable_def)
  have fin: "finite (dom v)" and norm: "keys_normal v"
    using v by (simp_all add: cache_storable_def storable_cache_def)
  have "unmarshal cache_file_fields zero_cache_file b
      = Some \<lparr>cf_version = currentVersion, cf_devices = cache_entries v\<rparr>"
    using b j unmarshal_text [OF j(2), of cache_file_fields zero_cache_file] by (simp add: cache_text_def)
  moreover have "load_devices (enumeration sys (cache_entries v)) = v"
    using cache_entries_keys [OF fin] norm by (intro load_enumeration)
  ultimately show "fst (measurements_Load sys path s) = Inr v"
    using here ok by (simp add: measurements_Load_def ReadFile_def new_node_def)
qed

definition config_text :: "config \<Rightarrow> go_string option" where
  "config_text c = Some (file_text (config_doc c))"

interpretation cfg: atomic_save writeJSON config_text
proof -
  have eq: "writeJSON = (\<lambda>sys path v s. replace_file sys ''.config-'' path (config_text v) s)"
    by (simp add: fun_eq_iff writeJSON_def config_text_def)
  show "atomic_save writeJSON config_text"
    unfolding eq by (rule replace_file_atomic) simp
qed

subsection \<open>Loading\<close>

text \<open>Loading changes no file.\<close>

lemma ReadFile_files: "st_files (snd (ReadFile sys path s)) = st_files s"
  by (simp add: ReadFile_def)

lemma loads_keep_files:
  "st_files (snd (registry_Load sys path s)) = st_files s"
  "st_files (snd (measurements_Load sys path s)) = st_files s"
  using ReadFile_files [of sys path s]
  by (auto simp: registry_Load_def measurements_Load_def
      split: prod.split sum.split os_error.split option.split)

text \<open>What was loaded once is loaded again as long as the file stays the same.\<close>

lemma registry_Load_again:
  assumes "fst (registry_Load sys path s) = Inr ds" and "st_files t (path_Clean path) = st_files s (path_Clean path)"
    and "call_ok sys' t"
  shows "fst (registry_Load sys' path t) = Inr ds"
  using assms by (auto simp: registry_Load_def ReadFile_def split: option.splits if_splits)

subsection \<open>Creating and loading the configuration\<close>

lemma LoadOrCreate_created:
  assumes "LoadOrCreate sys reads path s = Some (Inr (c, created), s')" and "st_files s (path_Clean path) = None"
    and "target path"
  shows "created \<and> (\<exists>pin. generatePin reads = Some (PinGenerated pin) \<and> c = Defaults pin path)
    \<and> st_files s' = (st_files s)(path_Clean path \<mapsto> new_node (file_text (config_doc c)))"
proof -
  obtain s1 where read: "ReadFile sys path s = (Inl ErrNotExist, s1)" and s1: "st_files s1 = st_files s"
    using assms(2) by (auto simp: ReadFile_def)
  with assms(1) obtain pin where pin: "generatePin reads = Some (PinGenerated pin)"
    by (auto simp: LoadOrCreate_def split: option.splits pin_outcome.splits)
  have norm: "NormalizeAndValidate path (Defaults pin path) = Inr (Defaults pin path)"
    using Defaults_valid generatePin_valid pin by blast
  obtain x where wrote: "writeJSON sys path (Defaults pin path) s1 = (Inr x, s')" and c: "c = Defaults pin path" "created"
    using assms(1) read pin norm by (auto simp: LoadOrCreate_def split: prod.splits sum.splits)
  from cfg.save_done [OF wrote assms(3)] show ?thesis
    using pin c s1 by (simp add: config_text_def)
qed

lemma LoadOrCreate_existing:
  assumes "LoadOrCreate sys reads path s = Some (r, s')" and "st_files s (path_Clean path) \<noteq> None"
  shows "st_files s' = st_files s"
  using assms ReadFile_files [of sys path s]
  by (auto simp: LoadOrCreate_def ReadFile_def split: option.splits sum.splits if_splits)

lemma LoadOrCreate_loaded:
  assumes "LoadOrCreate sys reads path s = Some (Inr (c, created), s')" and "st_files s (path_Clean path) \<noteq> None"
  shows "\<not> created" and "valid_config c"
    and "call_ok sys' t \<Longrightarrow> st_files t (path_Clean path) = st_files s (path_Clean path) \<Longrightarrow>
      \<exists>t'. LoadOrCreate sys' reads' path t = Some (Inr (c, False), t') \<and> st_files t' = st_files t"
  using assms NormalizeAndValidate_sound
  by (auto simp: LoadOrCreate_def ReadFile_def split: option.splits sum.splits if_splits)

lemma LoadOrCreate_valid: "LoadOrCreate sys reads path s = Some (Inr (c, created), s') \<Longrightarrow> valid_config c"
  using NormalizeAndValidate_sound
  by (auto simp: LoadOrCreate_def split: option.splits sum.splits os_error.splits pin_outcome.splits prod.splits)

lemma LoadOrCreate_defaults:
  assumes "st_files t (path_Clean path) = Some (new_node (file_text (config_doc (Defaults pin path))))"
    and "pin_ok pin" and "valid_utf8 (default_state_dir path)" and "call_ok sys t"
  shows "\<exists>t'. LoadOrCreate sys reads path t = Some (Inr (Defaults pin path, False), t') \<and> st_files t' = st_files t"
proof -
  let ?c = "Defaults pin path"
  have "unmarshal config_fields zero_config (file_text (config_doc ?c)) = Some ?c"
    by (simp add: unmarshal_text [OF config_doc_ok] utf8_config_doc [OF Defaults_clean [OF assms(2,3)]]
        dec_config_doc [OF Defaults_fits])
  then show ?thesis
    using assms(1,4) Defaults_valid [OF assms(2)]
    by (simp add: LoadOrCreate_def ReadFile_def new_node_def)
qed

lemma LoadOrCreate_again:
  assumes "LoadOrCreate sys reads path s = Some (Inr (c, created), s')" and "target path"
    and "valid_utf8 (default_state_dir path)"
    and "st_files t (path_Clean path) = st_files s' (path_Clean path)" and "call_ok sys' t"
  shows "\<exists>t'. LoadOrCreate sys' reads' path t = Some (Inr (c, False), t') \<and> st_files t' = st_files t"
proof (cases "st_files s (path_Clean path) = None")
  case True
  from LoadOrCreate_created [OF assms(1) True assms(2)]
  obtain pin where "generatePin reads = Some (PinGenerated pin)" and c: "c = Defaults pin path"
    and s': "st_files s' = (st_files s)(path_Clean path \<mapsto> new_node (file_text (config_doc c)))"
    by blast
  with LoadOrCreate_defaults [of t path pin sys'] generatePin_valid assms(3-5) show ?thesis
    by simp
next
  case False
  with LoadOrCreate_existing [OF assms(1)] LoadOrCreate_loaded(3) [OF assms(1) False assms(5)] assms(4) show ?thesis
    by simp
qed

end
