(* ===== verification/Start_Up.thy ===== *)
theory Start_Up
  imports Runtime Restart Stored_Data Mqtt_Client
begin

section \<open>Starting the process\<close>

text \<open>
  \<^verbatim>\<open>run\<close> of \<^verbatim>\<open>cmd/mgl03-homekit-bridge/main.go\<close> up to the start of the consumer: the configuration is
  loaded or created, the registry loaded and merged into the configured devices, the devices are
  prepared or discovered, the registry is saved when that changed anything, and the cached
  measurements are laid over the accessories.  The HomeKit server and the MQTT goroutine are not
  part of it; what discovery receives is an argument.
\<close>

datatype start_error = StartConfig config_file_error | StartRegistry load_error | StartSave save_error

record started =
  sp_config :: config
  sp_created :: bool
  sp_devices :: "device list"
  sp_accessories :: "accessory list"
  sp_dedup :: deduplicator
  sp_initial :: "go_string \<rightharpoonup> update"
  sp_measurements :: measurement_state
  sp_restored :: nat

definition registry_path :: "config \<Rightarrow> go_string" where
  "registry_path cfg = path_Join (c_state_dir cfg) ''devices.json''"

definition measurement_path :: "config \<Rightarrow> go_string" where
  "measurement_path cfg = path_Join (c_state_dir cfg) ''measurements.json''"

text \<open>The devices found, and whether they differ from what was configured and registered.\<close>

definition find_devices ::
  "config \<Rightarrow> device list \<Rightarrow> select_event list \<Rightarrow> (discovery_state \<times> bool) option" where
  "find_devices cfg saved es =
     (case prepareDevices (mergeDevices (c_devices cfg) saved) of
        None \<Rightarrow> None
      | Some (devices, migrated) \<Rightarrow>
          (case discoverDevices cfg (NewDeduplicator (10 * minute)) devices es of
             None \<Rightarrow> None
           | Some d \<Rightarrow> Some (d, migrated \<or> di_discovered d)))"

text \<open>A cache that cannot be loaded is replaced by an empty one.\<close>

definition load_measurements :: "system \<Rightarrow> config \<Rightarrow> store \<Rightarrow> measurement_state \<times> store" where
  "load_measurements sys cfg s =
     (case measurements_Load sys (measurement_path cfg) s of
        (Inl _, s) \<Rightarrow> (measurements_New, s)
      | (Inr m, s) \<Rightarrow> (m, s))"

definition start_accessories ::
  "time \<Rightarrow> config \<Rightarrow> bool \<Rightarrow> discovery_state \<Rightarrow> measurement_state \<Rightarrow> started" where
  "start_accessories now cfg created d m =
     (let devices = sort_key deviceKey (di_devices d);
          (as, restored) = restoreCachedMeasurements now (make_accessories devices) m
      in \<lparr>sp_config = cfg, sp_created = created, sp_devices = devices, sp_accessories = as,
          sp_dedup = di_dedup d, sp_initial = di_initial d, sp_measurements = m, sp_restored = restored\<rparr>)"

definition start_devices ::
  "system \<Rightarrow> time \<Rightarrow> config \<Rightarrow> bool \<Rightarrow> select_event list \<Rightarrow> store \<Rightarrow> ((start_error + started) \<times> store) option" where
  "start_devices sys now cfg created es s =
     (case registry_Load sys (registry_path cfg) s of
        (Inl e, s) \<Rightarrow> Some (Inl (StartRegistry e), s)
      | (Inr saved, s) \<Rightarrow>
          (case find_devices cfg saved es of
             None \<Rightarrow> None
           | Some (d, changed) \<Rightarrow>
               (case (if changed then registry_Save sys (registry_path cfg) (di_devices d) s else (Inr (), s)) of
                  (Inl e, s) \<Rightarrow> Some (Inl (StartSave e), s)
                | (Inr _, s) \<Rightarrow>
                    (case load_measurements sys cfg s of
                       (m, s) \<Rightarrow> Some (Inr (start_accessories now cfg created d m), s)))))"

definition run_start ::
  "system \<Rightarrow> bytes option list \<Rightarrow> time \<Rightarrow> go_string \<Rightarrow> select_event list \<Rightarrow> store
     \<Rightarrow> ((start_error + started) \<times> store) option" where
  "run_start sys reads now configPath es s =
     (case LoadOrCreate sys reads configPath s of
        None \<Rightarrow> None
      | Some (Inl e, s) \<Rightarrow> Some (Inl (StartConfig e), s)
      | Some (Inr (cfg, created), s) \<Rightarrow> start_devices sys now cfg created es s)"

text \<open>What the MQTT client is made of, and what the HomeKit server is given.\<close>

definition mqtt_client :: "config \<Rightarrow> client" where
  "mqtt_client cfg = \<lparr>Address = m_address (c_mqtt cfg),
     Topics = [m_topic (c_mqtt cfg), ''miio/report'', ''openmiio/report''], ClientID = m_client_id (c_mqtt cfg)\<rparr>"

text \<open>The handler given to the client, for the octets of one message.\<close>

definition mqtt_handler :: "(f64 \<Rightarrow> int) \<Rightarrow> time \<Rightarrow> go_string \<Rightarrow> queue \<Rightarrow> queue" where
  "mqtt_handler conv now payload q = handle_payload conv now (parse_json payload) q"

record server_setup =
  sv_store :: go_string
  sv_bridge :: accessory_info
  sv_bridge_id :: nat
  sv_accessories :: "accessory list"
  sv_pin :: go_string
  sv_addr :: go_string
  sv_ifaces :: "go_string list"

definition bridge_info :: "go_string \<Rightarrow> config \<Rightarrow> accessory_info" where
  "bridge_info version cfg = \<lparr>ai_name = c_bridge_name cfg, ai_serial = ''MGL03-BLE-BRIDGE'',
     ai_manufacturer = ''Community'', ai_model = ''lumi.gateway.mgl03'', ai_firmware = version\<rparr>"

definition setup_server :: "system \<Rightarrow> go_string \<Rightarrow> started \<Rightarrow> store \<Rightarrow> (os_error + server_setup) \<times> store" where
  "setup_server sys version st s =
     (let cfg = sp_config st; hapDir = path_Join (c_state_dir cfg) ''hap''
      in case MkdirAll sys hapDir s of
           (Inl e, s) \<Rightarrow> (Inl e, s)
         | (Inr _, s) \<Rightarrow>
             (Inr \<lparr>sv_store = hapDir, sv_bridge = bridge_info version cfg, sv_bridge_id = 1,
                sv_accessories = sp_accessories st, sv_pin = c_pin cfg, sv_addr = '':'' @ itoa (c_port cfg),
                sv_ifaces = c_interfaces cfg\<rparr>, s))"

text \<open>What the consumer starts with.\<close>

definition start_runtime :: "started \<Rightarrow> runtime" where
  "start_runtime st = \<lparr>rt_accessories = sp_accessories st, rt_dedup = sp_dedup st, rt_unknown = {},
     rt_devices = sp_devices st, rt_measurements = sp_measurements st,
     rt_registry_saves = [], rt_cache_saves = []\<rparr>"

text \<open>
  The consumer's saves, in the order in which it makes them: lists of devices to the registry,
  states to the cache.  An error is only logged.
\<close>

datatype saving = SaveRegistry "device list" | SaveCache measurement_state

definition save_one :: "system \<Rightarrow> config \<Rightarrow> saving \<Rightarrow> store \<Rightarrow> (save_error + unit) \<times> store" where
  "save_one sys cfg w s =
     (case w of
        SaveRegistry ds \<Rightarrow> registry_Save sys (registry_path cfg) ds s
      | SaveCache m \<Rightarrow> State_Save sys (measurement_path cfg) m s)"

definition registry_saves :: "saving list \<Rightarrow> device list list" where
  "registry_saves ws = List.map_filter (\<lambda>w. case w of SaveRegistry ds \<Rightarrow> Some ds | SaveCache m \<Rightarrow> None) ws"

definition cache_saves :: "saving list \<Rightarrow> measurement_state list" where
  "cache_saves ws = List.map_filter (\<lambda>w. case w of SaveRegistry ds \<Rightarrow> None | SaveCache m \<Rightarrow> Some m) ws"

text \<open>
  \<^verbatim>\<open>processUpdates\<close>: the updates that discovery kept, in the order in which the map is enumerated,
  and then the updates received.
\<close>

definition consumer_run ::
  "config \<Rightarrow> go_string \<Rightarrow> (clocks \<times> update) list \<Rightarrow> (clocks \<times> update) list \<Rightarrow> runtime \<Rightarrow> runtime option" where
  "consumer_run cfg path initial us rt =
     process_run cfg path us (foldl (\<lambda>rt (ck, u). process_initial path ck u rt) rt initial)"

lemma find_devices_startup:
  "startup cfg saved es = map_option (\<lambda>(d, changed). (sort_key deviceKey (di_devices d), d)) (find_devices cfg saved es)"
  by (auto simp: startup_def find_devices_def split: option.split)

subsection \<open>Paths\<close>

text \<open>The last element of a joined path, cleaned once or twice.\<close>

lemma join_slash_last: "join_slash (es @ [name]) = name \<or> (\<exists>a. join_slash (es @ [name]) = a @ slash # name)"
proof (induction es rule: join_slash.induct)
  case (3 e f es)
  then show ?case
    by (metis append.assoc append_Cons join_slash.simps(3))
qed auto

lemma path_Clean_twice:
  assumes "plain_name name"
  shows "suffix name (path_Clean (path_Join a name))"
proof (cases "a = []")
  case True
  then show ?thesis
    using assms path_Clean_plain [OF assms] by (simp add: path_Join_def plain_name_def)
next
  case False
  obtain es where "path_Clean (a @ slash # name) = (if is_rooted (a @ slash # name) then [slash] else []) @ join_slash (es @ [name])"
    using path_Clean_elements [OF assms] by blast
  then have "path_Clean (a @ slash # name) = name \<or> (\<exists>b. path_Clean (a @ slash # name) = b @ slash # name)"
    using join_slash_last [of es name] by (auto split: if_splits)
  then have "suffix name (path_Clean (path_Clean (a @ slash # name)))"
    using path_Clean_last [OF assms] path_Clean_plain [OF assms] by auto
  then show ?thesis
    using False assms by (simp add: path_Join_def plain_name_def)
qed

lemma state_names: "plain_name ''devices.json''" "plain_name ''measurements.json''"
  by (simp_all add: plain_name_def slash_def)

lemma registry_key: "suffix ''devices.json'' (path_Clean (registry_path cfg))"
  unfolding registry_path_def by (rule path_Clean_twice) (rule state_names)

lemma measurement_key: "suffix ''measurements.json'' (path_Clean (measurement_path cfg))"
  unfolding measurement_path_def by (rule path_Clean_twice) (rule state_names)

lemma suffix_clash: "suffix xs zs \<Longrightarrow> suffix ys zs \<Longrightarrow> \<not> suffix xs ys \<Longrightarrow> \<not> suffix ys xs \<Longrightarrow> False"
  using suffix_same_cases by blast

lemma state_targets [simp]: "target (registry_path cfg)" "target (measurement_path cfg)"
  using suffix_clash [OF registry_key, of "''.tmp''"] suffix_clash [OF measurement_key, of "''.tmp''"]
  unfolding target_def is_temp_def by (simp_all add: suffix_Cons) blast+

lemma state_files_differ: "path_Clean (registry_path cfg) \<noteq> path_Clean (measurement_path cfg')"
proof
  assume "path_Clean (registry_path cfg) = path_Clean (measurement_path cfg')"
  with registry_key [of cfg] measurement_key [of cfg'] show False
    using suffix_clash [of "''devices.json''" _ "''measurements.json''"] by (simp add: suffix_Cons)
qed

subsection \<open>The files while the consumer runs\<close>

lemma save_one_stays:
  assumes "save_one sys cfg w s = (r, s')" and "\<not> is_temp q"
    and "q \<noteq> path_Clean (registry_path cfg)" and "q \<noteq> path_Clean (measurement_path cfg)"
  shows "stays_in {st_files s q} q s s'"
proof (cases w)
  case (SaveRegistry ds)
  with assms(1) show ?thesis
    by (auto simp: save_one_def intro: reg.save_others [OF _ assms(2,3)])
next
  case (SaveCache m)
  with assms(1) show ?thesis
    by (auto simp: save_one_def intro: cache.save_others [OF _ assms(2,4)])
qed

lemma saves_keep_others:
  assumes "\<not> is_temp q" and "q \<noteq> path_Clean (registry_path cfg)" and "q \<noteq> path_Clean (measurement_path cfg)"
  shows "stays_in {st_files s q} q s (save_all (save_one sys cfg) ws s)"
  by (rule save_all_stays_in [where A = "{}"]) (rule save_one_stays [OF _ assms])

lemma saves_simps [simp]:
  "registry_saves [] = []" "registry_saves (SaveRegistry ds # ws) = ds # registry_saves ws"
  "registry_saves (SaveCache m # ws) = registry_saves ws"
  "cache_saves [] = []" "cache_saves (SaveRegistry ds # ws) = cache_saves ws"
  "cache_saves (SaveCache m # ws) = m # cache_saves ws"
  by (simp_all add: registry_saves_def cache_saves_def List.map_filter_simps)

lemma saves_members:
  "SaveRegistry ds \<in> set ws \<longleftrightarrow> ds \<in> set (registry_saves ws)"
  "SaveCache m \<in> set ws \<longleftrightarrow> m \<in> set (cache_saves ws)"
proof (induction ws)
  case (Cons w ws)
  then show "SaveRegistry ds \<in> set (w # ws) \<longleftrightarrow> ds \<in> set (registry_saves (w # ws))"
    and "SaveCache m \<in> set (w # ws) \<longleftrightarrow> m \<in> set (cache_saves (w # ws))"
    by (cases w; simp)+
qed simp_all

text \<open>Each file is the one there was, or the text of one of the values saved.\<close>

lemma saves_registry:
  "stays_in (insert (st_files s (path_Clean (registry_path cfg))) (texts_of registry_text (registry_saves ws)))
     (path_Clean (registry_path cfg)) s (save_all (save_one sys cfg) ws s)"
proof (rule save_all_stays_in)
  fix w s r s'
  assume w: "w \<in> set ws" and op: "save_one sys cfg w s = (r, s')"
  have q: "\<not> is_temp (path_Clean (registry_path cfg))"
    using state_targets(1) by (simp add: target_def)
  show "stays_in (insert (st_files s (path_Clean (registry_path cfg))) (texts_of registry_text (registry_saves ws)))
    (path_Clean (registry_path cfg)) s s'"
  proof (cases w)
    case (SaveRegistry ds)
    with w op show ?thesis
      by (simp add: save_one_def reg.save_stays_texts saves_members(1) [symmetric])
  next
    case (SaveCache m)
    with op show ?thesis
      by (intro stays_in_mono [OF cache.save_others [OF _ q state_files_differ]]) (auto simp: save_one_def)
  qed
qed

lemma saves_cache:
  "stays_in (insert (st_files s (path_Clean (measurement_path cfg))) (texts_of cache_text (cache_saves ws)))
     (path_Clean (measurement_path cfg)) s (save_all (save_one sys cfg) ws s)"
proof (rule save_all_stays_in)
  fix w s r s'
  assume w: "w \<in> set ws" and op: "save_one sys cfg w s = (r, s')"
  have q: "\<not> is_temp (path_Clean (measurement_path cfg))"
    using state_targets(2) by (simp add: target_def)
  show "stays_in (insert (st_files s (path_Clean (measurement_path cfg))) (texts_of cache_text (cache_saves ws)))
    (path_Clean (measurement_path cfg)) s s'"
  proof (cases w)
    case (SaveCache m)
    with w op show ?thesis
      by (simp add: save_one_def cache.save_stays_texts saves_members(2) [symmetric])
  next
    case (SaveRegistry ds)
    with op show ?thesis
      by (intro stays_in_mono [OF reg.save_others [OF _ q state_files_differ [symmetric]]]) (auto simp: save_one_def)
  qed
qed

lemma initial_keeps_devices:
  "rt_devices (foldl (\<lambda>rt (ck, u). process_initial path ck u rt) rt initial) = rt_devices rt"
  "rt_registry_saves (foldl (\<lambda>rt (ck, u). process_initial path ck u rt) rt initial) = rt_registry_saves rt"
  by (induction initial arbitrary: rt) (auto simp: process_initial_def split: option.split)

text \<open>Every list the consumer saves is its device list at that time: the first one and some enrolled.\<close>

definition saves_ok :: "device list \<Rightarrow> runtime \<Rightarrow> bool" where
  "saves_ok ds rt \<longleftrightarrow> prefix ds (rt_devices rt)
     \<and> (\<forall>q \<in> set (rt_registry_saves rt). prefix ds q \<and> prefix q (rt_devices rt))"

lemma enroll_saves:
  assumes "enroll cfg u rt = Some rt'" and "saves_ok ds rt"
    and "ready {} (rt_devices rt)" and "length (rt_devices rt) < 2147483646"
  shows "saves_ok ds rt'"
proof -
  have "rt_devices rt' = rt_devices rt \<and> rt_registry_saves rt' = rt_registry_saves rt
      \<or> (\<exists>d. rt_devices rt' = rt_devices rt @ [d] \<and> rt_registry_saves rt' = rt_registry_saves rt @ [rt_devices rt'])"
    using enroll_devices [OF assms(3,4), of cfg u] assms(1) by (auto split: if_splits)
  with assms(2) show ?thesis
    by (auto simp: saves_ok_def)
qed

lemma process_update_saves:
  assumes "process_update cfg path ck u rt = Some rt'" and "saves_ok ds rt"
    and "ready {} (rt_devices rt)" and "length (rt_devices rt) < 2147483646"
  shows "saves_ok ds rt'"
proof -
  have same: "saves_ok ds r" if "rt_devices r = rt_devices rt" "rt_registry_saves r = rt_registry_saves rt" for r
    using assms(2) that by (simp add: saves_ok_def)
  have en: "saves_ok ds rt'"
    if "enroll cfg u r = Some rt'" "rt_devices r = rt_devices rt" "rt_registry_saves r = rt_registry_saves rt" for r
    using enroll_saves [OF that(1) same [OF that(2,3)]] that(2) assms(3,4) by simp
  consider r where "enroll cfg u r = Some rt'" "rt_devices r = rt_devices rt" "rt_registry_saves r = rt_registry_saves rt"
    | "rt_devices rt' = rt_devices rt" "rt_registry_saves rt' = rt_registry_saves rt"
    using assms(1) by (auto simp: process_update_def Let_def split: prod.splits option.splits if_splits)
  then show ?thesis
    by cases (use en same in blast)+
qed

lemma process_run_saves:
  assumes "process_run cfg path us rt = Some rt'" and "saves_ok ds rt"
    and "ready {} (rt_devices rt)" and "length (rt_devices rt) + length us < 2147483646"
  shows "saves_ok ds rt' \<and> ready {} (rt_devices rt')"
  using assms
proof (induction us arbitrary: rt)
  case (Cons x us)
  obtain ck u where x: "x = (ck, u)"
    by fastforce
  obtain r where r: "process_update cfg path ck u rt = Some r" and run: "process_run cfg path us r = Some rt'"
    using Cons.prems(1) x by (auto split: option.splits)
  have len: "length (rt_devices rt) < 2147483646"
    using Cons.prems(4) by simp
  obtain es where "ready {} (rt_devices r)" and "rt_devices r = rt_devices rt @ es" "length es \<le> 1"
    using process_update_total [OF Cons.prems(3) len, of cfg path ck u] r by auto
  with Cons.IH [OF run process_update_saves [OF r Cons.prems(2,3) len]] Cons.prems(4) show ?case
    by simp
qed simp

subsection \<open>The devices of a start\<close>

definition found_inv :: "discovery_state \<Rightarrow> bool" where
  "found_inv s \<longleftrightarrow> (\<forall>d \<in> set (di_devices s). d_mac d \<noteq> []) \<and> (di_devices s \<noteq> [] \<longrightarrow> di_discovered s)"

lemma discover_update_found:
  assumes "discover_update mode now u s = Some (s', b)" and "found_inv s" and "discovery_inv s"
    and "length (di_devices s) < 2147483646"
  shows "found_inv s'"
proof -
  have "ready {} (di_devices s)"
    using assms(3) by (simp add: discovery_inv_def)
  from append_ready [OF this assms(4), of "deviceFromUpdate u (int (length (di_devices s)) + 1)"]
  obtain d where "appendDeviceWithAID (di_devices s) (deviceFromUpdate u (int (length (di_devices s)) + 1)) = Some (di_devices s @ [d])"
    and "d_mac d = u_mac u"
    by (auto simp: same_device_def deviceFromUpdate_fields)
  with assms(1,2) show ?thesis
    by (auto simp: discover_update_def found_inv_def supportedDiscoveryUpdate_def Let_def
        split: if_splits prod.splits)
qed

lemma discover_loop_found:
  assumes "discover_loop mode s es = Some s'" and "found_inv s" and "discovery_inv s"
    and "length (di_devices s) + length es < 2147483646"
  shows "found_inv s'"
  using assms
proof (induction mode s es rule: discover_loop.induct)
  case (4 mode s now u es)
  have len: "length (di_devices s) < 2147483646"
    using "4.prems"(4) by simp
  obtain s1 b where s1: "discover_update mode now u s = Some (s1, b)" "discovery_inv s1"
    "length (di_devices s1) \<le> Suc (length (di_devices s))"
    using discover_update_inv [OF "4.prems"(3) len, of mode now u] by auto
  from discover_update_found [OF s1(1) "4.prems"(2,3) len] s1 4 show ?case
    by (cases b) auto
qed (auto split: if_splits)

text \<open>What discovery finds when nothing is known can be taken over as it is.\<close>

lemma discovered_prepared:
  assumes "discoverDevices cfg dd [] es = Some d" and "ds_mode (c_discovery cfg) \<noteq> DiscoveryModeManual"
    and "length es < 2147483646" and "ready {} (di_devices d)"
  shows "prepareDevices (mergeDevices [] (di_devices d)) = Some (di_devices d, False)"
    and "di_devices d \<noteq> [] \<Longrightarrow> di_discovered d"
proof -
  let ?s = "\<lparr>di_devices = [], di_initial = Map.empty, di_dedup = dd, di_discovered = False, di_timer = False\<rparr>"
  have "discover_loop (ds_mode (c_discovery cfg)) ?s es = Some d"
    using assms(1,2) by (simp add: discoverDevices_def)
  moreover have "length (di_devices ?s) + length es < 2147483646"
    using assms(3) by simp
  moreover have "found_inv ?s"
    by (simp add: found_inv_def)
  ultimately have "found_inv d" and "discovery_inv d"
    using discover_loop_found discover_loop_inv discovery_inv_init by blast+
  then show "prepareDevices (mergeDevices [] (di_devices d)) = Some (di_devices d, False)"
    and "di_devices d \<noteq> [] \<Longrightarrow> di_discovered d"
    using merge_into_empty [OF _ _ assms(4)] by (auto simp: found_inv_def discovery_inv_def deviceKey_def to_lower_def)
qed

text \<open>
  The devices of a start are the prepared merge of the configured devices with the registry, or
  with themselves when they were discovered; when nothing changed, they are the merge itself.
\<close>

lemma find_devices_prepared:
  assumes "find_devices cfg saved es = Some (d, changed)" and "di_devices d \<noteq> []"
    and "length (di_devices d) + length es < 2147483646"
  shows "ready {} (di_devices d)"
    and "\<exists>X m. prepareDevices (mergeDevices (c_devices cfg) X) = Some (di_devices d, m) \<and> (\<not> changed \<longrightarrow> X = saved)"
proof -
  obtain devices m where prep: "prepareDevices (mergeDevices (c_devices cfg) saved) = Some (devices, m)"
    and disc: "discoverDevices cfg (NewDeduplicator (10 * minute)) devices es = Some d"
    and changed: "changed = (m \<or> di_discovered d)"
    using assms(1) by (auto simp: find_devices_def split: option.splits)
  have "length devices = length (mergeDevices (c_devices cfg) saved)"
    using list_all2_lengthD [OF prepare_loop_same [OF prep [unfolded prepareDevices_def]]] ..
  moreover have "devices = [] \<or> di_devices d = devices"
    using disc by (auto simp: discoverDevices_def Let_def split: if_splits)
  ultimately have len: "length (mergeDevices (c_devices cfg) saved) + length es < 2147483646"
    using assms(3) by auto
  have "startup cfg saved es = Some (sort_key deviceKey (di_devices d), d)"
    using assms(1) by (simp add: find_devices_startup)
  from startup_ready [OF this len] show ready: "ready {} (di_devices d)"
    by (simp add: ready_sort)
  show "\<exists>X m. prepareDevices (mergeDevices (c_devices cfg) X) = Some (di_devices d, m) \<and> (\<not> changed \<longrightarrow> X = saved)"
  proof (cases "devices = [] \<and> ds_mode (c_discovery cfg) \<noteq> DiscoveryModeManual")
    case False
    then have "di_devices d = devices"
      using disc by (auto simp: discoverDevices_def split: if_splits)
    with prep show ?thesis
      by blast
  next
    case True
    have "length (mergeDevices (c_devices cfg) saved) = 0"
      using prep True by (auto simp: prepareDevices_def dest: prepare_loop_same list_all2_lengthD)
    moreover obtain rest where "mergeDevices (c_devices cfg) saved = c_devices cfg @ rest"
      using merge_rest by blast
    ultimately have none: "c_devices cfg = []"
      by simp
    with discovered_prepared [of cfg _ es d] disc True assms(2,3) ready changed show ?thesis
      by auto
  qed
qed

subsection \<open>Starting again\<close>

lemma start_accessories_fields [simp]:
  "sp_devices (start_accessories now cfg created d m) = sort_key deviceKey (di_devices d)"
  "sp_config (start_accessories now cfg created d m) = cfg"
  "sp_created (start_accessories now cfg created d m) = created"
  "sp_measurements (start_accessories now cfg created d m) = m"
  by (simp_all add: start_accessories_def Let_def split: prod.split)

lemma start_devices_done:
  assumes "start_devices sys now cfg created es s = Some (Inr st, s')"
  obtains saved d changed where "fst (registry_Load sys (registry_path cfg) s) = Inr saved"
    and "find_devices cfg saved es = Some (d, changed)"
    and "sp_devices st = sort_key deviceKey (di_devices d)" and "sp_config st = cfg"
    and "st_files s' = (if changed then (st_files s)(path_Clean (registry_path cfg)
           \<mapsto> new_node (file_text (registry_doc (di_devices d)))) else st_files s)"
proof -
  obtain saved s1 where load: "registry_Load sys (registry_path cfg) s = (Inr saved, s1)"
    using assms by (auto simp: start_devices_def split: sum.splits prod.splits)
  then obtain d changed where find: "find_devices cfg saved es = Some (d, changed)"
    using assms by (auto simp: start_devices_def split: option.splits)
  obtain x s2 where save: "(if changed then registry_Save sys (registry_path cfg) (di_devices d) s1 else (Inr (), s1)) = (Inr x, s2)"
    using assms load find by (auto simp: start_devices_def split: sum.splits prod.splits)
  obtain m s3 where cache: "load_measurements sys cfg s2 = (m, s3)"
    by fastforce
  have st: "st = start_accessories now cfg created d m" "s' = s3"
    using assms load find save cache by (simp_all add: start_devices_def)
  have "st_files s1 = st_files s"
    using loads_keep_files(1) [of sys "registry_path cfg" s] load by simp
  moreover have "st_files s3 = st_files s2"
    using loads_keep_files(2) [of sys "measurement_path cfg" s2] cache
    by (auto simp: load_measurements_def split: sum.splits prod.splits)
  moreover have "st_files s2 = (st_files s1)(path_Clean (registry_path cfg) \<mapsto> new_node (file_text (registry_doc (di_devices d))))"
    if changed
    using reg.save_done [of sys "registry_path cfg" "di_devices d" s1 x s2] save that by (simp add: registry_text_def)
  ultimately show ?thesis
    using that [OF _ find] load st save by (cases changed) auto
qed

text \<open>No leftover temporary file bears a name that is tried.\<close>

definition names_free :: "system \<Rightarrow> go_string \<Rightarrow> store \<Rightarrow> bool" where
  "names_free sys path s \<longleftrightarrow> (\<forall>k. st_files s (path_Clean (temp_path sys (path_Dir path) ''.devices-'' k)) = None)"

lemma start_devices_succeeds:
  assumes "fst (registry_Load sys (registry_path cfg) s) = Inr saved"
    and "prepareDevices (mergeDevices (c_devices cfg) saved) = Some (devices, m)" and "devices \<noteq> []"
    and "\<And>k. sys_ok sys k" and "names_free sys (registry_path cfg) s"
  shows "\<exists>st s'. start_devices sys now cfg created es s = Some (Inr st, s') \<and> sp_devices st = sort_key deviceKey devices"
proof -
  obtain s1 where load: "registry_Load sys (registry_path cfg) s = (Inr saved, s1)"
    using assms(1) by (metis prod.collapse)
  obtain d where d: "discoverDevices cfg (NewDeduplicator (10 * minute)) devices es = Some d" "di_devices d = devices"
    "\<not> di_discovered d"
    using assms(3) by (auto simp: discoverDevices_def)
  then have find: "find_devices cfg saved es = Some (d, m)"
    using assms(2) by (simp add: find_devices_def)
  have "st_files s1 = st_files s"
    using loads_keep_files(1) [of sys "registry_path cfg" s] load by simp
  then have free: "st_files s1 (path_Clean (temp_path sys (path_Dir (registry_path cfg)) ''.devices-'' k)) = None" for k
    using assms(5) by (simp add: names_free_def)
  have "\<exists>s2. registry_Save sys (registry_path cfg) (di_devices d) s1 = (Inr (), s2)"
    unfolding registry_Save_def
    by (rule replace_file_succeeds [OF assms(4), where i = 0]) (simp_all add: temp_tries_def free)
  then obtain s2 where save: "(if m then registry_Save sys (registry_path cfg) (di_devices d) s1 else (Inr (), s1)) = (Inr (), s2)"
    by (cases m) auto
  obtain ms s3 where cache: "load_measurements sys cfg s2 = (ms, s3)"
    by fastforce
  have "start_devices sys now cfg created es s = Some (Inr (start_accessories now cfg created d ms), s3)"
    by (simp add: start_devices_def load find save cache)
  with d(2) show ?thesis
    by simp
qed

lemma ready_prefix: "ready {} ys \<Longrightarrow> prefix xs ys \<Longrightarrow> ready {} xs"
  by (auto simp: ready_def prefix_def)

lemma storable_subset: "registry_storable ys \<Longrightarrow> set xs \<subseteq> set ys \<Longrightarrow> registry_storable xs"
  by (auto simp: registry_storable_def list_all_iff)

lemma saves_of_run:
  assumes "consumer_run cfg path initial us (start_runtime st) = Some rt'" and "ready {} (sp_devices st)"
    and "length (sp_devices st) + length us < 2147483646"
  shows "saves_ok (sp_devices st) rt'" and "ready {} (rt_devices rt')"
proof -
  let ?rt = "foldl (\<lambda>rt (ck, u). process_initial path ck u rt) (start_runtime st) initial"
  have "saves_ok (sp_devices st) ?rt" "ready {} (rt_devices ?rt)"
    using assms(2) by (simp_all add: saves_ok_def initial_keeps_devices start_runtime_def)
  from process_run_saves [OF assms(1) [unfolded consumer_run_def] this] assms(3)
  show "saves_ok (sp_devices st) rt'" and "ready {} (rt_devices rt')"
    by (simp_all add: initial_keeps_devices start_runtime_def)
qed

text \<open>
  What the registry may hold after a start and any number of enrolments: what it held before, if
  nothing had changed, or a list that begins with the devices of the start.
\<close>

lemma registry_after_run:
  assumes "start_devices sys now cfg created es s = Some (Inr st, s1)" and "sp_devices st \<noteq> []"
    and "consumer_run cfg path initial us (start_runtime st) = Some rt'"
    and "registry_saves ws = rt_registry_saves rt'" and "registry_storable (rt_devices rt')"
    and "length (sp_devices st) + length es + length us < 2147483646"
    and "moment s1 (save_all (save_one sys cfg) ws s1) (st_files t)" and "call_ok sys' t"
  shows "\<exists>X P m Q. prepareDevices (mergeDevices (c_devices cfg) X) = Some (P, m) \<and> set (sp_devices st) = set P
    \<and> fst (registry_Load sys' (registry_path cfg) t) = Inr Q
    \<and> (Q = X \<or> (\<exists>Q0 es. Q = Q0 @ es \<and> mset Q0 = mset P \<and> ready {} Q))"
proof -
  let ?q = "path_Clean (registry_path cfg)"
  obtain saved d changed where load: "fst (registry_Load sys (registry_path cfg) s) = Inr saved"
    and find: "find_devices cfg saved es = Some (d, changed)"
    and st: "sp_devices st = sort_key deviceKey (di_devices d)" "sp_config st = cfg"
    and s1: "st_files s1 = (if changed then (st_files s)(?q \<mapsto> new_node (file_text (registry_doc (di_devices d)))) else st_files s)"
    by (rule start_devices_done [OF assms(1)])
  let ?P = "di_devices d"
  have len: "length (sp_devices st) = length ?P" and sets: "set (sp_devices st) = set ?P"
    and msets: "mset (sp_devices st) = mset ?P" and ne: "?P \<noteq> []"
    using st(1) assms(2) by (auto dest: arg_cong [where f = length])
  have bound: "length ?P + length es < 2147483646"
    using assms(6) len by simp
  note P = find_devices_prepared [OF find ne bound]
  obtain X m where X: "prepareDevices (mergeDevices (c_devices cfg) X) = Some (?P, m)" "\<not> changed \<longrightarrow> X = saved"
    using P(2) by blast
  have run: "saves_ok (sp_devices st) rt'" "ready {} (rt_devices rt')"
    using saves_of_run [OF assms(3)] P(1) st(1) assms(6) by (simp_all add: ready_sort)
  have "st_files t ?q \<in> insert (st_files s1 ?q) (texts_of registry_text (rt_registry_saves rt'))"
    using stays_in_moment [OF saves_registry assms(7)] assms(4) by simp
  then consider (same) "st_files t ?q = st_files s ?q" "\<not> changed"
    | (first) "st_files t ?q = Some (new_node (file_text (registry_doc ?P)))"
    | (later) Q where "Q \<in> set (rt_registry_saves rt')" "st_files t ?q = Some (new_node (file_text (registry_doc Q)))"
    using s1 by (cases changed) (auto simp: texts_of_def registry_text_def)
  then show ?thesis
  proof cases
    case same
    with registry_Load_again [OF load same(1) assms(8)] X sets show ?thesis
      by blast
  next
    case first
    have "registry_storable ?P"
      using assms(5) sets run(1) set_mono_prefix by (intro storable_subset [OF assms(5)]) (auto simp: saves_ok_def)
    with reg.load_encoded first assms(8) have "fst (registry_Load sys' (registry_path cfg) t) = Inr ?P"
      by (simp add: registry_text_def)
    with X sets P(1) show ?thesis
      by (metis append_Nil2)
  next
    case (later Q)
    then have "prefix (sp_devices st) Q" "prefix Q (rt_devices rt')"
      using run(1) by (auto simp: saves_ok_def)
    moreover from this(2) have "registry_storable Q" "ready {} Q"
      using storable_subset [OF assms(5) set_mono_prefix] ready_prefix [OF run(2)] by blast+
    moreover from this(1) reg.load_encoded later(2) assms(8) have "fst (registry_Load sys' (registry_path cfg) t) = Inr Q"
      by (simp add: registry_text_def)
    ultimately show ?thesis
      using X sets msets by (auto simp: prefix_def) blast
  qed
qed

lemma start_again:
  assumes "prepareDevices (mergeDevices (c_devices cfg) X) = Some (P, m)" and "P \<noteq> []"
    and "fst (registry_Load sys (registry_path cfg) t) = Inr Q"
    and "Q = X \<or> (\<exists>Q0 es. Q = Q0 @ es \<and> mset Q0 = mset P \<and> ready {} Q)"
    and "\<And>k. sys_ok sys k" and "names_free sys (registry_path cfg) t"
  shows "\<exists>st' t'. start_devices sys now cfg created es t = Some (Inr st', t') \<and> set P \<subseteq> set (sp_devices st')
    \<and> sp_config st' = cfg \<and> sp_created st' = created"
proof -
  obtain P' m' where P': "prepareDevices (mergeDevices (c_devices cfg) Q) = Some (P', m')" "set P \<subseteq> set P'"
    using assms(1,4) restart_prepared [OF assms(1)] by blast
  moreover from this(2) assms(2) have "P' \<noteq> []"
    by auto
  ultimately obtain st t' where "start_devices sys now cfg created es t = Some (Inr st, t')"
      "sp_devices st = sort_key deviceKey P'"
    using start_devices_succeeds [OF assms(3) P'(1) _ assms(5,6)] by blast
  moreover from this(1) have "sp_config st = cfg" and "sp_created st = created"
    by (auto simp: start_devices_def split: sum.splits prod.splits option.splits if_splits)
  ultimately show ?thesis
    using P'(2) by auto
qed

lemma Apply_keeps_id [simp]: "accessory_aid (accessory_Apply now u a) = accessory_aid a"
  by (cases a) (simp_all add: sensor_Apply_def toothbrush_Apply_def brush_defs split: option.split)

lemma restore_keeps_ids:
  "map accessory_aid (fst (restoreCachedMeasurements now as m)) = map accessory_aid as"
  by (induction as) (auto split: prod.split option.split)

lemma start_accessories_ids:
  "map accessory_aid (sp_accessories (start_accessories now cfg created d m))
     = map accessory_aid (make_accessories (sort_key deviceKey (di_devices d)))"
  using restore_keeps_ids by (simp add: start_accessories_def Let_def case_prod_beta')

end
