(* ===== verification/Utf8_Strings.thy ===== *)
theory Utf8_Strings
  imports Json_Text
begin

section \<open>Strings that stay valid UTF-8\<close>

text \<open>
  \<^verbatim>\<open>encoding/json\<close> never yields an invalid string: what it unquotes has every invalid byte
  replaced.  Trimming and case mapping, all that the program does to such strings before it
  stores them again, keep them valid.
\<close>

lemma valid_utf8_Nil [simp]: "valid_utf8 []"
  by (simp add: valid_utf8_def)

lemma rune_len_hd: "char_code c < 128 \<or> 192 \<le> char_code c \<or> rune_len (c # s) = 0"
  unfolding rune_len_def Let_def by simp

lemma to_valid_utf8_hd: "s \<noteq> [] \<Longrightarrow> rune_len s = 0 \<Longrightarrow> to_valid_utf8 s \<noteq> s"
proof
  assume s: "s \<noteq> []" "rune_len s = 0" "to_valid_utf8 s = s"
  then obtain c t where "s = c # t"
    by (cases s) auto
  with s have "s = replacement @ to_valid_utf8 t"
    by (simp add: to_valid_utf8.simps)
  with s(2) show False
    by (metis rune_len_replacement zero_neq_numeral)
qed

text \<open>A valid string is empty, or a character and a valid string.\<close>

lemma valid_utf8_step:
  assumes "s \<noteq> []"
  shows "valid_utf8 s \<longleftrightarrow> 0 < rune_len s \<and> valid_utf8 (drop (rune_len s) s)"
proof (cases "rune_len s = 0")
  case True
  with to_valid_utf8_hd [OF assms] show ?thesis
    by (simp add: valid_utf8_def)
next
  case False
  then have "to_valid_utf8 s = take (rune_len s) s @ to_valid_utf8 (drop (rune_len s) s)"
    using to_valid_utf8_step [of s "rune_len s" "drop (rune_len s) s"] by simp
  with False show ?thesis
    unfolding valid_utf8_def by (metis append_take_drop_id gr0I same_append_eq)
qed

lemma valid_utf8_induct [consumes 1, case_names Nil Rune]:
  assumes "valid_utf8 s" and "P []"
    and "\<And>s. s \<noteq> [] \<Longrightarrow> 0 < rune_len s \<Longrightarrow> valid_utf8 (drop (rune_len s) s) \<Longrightarrow> P (drop (rune_len s) s) \<Longrightarrow> P s"
  shows "P s"
  using assms(1)
proof (induction "length s" arbitrary: s rule: less_induct)
  case less
  show ?case
  proof (cases "s = []")
    case False
    with less.prems have "0 < rune_len s" "valid_utf8 (drop (rune_len s) s)"
      by (simp_all add: valid_utf8_step)
    with False less.hyps [of "drop (rune_len s) s"] assms(3) show ?thesis
      by simp
  qed (simp add: assms(2))
qed

text \<open>The length of a character does not depend on what follows it.\<close>

lemma rune_len_append:
  assumes "0 < rune_len a"
  shows "rune_len (a @ b) = rune_len a"
  using rune_len_take [OF refl assms, of "drop (rune_len a) a @ b"]
  by (simp flip: append_assoc)

lemma valid_utf8_append: "valid_utf8 a \<Longrightarrow> valid_utf8 (a @ b) \<longleftrightarrow> valid_utf8 b"
proof (induction a rule: valid_utf8_induct)
  case (Rune s)
  then show ?case
    using rune_len_append [OF Rune(2), of b] rune_len_le [of s] valid_utf8_step [of "s @ b"] by simp
qed simp

lemma valid_utf8_rune: "0 < rune_len s \<Longrightarrow> valid_utf8 (take (rune_len s) s)"
  using valid_utf8_step [of "take (rune_len s) s"] rune_len_take [of s "rune_len s" "[]"] rune_len_le [of s]
  by (cases "s = []") simp_all

lemma valid_replacement [simp]: "valid_utf8 replacement"
  using to_valid_utf8_replacement [of "[]"] by (simp add: valid_utf8_def)

text \<open>The bytes of a character after its first are no first bytes.\<close>

lemma rune_tail:
  assumes "0 < i" and "i < rune_len s"
  shows "rune_len (drop i s) = 0"
proof -
  have "between 128 191 (s ! i)"
  proof -
    obtain a t where s: "s = a # t"
      using assms rune_len_le [of s] by (cases s) auto
    consider "rune_len s = 2" | "rune_len s = 3" | "rune_len s = 4"
      using assms rune_len_bound [of s] by linarith
    then show ?thesis
    proof cases
      case 1
      then have "i = 1"
        using assms by linarith
      moreover obtain b u where "t = b # u"
        using rune_len_le [of s] 1 s by (cases t) auto
      ultimately show ?thesis
        using 1 by (simp add: s rune_len_2)
    next
      case 2
      then have "i = 1 \<or> i = 2"
        using assms by linarith
      moreover obtain b c u where "t = b # c # u"
        using rune_len_le [of s] 2 s by (cases t; cases "tl t") auto
      ultimately show ?thesis
        using 2 by (auto simp: s rune_len_3 between_def split: if_splits)
    next
      case 3
      then have "i = 1 \<or> i = 2 \<or> i = 3"
        using assms by linarith
      moreover obtain b c d u where "t = b # c # d # u"
        using rune_len_le [of s] 3 s by (cases t; cases "tl t"; cases "tl (tl t)") auto
      ultimately show ?thesis
        using 3 by (auto simp: s rune_len_4 between_def split: if_splits)
qed
  qed
  moreover have "drop i s = s ! i # drop (Suc i) s"
    using assms(2) rune_len_le [of s] by (simp add: Cons_nth_drop_Suc)
  ultimately show ?thesis
    using rune_len_hd [of "s ! i" "drop (Suc i) s"] by (auto simp: between_def)
qed

lemma valid_utf8_append_right:
  assumes "valid_utf8 (a @ b)" and "0 < rune_len b"
  shows "valid_utf8 a"
  using assms(1)
proof (induction "length a" arbitrary: a rule: less_induct)
  case less
  show ?case
  proof (cases "a = []")
    case False
    let ?n = "rune_len (a @ b)"
    have n: "0 < ?n" and rest: "valid_utf8 (drop ?n (a @ b))"
      using less.prems False valid_utf8_step [of "a @ b"] by simp_all
    have le: "?n \<le> length a"
    proof (rule ccontr)
      assume "\<not> ?n \<le> length a"
      with False rune_tail [of "length a" "a @ b"] assms(2) show False
        by simp
    qed
    then have "valid_utf8 (drop ?n a)"
      using less.hyps [of "drop ?n a"] rest n False by simp
    moreover have "rune_len a = ?n"
    proof -
      have "take ?n (a @ b) @ drop ?n a = a"
        using le by simp
      with rune_len_take [OF refl n, of "drop ?n a"] show ?thesis
        by simp
    qed
    ultimately show ?thesis
      using n False valid_utf8_step [of a] by simp
  qed simp
qed

subsection \<open>Trimming and case\<close>

lemma spaces_are_characters: "list_all (\<lambda>p. 0 < rune_len p \<and> valid_utf8 p) space_seqs"
  by code_simp

lemma valid_space: "p \<in> set space_seqs \<Longrightarrow> valid_utf8 p" "p \<in> set space_seqs \<Longrightarrow> 0 < rune_len p"
  using spaces_are_characters by (simp_all add: list_all_iff)

lemma valid_trim_leading: "valid_utf8 s \<Longrightarrow> valid_utf8 (trim_leading space_seqs s)"
proof (induction "length s" arbitrary: s rule: less_induct)
  case less
  show ?case
  proof (cases "strip_any space_seqs s")
    case None
    with less.prems show ?thesis
      by (simp add: trim_leading_None)
  next
    case (Some r)
    then obtain p where "p \<in> set space_seqs" "s = p @ r"
      using strip_any_Some by blast
    with less Some valid_utf8_append [OF valid_space(1)] show ?thesis
      by (simp add: trim_leading_Some)
  qed
qed

lemma valid_trim_trailing: "valid_utf8 (rev s) \<Longrightarrow> valid_utf8 (rev (trim_leading (map rev space_seqs) s))"
proof (induction "length s" arbitrary: s rule: less_induct)
  case less
  show ?case
  proof (cases "strip_any (map rev space_seqs) s")
    case None
    with less.prems show ?thesis
      by (simp add: trim_leading_None)
  next
    case (Some r)
    then obtain p where "p \<in> set space_seqs" "s = rev p @ r"
      using strip_any_Some by fastforce
    with less Some valid_utf8_append_right [OF _ valid_space(2)] show ?thesis
      by (auto simp: trim_leading_Some)
  qed
qed

lemma valid_trim_space [intro]: "valid_utf8 s \<Longrightarrow> valid_utf8 (trim_space s)"
  by (simp add: trim_space_def trim_left_def trim_right_def valid_trim_leading valid_trim_trailing)

lemma lower_char_code: "char_code (lower_char c) = (if 65 \<le> char_code c \<and> char_code c \<le> 90 then char_code c + 32 else char_code c)"
  by (auto simp: lower_char_def char_code_char_of)

lemma lower_char_high: "128 \<le> char_code c \<Longrightarrow> lower_char c = c"
  by (simp add: lower_char_def)

lemma between_lower: "128 \<le> lo \<Longrightarrow> between lo hi (lower_char c) \<longleftrightarrow> between lo hi c"
  by (auto simp: between_def lower_char_code)

lemma rune_len_lower: "rune_len (map lower_char s) = rune_len s"
proof (cases s)
  case (Cons a t)
  show ?thesis
  proof (cases "char_code a < 128")
    case True
    then have "char_code (lower_char a) < 128"
      by (simp add: lower_char_code)
    with True Cons show ?thesis
      by simp
  next
    case False
    then have "lower_char a = a"
      by (simp add: lower_char_high)
    then show ?thesis
      by (cases t; cases "tl t"; cases "tl (tl t)") (simp_all add: Cons rune_len_def Let_def between_lower cong: if_cong)
  qed
qed simp

lemma valid_to_lower: "valid_utf8 s \<Longrightarrow> valid_utf8 (to_lower s)"
proof (induction s rule: valid_utf8_induct)
  case (Rune s)
  then show ?case
    using valid_utf8_step [of "to_lower s"] rune_len_lower [of s] by (simp add: to_lower_def drop_map)
qed (simp add: to_lower_def)

lemma is_ascii_append [simp]: "is_ascii (s @ t) \<longleftrightarrow> is_ascii s \<and> is_ascii t"
  by (simp add: is_ascii_def)

lemma is_ascii_join: "list_all is_ascii xs \<Longrightarrow> is_ascii sep \<Longrightarrow> is_ascii (join xs sep)"
  by (induction xs sep rule: join.induct) (simp_all add: is_ascii_def)

lemma hex_below: "is_hex c \<Longrightarrow> char_code c \<le> 102"
  by (auto simp: is_hex_def is_digit_def)

lemma is_ascii_hex: "list_all is_hex s \<Longrightarrow> is_ascii (to_lower s)"
  by (induction s) (auto simp: is_ascii_def to_lower_def lower_char_code dest: hex_below)

lemma ascii_NormalizeMAC:
  assumes "length (filter is_hex s) = 12"
  shows "is_ascii (config_NormalizeMAC s)"
proof -
  have "list_all is_hex (take 2 (drop (i * 2) (filter is_hex s)))" for i
    by (auto simp: list_all_iff dest!: in_set_takeD in_set_dropD)
  then have "\<And>i. is_ascii (to_lower (take 2 (drop (i * 2) (filter is_hex s))))"
    by (rule is_ascii_hex)
  then have "is_ascii (join (map (\<lambda>i. to_lower (take 2 (drop (i * 2) (filter is_hex s)))) [0..<6]) '':'')"
    by (intro is_ascii_join) (simp_all only: list_all_iff set_map ball_simps is_ascii_def, simp_all add: char_code_def)
  with assms show ?thesis
    by (simp add: config_NormalizeMAC_def Let_def)
qed

lemma valid_NormalizeMAC: "valid_utf8 s \<Longrightarrow> valid_utf8 (config_NormalizeMAC s)"
  using ascii_valid [OF ascii_NormalizeMAC]
  by (cases "length (filter is_hex s) = 12") (auto simp: config_NormalizeMAC_def Let_def valid_to_lower valid_trim_space)

subsection \<open>Characters of a JSON text\<close>

text \<open>The encodings of two, three and four octets have the octets that \<open>rune_len\<close> looks for.\<close>

lemma rune_len_two:
  assumes "0x80 \<le> v" and "v < 0x800"
  shows "rune_len (encode_rune v) = 2"
proof -
  have "2 \<le> v div 64" "v div 64 < 32"
    using assms by (simp_all add: less_mult_imp_div_less div_greater_zero_iff le_div_geq)
  with assms show ?thesis
    by (simp add: encode_rune_def rune_len_def Let_def char_code_char_of between_def)
qed

lemma rune_len_three:
  assumes "0x800 \<le> v" and "v < 0x10000" and "\<not> (0xD800 \<le> v \<and> v < 0xE000)"
  shows "rune_len (encode_rune v) = 3"
proof -
  define a b c where "a = v div 4096" and "b = v div 64 mod 64" and "c = v mod 64"
  have a: "a < 16" and b: "b < 64" and c: "c < 64"
    using assms(2) by (simp_all add: a_def b_def c_def less_mult_imp_div_less)
  have "v div 64 div 64 = a"
    by (simp add: a_def flip: div_mult2_eq)
  then have "64 * a + b = v div 64" and "64 * (v div 64) + c = v"
    using mult_div_mod_eq [of 64 "v div 64"] by (simp_all add: b_def c_def)
  then have v: "v = 4096 * a + 64 * b + c"
    by linarith
  have "a = 0 \<Longrightarrow> 32 \<le> b" and "a = 13 \<Longrightarrow> b < 32"
    using assms v b c by linarith+
  then have "rune_len (map char_of [224 + a, 128 + b, 128 + c]) = 3"
    using a b c by (auto simp: rune_len_def Let_def char_code_char_of between_def)
  moreover have "encode_rune v = map char_of [224 + a, 128 + b, 128 + c]"
    using assms by (simp add: encode_rune_def a_def b_def c_def)
  ultimately show ?thesis
    by simp
qed

lemma rune_len_four:
  assumes "0x10000 \<le> v" and "v < 0x110000"
  shows "rune_len (encode_rune v) = 4"
proof -
  define a b c d where "a = v div 262144" and "b = v div 4096 mod 64" and "c = v div 64 mod 64" and "d = v mod 64"
  have a: "a \<le> 4" and b: "b < 64" and c: "c < 64" and d: "d < 64"
    using assms(2) by (simp_all add: a_def b_def c_def d_def less_mult_imp_div_less)
  have "v div 64 div 64 = v div 4096" and "v div 4096 div 64 = a"
    by (simp_all add: a_def flip: div_mult2_eq)
  then have "64 * a + b = v div 4096" and "64 * (v div 4096) + c = v div 64" and "64 * (v div 64) + d = v"
    using mult_div_mod_eq [of 64 "v div 4096"] mult_div_mod_eq [of 64 "v div 64"] by (simp_all add: b_def c_def d_def)
  then have v: "v = 262144 * a + 4096 * b + 64 * c + d"
    by linarith
  have "a = 0 \<Longrightarrow> 16 \<le> b" and "a = 4 \<Longrightarrow> b < 16"
    using assms v b c d by linarith+
  then have "rune_len (map char_of [240 + a, 128 + b, 128 + c, 128 + d]) = 4"
    using a b c d by (auto simp: rune_len_def Let_def char_code_char_of between_def)
  moreover have "encode_rune v = map char_of [240 + a, 128 + b, 128 + c, 128 + d]"
    using assms by (simp add: encode_rune_def a_def b_def c_def d_def)
  ultimately show ?thesis
    by simp
qed

lemma valid_encode_rune:
  assumes "v < 0x110000" and "\<not> (0xD800 \<le> v \<and> v < 0xE000)"
  shows "valid_utf8 (encode_rune v)"
proof -
  have "rune_len (encode_rune v) = length (encode_rune v)"
  proof -
    consider "v < 0x80" | "0x80 \<le> v" "v < 0x800" | "0x800 \<le> v" "v < 0x10000" | "0x10000 \<le> v"
      by linarith
    then show ?thesis
    proof cases
      case 1
      then show ?thesis
        by (simp add: encode_rune_def char_code_char_of)
    next
      case 2
      then show ?thesis
        by (simp add: rune_len_two) (simp add: encode_rune_def)
    next
      case 3
      with assms(2) show ?thesis
        by (simp add: rune_len_three) (simp add: encode_rune_def)
    next
      case 4
      with assms(1) show ?thesis
        by (simp add: rune_len_four) (simp add: encode_rune_def)
    qed
  qed
  moreover have "encode_rune v \<noteq> []"
    by (simp add: encode_rune_def)
  ultimately show ?thesis
    using valid_utf8_step [of "encode_rune v"] by simp
qed

lemma hex_val_bound: "is_hex c \<Longrightarrow> hex_val c < 16"
  by (auto simp: is_hex_def is_digit_def hex_val_def)

lemma hex4_bound:
  assumes "hex4 s = Some v"
  shows "v < 65536"
proof -
  from assms have "4 \<le> length s" "list_all is_hex (take 4 s)"
    and v: "v = foldl (\<lambda>v c. 16 * v + hex_val c) 0 (take 4 s)"
    by (auto simp: hex4_def split: if_splits)
  then obtain a b c d t where "s = a # b # c # d # t"
    by (cases s; cases "tl s"; cases "tl (tl s)"; cases "tl (tl (tl s))") auto
  with v \<open>list_all is_hex (take 4 s)\<close> show ?thesis
    using hex_val_bound [of a] hex_val_bound [of b] hex_val_bound [of c] hex_val_bound [of d] by simp
qed

lemma surrogate_pair_bound: "surrogate_pair v s = Some w \<Longrightarrow> 0x10000 \<le> w \<and> w < 0x110000"
  by (auto simp: surrogate_pair_def split: if_splits option.splits)

lemma prepend_valid:
  "prepend p r = Some (k, rest) \<Longrightarrow> valid_utf8 p \<Longrightarrow> (\<And>k r'. r = Some (k, r') \<Longrightarrow> valid_utf8 k) \<Longrightarrow> valid_utf8 k"
  by (auto simp: prepend_def valid_utf8_append)

lemma valid_ascii_char: "char_code c < 128 \<Longrightarrow> valid_utf8 [c]"
  by (simp add: ascii_valid is_ascii_def)

lemma valid_escape: "map_of simple_escapes e = Some x \<Longrightarrow> valid_utf8 [x]"
  by (intro valid_ascii_char)
     (auto simp: simple_escapes_def quote_def bslash_def char_code_def split: if_splits)

text \<open>One character of a quoted string: what it stands for is valid, and the rest is shorter.\<close>

lemma unquote_escaped:
  assumes "unquote_chars (bslash # CHR ''u'' # u) = Some (k, r)"
  obtains p u' where "prepend p (unquote_chars u') = Some (k, r)" and "valid_utf8 p" and "length u' \<le> length u"
proof -
  note eq = assms [unfolded unquote_chars.simps(2) [of bslash "CHR ''u'' # u"]]
  then obtain v where v: "hex4 u = Some v"
    by (auto simp: bslash_def quote_def split: option.splits)
  show thesis
  proof (cases "0xD800 \<le> v \<and> v < 0xE000")
    case True
    show thesis
    proof (cases "surrogate_pair v (drop 4 u)")
      case None
      with eq v True show thesis
        by (intro that [of replacement "drop 4 u"]) (simp_all add: bslash_def quote_def)
    next
      case (Some w)
      with surrogate_pair_bound [OF Some] eq v True show thesis
        by (intro that [of "encode_rune w" "drop 10 u"]) (simp_all add: bslash_def quote_def valid_encode_rune)
    qed
  next
    case False
    with hex4_bound [OF v] eq v show thesis
      by (intro that [of "encode_rune v" "drop 4 u"]) (auto simp: bslash_def quote_def intro: valid_encode_rune)
  qed
qed

lemma unquote_step:
  assumes "unquote_chars (c # t) = Some (k, r)" and "c \<noteq> quote"
  obtains p u where "prepend p (unquote_chars u) = Some (k, r)" and "valid_utf8 p" and "length u \<le> length t"
proof -
  note eq = assms(1) [unfolded unquote_chars.simps(2) [of c t]]
  consider "c \<noteq> bslash" "rune_len (c # t) = 0" | "c \<noteq> bslash" "rune_len (c # t) \<noteq> 0" | "c = bslash"
    by blast
  then show thesis
  proof cases
    case 1
    with eq assms(2) show thesis
      by (intro that [of replacement t]) (simp_all split: if_splits)
  next
    case 2
    with eq assms(2) valid_utf8_rune [of "c # t"] show thesis
      by (intro that [of "take (rune_len (c # t)) (c # t)" "drop (rune_len (c # t) - 1) t"])
         (simp_all add: Let_def split: if_splits)
  next
    case 3
    with eq assms(2) obtain e u where t: "t = e # u"
      by (auto split: list.splits)
    show thesis
    proof (cases "e = CHR ''u''")
      case True
      show thesis
        by (rule unquote_escaped [OF assms(1) [unfolded 3 t True]]) (rule that, auto simp: t)
    next
      case False
      with eq 3 assms(2) t obtain x where "map_of simple_escapes e = Some x"
        by (auto split: option.splits)
      with False eq 3 assms(2) t show thesis
        by (intro that [of "[x]" u]) (simp_all add: valid_escape)
    qed
  qed
qed

lemma unquote_valid: "unquote_chars s = Some (k, r) \<Longrightarrow> valid_utf8 k"
proof (induction "length s" arbitrary: s k r rule: less_induct)
  case less
  show ?case
  proof (cases s)
    case (Cons c t)
    show ?thesis
    proof (cases "c = quote")
      case False
      obtain p u where "prepend p (unquote_chars u) = Some (k, r)" "valid_utf8 p" "length u \<le> length t"
        by (rule unquote_step [OF less.prems [unfolded Cons] False])
      with less.hyps [of u] Cons show ?thesis
        by (auto simp: prepend_def valid_utf8_append)
    qed (use less.prems Cons in \<open>simp add: unquote_chars.simps\<close>)
  qed (use less.prems in \<open>simp add: unquote_chars.simps\<close>)
qed

text \<open>A document in which every string is valid.\<close>

fun json_utf8 :: "json \<Rightarrow> bool" where
  "json_utf8 (JStr s) \<longleftrightarrow> valid_utf8 s"
| "json_utf8 (JArr vs) \<longleftrightarrow> list_all json_utf8 vs"
| "json_utf8 (JObj ms) \<longleftrightarrow> list_all (\<lambda>(k, v). valid_utf8 k \<and> json_utf8 v) ms"
| "json_utf8 _ \<longleftrightarrow> True"

lemma parse_value_utf8: "parse_value d s = Some (v, r) \<Longrightarrow> json_utf8 v"
  and parse_elems_utf8: "parse_elems d s = Some (vs, r) \<Longrightarrow> list_all json_utf8 vs"
  and parse_members_utf8: "parse_members d s = Some (ms, r) \<Longrightarrow> list_all (\<lambda>(k, v). valid_utf8 k \<and> json_utf8 v) ms"
proof (induction d s and d s and d s arbitrary: v r and vs r and ms r
    rule: parse_value_parse_elems_parse_members.induct)
  case (1 depth s)
  show ?case
  proof (cases s)
    case Nil
    with "1.prems" show ?thesis
      by (simp add: parse_value.simps)
  next
    case (Cons c t)
    note p = "1.prems" [unfolded parse_value.simps [of depth s], unfolded Cons list.case]
    have ih: "list_all (\<lambda>(k, v). valid_utf8 k \<and> json_utf8 v) ms"
      if "c = CHR ''{''" "depth \<noteq> 0" "\<not> (skip_ws t \<noteq> [] \<and> hd (skip_ws t) = CHR ''}'')"
        "parse_members (depth - 1) (skip_ws t) = Some (ms, r')" for ms r'
      using "1.IH"(1) [OF Cons that(1,2) refl that(3) _ that(4)] skip_ws_length [of t] Cons by simp
    have ih2: "list_all json_utf8 vs"
      if "c = CHR ''[''" "depth \<noteq> 0" "\<not> (skip_ws t \<noteq> [] \<and> hd (skip_ws t) = CHR '']'')"
        "parse_elems (depth - 1) (skip_ws t) = Some (vs, r')" for vs r'
      using "1.IH"(2) [OF Cons _ that(1,2) refl that(3) _ that(4)] skip_ws_length [of t] Cons that(1) by simp
    from p ih ih2 show ?thesis
      by (auto simp: Cons Let_def split: if_splits option.splits dest: unquote_valid)
  qed
next
  case (2 depth s)
  note p = "2.prems" [unfolded parse_elems.simps [of depth s]]
  then obtain v r1 where v: "parse_value depth s = Some (v, r1)"
    by (auto split: option.splits)
  from p v "2.IH"(1) [OF v] "2.IH"(2) [OF v refl refl] show ?case
    by (auto simp: Let_def split: if_splits)
next
  case (3 depth s)
  note p = "3.prems" [unfolded parse_members.simps [of depth s]]
  then obtain k r1 where k: "unquote_chars (tl s) = Some (k, r1)"
    by (auto split: option.splits if_splits)
  from p k obtain v r3 where h: "skip_ws r1 \<noteq> []" "hd (skip_ws r1) = CHR '':''" "\<not> (s = [] \<or> hd s \<noteq> quote)"
    and v: "parse_value depth (skip_ws (tl (skip_ws r1))) = Some (v, r3)"
    by (auto simp: Let_def split: if_splits option.splits)
  have "length (skip_ws (tl (skip_ws r1))) < length s"
    using unquote_chars_shorter [OF k] tl_skip_ws_length [OF h(1)] skip_ws_length [of "tl (skip_ws r1)"] by simp
  with p k h v unquote_valid [OF k] "3.IH"(1) [OF h(3) k refl refl _ refl _ v]
    "3.IH"(2) [OF h(3) k refl refl _ refl _ v refl refl] show ?case
    by (auto simp: Let_def split: if_splits)
qed

lemma parse_json_utf8: "parse_json text = Some j \<Longrightarrow> json_utf8 j"
  by (auto simp: parse_json_def split: option.splits if_splits dest: parse_value_utf8)

end
