(* ===== verification/Cache_Values.thy ===== *)
theory Cache_Values
  imports File_Documents
begin

section \<open>The values the cache may hold\<close>

text \<open>
  Every value \<^verbatim>\<open>Parse\<close> yields is a \<^verbatim>\<open>float64\<close> proper, so that the cache made of such values can
  always be encoded: JSON has no text for infinities and NaN, and a rational number of the model
  that no \<^verbatim>\<open>float64\<close> equals would have none either.
\<close>

definition update_fits :: "update \<Rightarrow> bool" where
  "update_fits u \<longleftrightarrow> double_option (u_temperature u) \<and> double_option (u_humidity u) \<and> in_i64 (u_gateway_time u)
     \<and> valid_int 0 100 (u_battery u)"

lemma double_option_simps [simp]: "double_option None" "double_option (Some v) \<longleftrightarrow> double_value v"
  by (simp_all add: double_option_def)

lemma round_tenth_in_range:
  assumes "\<not> out_of_range lo hi (round_tenth v)" and "v \<noteq> NaN"
  shows "double_value (round_tenth v)"
proof -
  obtain q where "round_tenth v = Fin q"
    using in_range_valid_f64 [OF assms] by (auto simp: valid_f64_def split: f64.splits)
  with round_tenth_double [OF this] show ?thesis
    by (simp add: double_value_def)
qed

lemma small_int_double: "0 \<le> n \<Longrightarrow> n < 256 \<Longrightarrow> double_value (Fin (of_int n))"
  by (simp add: double_value_def is_double_int)

subsection \<open>BLE reports\<close>

lemma decodeTemperature_fits: "update_fits (fst st) \<Longrightarrow> update_fits (fst (decodeTemperature data st))"
proof (cases "decodeFloat32LE data")
  case (Inl e)
  then show "update_fits (fst st) \<Longrightarrow> ?thesis"
    by (cases st) (simp add: decodeTemperature_def)
next
  case (Inr raw)
  then have "raw \<noteq> NaN"
    by (auto elim: decodeFloat32LE_single)
  with Inr round_tenth_in_range show "update_fits (fst st) \<Longrightarrow> ?thesis"
    by (cases st) (auto simp: decodeTemperature_def Let_def update_fits_def)
qed

lemma decodeHumidity_fits: "update_fits (fst st) \<Longrightarrow> update_fits (fst (decodeHumidity data st))"
  by (cases st; cases "decodeByte data")
     (auto simp: decodeHumidity_def Let_def update_fits_def small_int_double dest: decodeByte_range)

lemma decodeBattery_fits: "update_fits (fst st) \<Longrightarrow> update_fits (fst (decodeBattery data st))"
  by (cases st; cases "decodeByte data")
     (auto simp: decodeBattery_def update_fits_def valid_int_def dest: decodeByte_range)

lemma decodeToothbrushState_fits: "update_fits (fst st) \<Longrightarrow> update_fits (fst (decodeToothbrushState data st))"
  by (cases st) (auto simp: decodeToothbrushState_def update_fits_def split: option.split)

lemma sensor_run_fits: "update_fits (fst st) \<Longrightarrow> update_fits (fst (foldl sensorStep st items))"
  by (rule foldl_invariant)
     (auto simp: sensorStep_def decodeTemperature_fits decodeHumidity_fits decodeBattery_fits)

lemma toothbrush_run_fits: "update_fits (fst st) \<Longrightarrow> update_fits (fst (foldl toothbrushStep st items))"
  by (rule foldl_invariant)
     (auto simp: toothbrushStep_def decodeToothbrushState_fits decodeBattery_fits)

lemma report_gateway_time:
  assumes "Unmarshal (dec_struct report_fields) raw zero_report = Some event"
  shows "in_i64 (br_gateway_time event)"
proof -
  have "in_i64 (br_gateway_time s')"
    if "dec_pairs report_fields kvs s = Some s'" "in_i64 (br_gateway_time s)" for kvs s s'
    using _ that(1) _ that(2)
  proof (rule dec_pairs_keeps [where P = "\<lambda>r. in_i64 (br_gateway_time r)" and Q = "\<lambda>_. True"])
    fix key d j r r'
    assume "(key, d) \<in> set report_fields" "d j r = Some r'" "in_i64 (br_gateway_time r)"
    then show "in_i64 (br_gateway_time r')"
      using dec_int_range [of in_i64 j "br_gateway_time r"]
      by (auto simp: report_fields_def field_def dec_int64_def)
  qed (simp add: list_all_iff)
  moreover have "in_i64 (br_gateway_time zero_report)"
    by (simp add: zero_report_def in_i64_def)
  ultimately show ?thesis
    using assms by (auto simp: Unmarshal_def dec_struct_def split: option.splits json.splits)
qed

lemma parseBLEEvent_fits:
  assumes "u \<in> set (fst (parseBLEEvent raw))"
  shows "update_fits u"
proof -
  obtain event product decode errs
    where e: "Unmarshal (dec_struct report_fields) raw zero_report = Some event"
      and p: "LookupProduct (dev_pdid (br_dev event)) = Some product" "p_decode product = Some decode"
      and u: "decode (br_events event) (report_update event product) = (u, errs)"
    using assms by (rule parseBLEEvent_cases)
  have "in_i64 (br_gateway_time event)"
    using report_gateway_time [OF e] .
  then have "update_fits (report_update event product)"
    by (simp add: update_fits_def report_update_def zero_update_def valid_int_def)
  then have "update_fits (fst (decode (br_events event) (report_update event product)))"
    using p sensor_run_fits [of "(report_update event product, [])"]
      toothbrush_run_fits [of "(report_update event product, [])"]
    by (elim LookupProduct_cases) (auto simp: decodeSensorHTO2_def decodeToothbrushT700i_def)
  with u show ?thesis
    by simp
qed

subsection \<open>MIoT properties\<close>

lemma miot_set_fits:
  assumes "miot_set conv kind did vl u = Inr u'" and "update_fits u" and "vl \<noteq> NaN"
  shows "update_fits u'"
  using assms round_tenth_in_range [OF _ assms(3)]
  by (auto simp: miot_set_def update_fits_def valid_int_def Let_def split: if_splits)

lemma miotStep_fits:
  assumes "miotStep conv st prop = Inr st'" and "\<forall>u \<in> ran (fst st). update_fits u"
  shows "\<forall>u \<in> ran (fst st'). update_fits u"
proof (cases "miot_kind prop = []")
  case True
  with assms show ?thesis
    by (cases st) (simp add: miotStep_def)
next
  case False
  define u where "u = (case fst st (mp_did prop) of
      None \<Rightarrow> zero_update\<lparr>u_did := mp_did prop, u_model := ModelSensorHTO2\<rparr> | Some u \<Rightarrow> u)"
  obtain vl u' where v: "rawNumber (mp_value prop) = Some vl"
    and s: "miot_set conv (miot_kind prop) (mp_did prop) vl u = Inr u'"
    and st': "fst st' = (fst st)(mp_did prop \<mapsto> u')"
    using assms(1) False
    by (auto simp: miotStep_def u_def Let_def split: prod.splits option.splits sum.splits if_splits)
  have "update_fits u"
    using assms(2) by (auto simp: u_def ran_def update_fits_def zero_update_def in_i64_def valid_int_def split: option.split)
  moreover have "vl \<noteq> NaN"
    using rawNumber_finite [OF v] by auto
  ultimately have "update_fits u'"
    by (rule miot_set_fits [OF s])
  moreover have "ran (fst st') \<subseteq> insert u' (ran (fst st))"
    unfolding st' by (auto simp: ran_def split: if_splits)
  ultimately show ?thesis
    using assms(2) by blast
qed

lemma miotLoop_fits:
  "miotLoop conv st props = Inr st' \<Longrightarrow> \<forall>u \<in> ran (fst st). update_fits u \<Longrightarrow> \<forall>u \<in> ran (fst st'). update_fits u"
  by (induction props arbitrary: st) (auto dest: miotStep_fits split: sum.splits)

lemma Parse_fits:
  assumes "u \<in> set (fst (Parse conv payload))"
  shows "update_fits u"
proof -
  have "update_fits u" if u: "u \<in> set (fst (parseMIoTProperties conv raw))" for raw
  proof -
    obtain props m ord where "miotLoop conv (Map.empty, []) props = Inr (m, ord)" and "u \<in> set (List.map_filter m ord)"
      using u by (auto simp: parseMIoTProperties_def split: option.splits sum.splits prod.splits)
    with miotLoop_fits [of conv "(Map.empty, [])"] show ?thesis
      by (fastforce simp: List.map_filter_def ran_def)
  qed
  with assms parseBLEEvent_fits show ?thesis
    by (auto simp: Parse_def split: option.splits if_splits)
qed

subsection \<open>The cache\<close>

definition cache_fits :: "measurement_state \<Rightarrow> bool" where
  "cache_fits m \<longleftrightarrow> finite (dom m) \<and> (\<forall>r \<in> ran m. reading_fits r)"

lemma override_fits: "double_option v \<Longrightarrow> double_option w \<Longrightarrow> double_option (override v w)"
  by (cases v) (simp_all add: override_def)

lemma overlay_fits: "update_fits u \<Longrightarrow> reading_fits r \<Longrightarrow> reading_fits (overlay u r)"
  by (auto simp: reading_fits_def overlay_def update_fits_def override_fits override_def [of "u_battery u"]
      valid_int_def in_i32_def split: option.splits)

lemma prior_or_zero_fits: "cache_fits m \<Longrightarrow> reading_fits (prior_or_zero u m)"
  by (auto simp: prior_or_zero_def prior_reading_def cache_fits_def ran_def zero_reading_def reading_fits_def
      in_i64_def split: option.splits if_splits)

lemma update_fits_finite: "update_fits u \<Longrightarrow> finite_values u"
  by (auto simp: update_fits_def finite_values_def double_option_def double_value_def split: option.splits f64.splits)

lemma Merge_fits:
  assumes "update_fits u" and "in_i64 (unix now)" and "cache_fits m" and "Merge now u m = (b, m')"
  shows "cache_fits m'"
proof -
  have "in_i64 (update_time now u)"
    using assms(1,2) by (simp add: update_time_def update_fits_def)
  with overlay_fits [OF assms(1) prior_or_zero_fits [OF assms(3), of u]]
  have "reading_fits ((overlay u (prior_or_zero u m))\<lparr>r_updated_at := update_time now u\<rparr>)"
    by (simp add: reading_fits_def)
  moreover have "reading_fits r" if "m key = Some r" for key r
    using assms(3) that by (auto simp: cache_fits_def ran_def)
  ultimately show ?thesis
    using assms(3,4)
    by (auto simp: Merge_eq [OF update_fits_finite [OF assms(1)]] cache_fits_def [of m'] ran_def [of m']
        cache_fits_def [of m, THEN iffD1, THEN conjunct1] split: if_splits)
qed

lemma cache_fits_doc: "cache_fits m \<Longrightarrow> cache_doc m \<noteq> None"
proof -
  assume fits: "cache_fits m"
  then have "list_all (\<lambda>(k, r). reading_fits r) (cache_entries m)" and "finite (dom m)"
    by (auto simp: cache_fits_def list_all_iff cache_entries_def ran_def)
  with dec_entries_docs [of "cache_entries m" "[]" 3] cache_entries_keys(1) show ?thesis
    by (auto simp: cache_doc_def)
qed

end
