(* ===== verification/Decoded_Values.thy ===== *)
theory Decoded_Values
  imports Utf8_Strings Cache_Values Stored_Data
begin

section \<open>What comes out of a JSON text\<close>

text \<open>
  Whatever octets a message or a file holds, the values decoded from them are such as can be
  stored again without loss: numbers in the range of their types, \<^verbatim>\<open>float64\<close> values proper, valid
  UTF-8.  The devices of a registry and of an accepted configuration have normal addresses.
\<close>

subsection \<open>Documents\<close>

lemma dec_struct_keeps:
  assumes "\<And>key d j s s'. (key, d) \<in> set fs \<Longrightarrow> json_utf8 j \<Longrightarrow> d j s = Some s' \<Longrightarrow> P s \<Longrightarrow> P s'"
    and "dec_struct fs j s = Some s'" and "json_utf8 j" and "P s"
  shows "P s'"
proof (cases j)
  case (JObj kvs)
  then have "dec_pairs fs kvs s = Some s'" "list_all (\<lambda>(k, j). json_utf8 j) kvs"
    using assms(2,3) by (auto simp: dec_struct_def list_all_iff)
  from dec_pairs_keeps [of fs json_utf8 P, OF assms(1) this assms(4)] show ?thesis .
qed (use assms in \<open>auto simp: dec_struct_def\<close>)

lemma dec_list_keeps:
  assumes "\<And>j s s'. json_utf8 j \<Longrightarrow> d j s = Some s' \<Longrightarrow> P s \<Longrightarrow> P s'" and "P zero"
    and "dec_list d zero j olds = Some vs" and "json_utf8 j" and "list_all P olds"
  shows "list_all P vs"
proof (cases j)
  case (JArr js)
  with assms(3,4) have "dec_items d zero js olds = Some vs" "list_all json_utf8 js"
    by (simp_all add: dec_list_def)
  from dec_items_keeps [of json_utf8 d P, OF assms(1,2) this assms(5)] show ?thesis .
qed (use assms(3) in \<open>auto simp: dec_list_def\<close>)

lemma dec_string_utf8: "dec_string j old = Some s \<Longrightarrow> json_utf8 j \<Longrightarrow> valid_utf8 old \<Longrightarrow> valid_utf8 s"
  by (auto simp: dec_string_def split: json.splits)

lemma unmarshal_keeps:
  assumes "\<And>key d j s s'. (key, d) \<in> set fs \<Longrightarrow> json_utf8 j \<Longrightarrow> d j s = Some s' \<Longrightarrow> P s \<Longrightarrow> P s'"
    and "unmarshal fs zero b = Some v" and "P zero"
  shows "P v"
proof -
  obtain j where "parse_json b = Some j" "dec_struct fs j zero = Some v"
    using assms(2) by (auto simp: unmarshal_def split: option.splits)
  from dec_struct_keeps [where P = P, OF _ this(2) parse_json_utf8 [OF this(1)] assms(3)] assms(1) show ?thesis
    by blast
qed

subsection \<open>Devices\<close>

lemma dec_aid_range: "dec_aid j old = Some n \<Longrightarrow> in_u64 (int old) \<Longrightarrow> in_u64 (int n)"
  using dec_int_range [of in_u64 j "int old"] by (auto simp: dec_aid_def dec_uint64_def in_u64_def)

definition clean_device :: "device \<Rightarrow> bool" where
  "clean_device d \<longleftrightarrow> device_fits d \<and> utf8_clean d"

definition storable_device :: "device \<Rightarrow> bool" where
  "storable_device d \<longleftrightarrow> clean_device d \<and> config_NormalizeMAC (d_mac d) = d_mac d"

lemma registry_storable_all: "registry_storable ds \<longleftrightarrow> (\<forall>d \<in> set ds. storable_device d)"
  by (simp add: registry_storable_def storable_device_def clean_device_def list_all_iff conj_assoc)

lemma dec_device_clean:
  assumes "dec_struct device_fields j d = Some d'" and "json_utf8 j" and "clean_device d"
  shows "clean_device d'"
proof (rule dec_struct_keeps [where P = clean_device, OF _ assms])
  fix key d j s s'
  assume "(key, d) \<in> set device_fields" "json_utf8 j" "d j s = Some s'" "clean_device s"
  then show "clean_device s'"
    using dec_string_utf8 [of j _ _] dec_int_range [of in_i32 j "d_product_id s"] dec_aid_range [of j "d_aid s"]
    by (auto simp: device_fields_def field_def clean_device_def device_fits_def utf8_clean_def dec_go_int_def)
qed

lemma zero_device_clean [simp]: "clean_device zero_device"
  by (simp add: clean_device_def zero_device_def device_fits_def utf8_clean_def in_i32_def in_u64_def)

lemma dec_devices_clean:
  assumes "dec_list (dec_struct device_fields) zero_device j ds = Some ds'" and "json_utf8 j"
    and "list_all clean_device ds"
  shows "list_all clean_device ds'"
  by (rule dec_list_keeps [OF dec_device_clean zero_device_clean assms])

lemma normal_device_storable: "clean_device d \<Longrightarrow> storable_device (d\<lparr>d_mac := config_NormalizeMAC (d_mac d)\<rparr>)"
  using valid_NormalizeMAC [of "d_mac d"]
  by (simp add: storable_device_def clean_device_def device_fits_def utf8_clean_def config_NormalizeMAC_eq)

lemma registry_load_storable:
  assumes "fst (registry_Load sys path s) = Inr ds"
  shows "registry_storable ds"
proof (cases "ds = []")
  case False
  with assms obtain b ds0 where b: "unmarshal registry_fields [] b = Some ds0"
    and ds: "ds = map (\<lambda>d. d\<lparr>d_mac := config_NormalizeMAC (d_mac d)\<rparr>) ds0"
    by (auto simp: registry_Load_def split: prod.splits sum.splits os_error.splits option.splits)
  have "list_all clean_device ds0"
  proof (rule unmarshal_keeps [OF _ b])
    fix key d j s s'
    assume "(key, d) \<in> set registry_fields" "json_utf8 j" "d j s = Some s'" "list_all clean_device s"
    then show "list_all clean_device s'"
      using dec_devices_clean by (auto simp: registry_fields_def)
  qed simp
  then show ?thesis
    by (auto simp: registry_storable_all ds list_all_iff normal_device_storable)
qed (simp add: registry_storable_def)

subsection \<open>The configured devices\<close>

lemma is_ascii_itoa: "is_ascii (itoa n)"
proof -
  have "is_ascii (itoa_nat k)" for k
    using itoa_nat_digits [of k] by (auto simp: is_ascii_def list_all_iff is_digit_def)
  then show ?thesis
    by (simp add: itoa_def is_ascii_def char_code_def)
qed

lemma normalize_device_storable:
  assumes "clean_device d"
  shows "storable_device (normalize_device i d)"
proof -
  have "is_ascii (''Bluetooth Device '' @ itoa (int i + 1))"
    using is_ascii_itoa by (simp add: is_ascii_def char_code_def)
  with assms valid_NormalizeMAC [of "d_mac d"] show ?thesis
    by (auto simp: normalize_device_def storable_device_def clean_device_def device_fits_def utf8_clean_def
        Let_def config_NormalizeMAC_eq valid_trim_space dest: ascii_valid)
qed

lemma normalize_devices_storable:
  "normalize_devices i st ds = Inr ds' \<Longrightarrow> list_all clean_device ds \<Longrightarrow> list_all storable_device ds'"
  by (induction i st ds arbitrary: ds' rule: normalize_devices.induct)
     (auto simp: normalize_device_storable split: sum.splits)

lemma configured_devices_storable:
  assumes "LoadOrCreate sys reads path s = Some (Inr (c, created), s')"
  shows "registry_storable (c_devices c)"
proof -
  have made: "list_all storable_device (c_devices c')"
    if "NormalizeAndValidate path c0 = Inr c'" "list_all clean_device (c_devices c0)" for c0 c'
    using that normalize_devices_storable
    by (auto simp: NormalizeAndValidate_def Let_def split: sum.splits option.splits if_splits)
  have read: "list_all clean_device (c_devices c0)" if "unmarshal config_fields zero_config b = Some c0" for b c0
  proof (rule unmarshal_keeps [OF _ that])
    fix key d j s s'
    assume "(key, d) \<in> set config_fields" "json_utf8 j" "d j s = Some s'" "list_all clean_device (c_devices s)"
    then show "list_all clean_device (c_devices s')"
      using dec_devices_clean [of j "c_devices s"] by (auto simp: config_fields_def field_def)
  qed (simp add: zero_config_def)
  have "list_all storable_device (c_devices c)"
    using assms made read
    by (auto simp: LoadOrCreate_def Defaults_def
        split: prod.splits sum.splits os_error.splits option.splits pin_outcome.splits)
  then show ?thesis
    by (simp add: registry_storable_all list_all_iff)
qed

subsection \<open>The cached readings\<close>

lemma dec_float_ptr_double: "dec_float_ptr j old = Some v \<Longrightarrow> double_option v"
  by (auto simp: dec_float_ptr_def double_option_def split: json.splits option.splits dest: ParseFloat_double)

lemma dec_int_ptr_range:
  "dec_int_ptr j old = Some v \<Longrightarrow> (case old of None \<Rightarrow> True | Some b \<Rightarrow> in_i32 b) \<Longrightarrow> (case v of None \<Rightarrow> True | Some b \<Rightarrow> in_i32 b)"
  using dec_int_range [of in_i32 j "case old of None \<Rightarrow> 0 | Some n \<Rightarrow> n"]
  by (auto simp: dec_int_ptr_def dec_go_int_def in_i32_def split: json.splits option.splits)

lemma zero_reading_fits [simp]: "reading_fits zero_reading"
  by (simp add: reading_fits_def zero_reading_def in_i64_def)

lemma dec_reading_fits:
  assumes "dec_struct reading_fields j zero_reading = Some r" and "json_utf8 j"
  shows "reading_fits r"
proof (rule dec_struct_keeps [where P = reading_fits, OF _ assms zero_reading_fits])
  fix key d j s s'
  assume "(key, d) \<in> set reading_fields" "d j s = Some s'" "reading_fits s"
  then show "reading_fits s'"
    using dec_int_range [of in_i64 j "r_updated_at s"] dec_int_ptr_range [of j "r_battery s"]
      dec_float_ptr_double [of j]
    by (auto simp: reading_fields_def field_def reading_fits_def dec_int64_def)
qed

definition entries_fit :: "(go_string \<times> reading) list \<Rightarrow> bool" where
  "entries_fit es \<longleftrightarrow> list_all (\<lambda>(k, r). valid_utf8 k \<and> reading_fits r) es"

lemma dec_map_fit:
  assumes "dec_map (dec_struct reading_fields) zero_reading j es = Some es'" and "json_utf8 j" and "entries_fit es"
  shows "entries_fit es'"
proof (cases j)
  case (JObj kvs)
  then have "dec_entries (dec_struct reading_fields) zero_reading kvs es = Some es'"
    "list_all (\<lambda>(k, v). valid_utf8 k \<and> json_utf8 v) kvs"
    using assms(1,2) by (simp_all add: dec_map_def)
  from dec_entries_keeps [of json_utf8 _ _ reading_fits, OF dec_reading_fits this] assms(3)
  show ?thesis
    by (simp add: entries_fit_def)
qed (use assms(1) in \<open>auto simp: dec_map_def entries_fit_def\<close>)

lemma valid_normalizeKey: "valid_utf8 key \<Longrightarrow> valid_utf8 (normalizeKey key)"
proof -
  assume key: "valid_utf8 key"
  have did: "valid_utf8 ''did:''"
    by (simp add: ascii_valid is_ascii_def char_code_def)
  show "valid_utf8 (normalizeKey key)"
  proof (cases "has_prefix key ''did:''")
    case True
    then obtain r where "key = ''did:'' @ r"
      unfolding has_prefix_iff by blast
    with key did show ?thesis
      using valid_utf8_append [OF did] by (simp only: normalizeKey_did) (simp add: valid_trim_space)
  next
    case False
    with valid_NormalizeMAC [OF key] show ?thesis
      by (simp add: normalizeKey_def)
  qed
qed

lemma storable_cache_iff:
  "storable_cache m \<longleftrightarrow> finite (dom m) \<and> (\<forall>k r. m k = Some r \<longrightarrow> valid_utf8 k \<and> reading_fits r)"
  by (fastforce simp: storable_cache_def ran_def)

lemma storable_cache_update:
  "storable_cache m \<Longrightarrow> valid_utf8 k \<Longrightarrow> reading_fits r \<Longrightarrow> storable_cache (m(k \<mapsto> r))"
  by (simp add: storable_cache_iff)

lemma storable_cache_remove: "storable_cache m \<Longrightarrow> storable_cache (m(k := None))"
  by (simp add: storable_cache_iff)

lemma empty_storable [simp]: "storable_cache Map.empty" "cache_storable Map.empty"
  by (simp_all add: cache_storable_def storable_cache_def keys_normal_def)

lemma load_devices_storable:
  assumes "entries_fit es"
  shows "storable_cache (load_devices es)"
proof -
  have "storable_cache m \<Longrightarrow> storable_cache (foldl (\<lambda>s (key, r). s(normalizeKey key \<mapsto> cloneReading r)) m es)" for m
    using assms
  proof (induction es arbitrary: m)
    case (Cons e es)
    obtain key r where "e = (key, r)"
      by fastforce
    with Cons valid_normalizeKey [of key] storable_cache_update show ?case
      by (simp add: entries_fit_def del: fun_upd_apply)
  qed simp
  then show ?thesis
    unfolding load_devices_def by (simp only: empty_storable)
qed

lemma measurements_load_storable:
  assumes "fst (measurements_Load sys path s) = Inr m"
  shows "storable_cache m"
proof -
  have read: "entries_fit (cf_devices data)" if "unmarshal cache_file_fields zero_cache_file b = Some data" for b data
  proof (rule unmarshal_keeps [OF _ that])
    fix key d j s s'
    assume "(key, d) \<in> set cache_file_fields" "json_utf8 j" "d j s = Some s'" "entries_fit (cf_devices s)"
    then show "entries_fit (cf_devices s')"
      using dec_map_fit [of j "cf_devices s"] by (auto simp: cache_file_fields_def field_def)
  qed (simp add: zero_cache_file_def entries_fit_def)
  have "set (enumeration sys es) = set es" for es :: "(go_string \<times> reading) list"
    using enumeration_mset by (rule mset_eq_setD)
  then have "entries_fit (enumeration sys es) \<longleftrightarrow> entries_fit es" for es
    by (simp add: entries_fit_def list_all_iff)
  with assms read show ?thesis
    by (auto simp: measurements_Load_def measurements_New_def load_devices_storable
        split: prod.splits sum.splits os_error.splits option.splits if_splits)
qed

subsection \<open>The updates of a message\<close>

definition clean_update :: "update \<Rightarrow> bool" where
  "clean_update u \<longleftrightarrow> valid_utf8 (u_did u) \<and> valid_utf8 (u_mac u) \<and> valid_utf8 (u_model u)
     \<and> in_i32 (u_product_id u) \<and> config_NormalizeMAC (u_mac u) = u_mac u"

lemma report_device_utf8:
  assumes "Unmarshal (dec_struct report_fields) raw zero_report = Some event" and "\<And>j. raw = Some j \<Longrightarrow> json_utf8 j"
  shows "valid_utf8 (dev_did (br_dev event)) \<and> valid_utf8 (dev_mac (br_dev event))"
proof -
  let ?ok = "\<lambda>d. valid_utf8 (dev_did d) \<and> valid_utf8 (dev_mac d)"
  have dev: "?ok d'" if "dec_struct dev_fields j d = Some d'" "json_utf8 j" "?ok d" for j d d'
    using _ that
  proof (rule dec_struct_keeps [where P = ?ok])
    fix key d j s s'
    assume "(key, d) \<in> set dev_fields" "json_utf8 j" "d j s = Some s'" "?ok s"
    then show "?ok s'"
      using dec_string_utf8 [of j] by (auto simp: dev_fields_def field_def)
  qed
  obtain j where j: "raw = Some j" "dec_struct report_fields j zero_report = Some event"
    using assms(1) by (auto simp: Unmarshal_def split: option.splits)
  show ?thesis
  proof (rule dec_struct_keeps [where P = "\<lambda>r. ?ok (br_dev r)", OF _ j(2) assms(2) [OF j(1)]])
    fix key d j s s'
    assume "(key, d) \<in> set report_fields" "json_utf8 j" "d j s = Some s'" "?ok (br_dev s)"
    then show "?ok (br_dev s')"
      using dev [of j "br_dev s"] by (auto simp: report_fields_def field_def)
  qed (simp add: zero_report_def)
qed

lemma product_texts:
  assumes "LookupProduct pdid = Some product"
  shows "valid_utf8 (p_model product) \<and> in_i32 pdid"
  using assms
  by (elim LookupProduct_cases)
     (auto simp: product_sensor_def product_toothbrush_def ModelSensorHTO2_def ModelToothbrushT700i_def
        ascii_valid is_ascii_def char_code_def in_i32_def)

lemma parseBLEEvent_clean:
  assumes "u \<in> set (fst (parseBLEEvent raw))" and "\<And>j. raw = Some j \<Longrightarrow> json_utf8 j"
  shows "clean_update u"
proof -
  obtain event product decode errs
    where e: "Unmarshal (dec_struct report_fields) raw zero_report = Some event"
      and p: "LookupProduct (dev_pdid (br_dev event)) = Some product" "p_decode product = Some decode"
      and u: "decode (br_events event) (report_update event product) = (u, errs)"
    using assms(1) by (rule parseBLEEvent_cases)
  have "same_identity (report_update event product) u"
    using product_decoder_identity [OF p, of "report_update event product" "br_events event"] u by simp
  moreover have "valid_utf8 (NormalizeMAC (dev_mac (br_dev event)))"
    using valid_NormalizeMAC [of "dev_mac (br_dev event)"] report_device_utf8 [OF e assms(2)]
    by (simp add: config_NormalizeMAC_eq)
  ultimately show ?thesis
    using product_texts [OF p(1)] report_device_utf8 [OF e assms(2)]
    by (simp add: clean_update_def same_identity_def report_update_def config_NormalizeMAC_eq)
qed

lemma miotLoop_dids:
  "miotLoop conv st props = Inr st' \<Longrightarrow> set (snd st') \<subseteq> set (snd st) \<union> mp_did ` set props"
proof (induction props arbitrary: st)
  case (Cons x props)
  then obtain st1 where st1: "miotStep conv st x = Inr st1" and rest: "miotLoop conv st1 props = Inr st'"
    by (auto split: sum.splits)
  have "set (snd st1) \<subseteq> insert (mp_did x) (set (snd st))"
    using st1 by (auto simp: miotStep_def Let_def split: prod.splits if_splits option.splits sum.splits)
  with Cons.IH [OF rest] show ?case
    by auto
qed simp

lemma parseMIoT_clean:
  assumes "u \<in> set (fst (parseMIoTProperties conv raw))" and "\<And>j. raw = Some j \<Longrightarrow> json_utf8 j"
  shows "clean_update u"
proof -
  obtain props m ord where p: "Unmarshal (dec_list (dec_struct prop_fields) zero_prop) raw [] = Some props"
    and loop: "miotLoop conv (Map.empty, []) props = Inr (m, ord)" and u: "u \<in> set (List.map_filter m ord)"
    using assms(1) by (auto simp: parseMIoTProperties_def split: option.splits sum.splits prod.splits)
  obtain j where j: "raw = Some j" "dec_list (dec_struct prop_fields) zero_prop j [] = Some props"
    using p by (auto simp: Unmarshal_def split: option.splits)
  have did: "valid_utf8 (mp_did x')" if "dec_struct prop_fields i x = Some x'" "json_utf8 i" "valid_utf8 (mp_did x)" for i x x'
  proof (rule dec_struct_keeps [where P = "\<lambda>x. valid_utf8 (mp_did x)", OF _ that])
    fix key d j s s'
    assume "(key, d) \<in> set prop_fields" "json_utf8 j" "d j s = Some s'" "valid_utf8 (mp_did s)"
    then show "valid_utf8 (mp_did s')"
      using dec_string_utf8 [of j] by (auto simp: prop_fields_def field_def)
  qed
  have "list_all (\<lambda>x. valid_utf8 (mp_did x)) props"
    by (rule dec_list_keeps [OF did _ j(2) assms(2) [OF j(1)]]) (simp_all add: zero_prop_def)
  moreover obtain did where "did \<in> set ord" "m did = Some u"
    using u by (auto simp: List.map_filter_def)
  moreover have "miot_inv (m, ord)"
    using miotLoop_inv [OF loop] by simp
  ultimately have "u_did u = did" "miot_update_ok u" "valid_utf8 did"
    using miotLoop_dids [OF loop] by (auto simp: miot_inv_def list_all_iff)
  moreover have "valid_utf8 ModelSensorHTO2"
    by (simp add: ModelSensorHTO2_def ascii_valid is_ascii_def char_code_def)
  ultimately show ?thesis
    by (simp add: clean_update_def miot_update_ok_def in_i32_def config_NormalizeMAC_eq)
qed

lemma Parse_clean:
  assumes "u \<in> set (fst (Parse conv (parse_json payload)))"
  shows "clean_update u"
proof -
  obtain env where env: "Unmarshal (dec_struct envelope_fields) (parse_json payload) zero_envelope = Some env"
    and u: "u \<in> set (fst (parseBLEEvent (env_params env))) \<or> u \<in> set (fst (parseMIoTProperties conv (env_params env)))"
    using assms by (auto simp: Parse_def split: option.splits if_splits)
  let ?ok = "\<lambda>e. \<forall>j. env_params e = Some j \<longrightarrow> json_utf8 j"
  obtain j where j: "parse_json payload = Some j" "dec_struct envelope_fields j zero_envelope = Some env"
    using env by (auto simp: Unmarshal_def split: option.splits)
  have "?ok env"
  proof (rule dec_struct_keeps [where P = ?ok, OF _ j(2) parse_json_utf8 [OF j(1)]])
    fix key d j s s'
    assume "(key, d) \<in> set envelope_fields" "json_utf8 j" "d j s = Some s'" "?ok s"
    then show "?ok s'"
      by (auto simp: envelope_fields_def field_def dec_raw_def)
  qed (simp add: zero_envelope_def)
  with u parseBLEEvent_clean parseMIoT_clean show ?thesis
    by blast
qed

end
