(* ===== verification/Stored_Values.thy ===== *)
theory Stored_Values
  imports Start_Up Decoded_Values
begin

section \<open>What the running bridge stores\<close>

text \<open>
  Every device list and every cache that the bridge hands to \<^verbatim>\<open>registry.Save\<close> and \<^verbatim>\<open>State.Save\<close> can be
  stored without loss, whatever the files held when it started and whatever messages arrived.
\<close>

subsection \<open>Accessory ids\<close>

lemma next_candidate_bound:
  assumes "next_candidate used c = Some y"
  shows "y \<le> max c max_aid"
proof (rule next_candidate.raw_induct [where P = "\<lambda>used c y. y \<le> max c max_aid", OF _ assms])
  fix search used c y
  assume IH: "\<And>used c y. search used c = Some y \<Longrightarrow> y \<le> max c max_aid"
    and step: "(if c < 2 \<or> c \<in> used then search used (if 0x7fffffff < c + 1 then 2 else c + 1) else Some c) = Some y"
  show "y \<le> max c max_aid"
  proof (cases "c < 2 \<or> c \<in> used")
    case True
    with step have "search used (wrap_aid c) = Some y"
      by (simp add: wrap_aid_def max_aid_def)
    from IH [OF this] show ?thesis
      by (auto simp: wrap_aid_def max_aid_def split: if_splits)
  qed (use step in simp)
qed

lemma assigned_aid_fits:
  assumes "assign_aid used d = Some (d', c)" and "in_u64 (int (d_aid d))"
  shows "in_u64 (int (d_aid d'))"
  using assms next_candidate_bound [of used "DefaultAccessoryID d"] stableID_upper [of d]
  by (auto simp: assign_aid_def DefaultAccessoryID_def max_aid_def in_u64_def split: if_splits option.splits)

subsection \<open>Device lists\<close>

lemma model_texts [simp]: "valid_utf8 ModelSensorHTO2" "valid_utf8 ModelToothbrushT700i"
  by (simp_all add: ModelSensorHTO2_def ModelToothbrushT700i_def ascii_valid is_ascii_def char_code_def)

lemma product_ids [simp]: "in_i32 ProductIDSensorHTO2" "in_i32 ProductIDToothbrushT700i"
  by (simp_all add: ProductIDSensorHTO2_def ProductIDToothbrushT700i_def in_i32_def)

lemma infer_product_storable:
  assumes "infer_product d = (d', c)" and "storable_device d"
  shows "storable_device d'"
  using assms
  by (auto simp: infer_product_def infer_product_id_def infer_model_def LookupProduct_eq LookupProductByModel_eq
      storable_device_def clean_device_def device_fits_def utf8_clean_def product_sensor_def product_toothbrush_def Let_def
      split: if_splits)

lemma assign_aid_storable:
  assumes "assign_aid used d = Some (d', c)" and "storable_device d"
  shows "storable_device d'"
proof -
  obtain n where d': "d' = d\<lparr>d_aid := n\<rparr>"
    using assign_aid_device [OF assms(1)] by blast
  have "in_u64 (int (d_aid d'))"
    using assigned_aid_fits [OF assms(1)] assms(2) by (simp add: storable_device_def clean_device_def device_fits_def)
  with assms(2) show ?thesis
    by (simp add: d' storable_device_def clean_device_def device_fits_def utf8_clean_def)
qed

lemma prepare_loop_storable:
  "prepare_loop used ds = Some (ds', c) \<Longrightarrow> registry_storable ds \<Longrightarrow> registry_storable ds'"
proof (induction ds arbitrary: used ds' c)
  case (Cons d ds)
  obtain d1 c1 where d1: "infer_product d = (d1, c1)"
    by fastforce
  obtain x where "assign_aid used d1 = Some x"
    using Cons.prems(1) d1 by (auto split: option.splits)
  then obtain d2 c2 where d2: "assign_aid used d1 = Some (d2, c2)"
    by (cases x) simp
  obtain y where "prepare_loop (insert (d_aid d2) used) ds = Some y"
    using Cons.prems(1) d1 d2 by (auto split: option.splits)
  then obtain ds2 c3 where rest: "prepare_loop (insert (d_aid d2) used) ds = Some (ds2, c3)"
    by (cases y) simp
  have "storable_device d2"
    using Cons.prems(2) by (intro assign_aid_storable [OF d2] infer_product_storable [OF d1]) (simp add: registry_storable_all)
  with Cons.IH [OF rest] Cons.prems d1 d2 rest show ?case
    by (auto simp: registry_storable_all)
qed simp

lemma merge_storable: "registry_storable xs \<Longrightarrow> registry_storable ys \<Longrightarrow> registry_storable (mergeDevices xs ys)"
proof -
  have "set (merge_saved seen ms ds) \<subseteq> set ms \<union> set ds" for seen ms ds
    by (induction seen ms ds rule: merge_saved.induct) auto
  then show "registry_storable xs \<Longrightarrow> registry_storable ys \<Longrightarrow> registry_storable (mergeDevices xs ys)"
    by (fastforce simp: mergeDevices_def registry_storable_all)
qed

lemma deviceFromUpdate_storable:
  assumes "clean_update u"
  shows "storable_device (deviceFromUpdate u n)"
proof -
  have "is_ascii (itoa n)"
    by (rule is_ascii_itoa)
  then have "valid_utf8 (d_name (deviceFromUpdate u n))"
    by (intro ascii_valid)
       (simp add: deviceFromUpdate_def LookupProduct_eq product_sensor_def product_toothbrush_def is_ascii_def char_code_def Let_def)
  moreover have "d_mac (deviceFromUpdate u n) = u_mac u" "d_did (deviceFromUpdate u n) = u_did u"
    "d_product_id (deviceFromUpdate u n) = u_product_id u" "d_model (deviceFromUpdate u n) = u_model u"
    "d_aid (deviceFromUpdate u n) = 0"
    by (simp_all add: deviceFromUpdate_def Let_def)
  ultimately show ?thesis
    using assms by (simp add: storable_device_def clean_device_def device_fits_def utf8_clean_def clean_update_def in_u64_def)
qed

lemma append_storable:
  assumes "appendDeviceWithAID ds d = Some ds'" and "registry_storable ds" and "storable_device d"
  shows "registry_storable ds'"
  using assms prepare_loop_storable [of "{}" "ds @ [d]"]
  by (auto simp: appendDeviceWithAID_def prepareDevices_def registry_storable_all)

subsection \<open>The devices of a start\<close>

definition clean_events :: "select_event list \<Rightarrow> bool" where
  "clean_events es \<longleftrightarrow> (\<forall>now u. Received now u \<in> set es \<longrightarrow> clean_update u)"

lemma clean_events_Cons:
  "clean_events (Received now u # es) \<longleftrightarrow> clean_update u \<and> clean_events es"
  "clean_events (WindowElapsed # es) \<longleftrightarrow> clean_events es"
  by (auto simp: clean_events_def)

definition discovery_clean :: "discovery_state \<Rightarrow> bool" where
  "discovery_clean s \<longleftrightarrow> registry_storable (di_devices s)"

lemma discover_update_clean:
  assumes "discover_update mode now u s = Some (s', b)" and "discovery_clean s" and "clean_update u"
  shows "discovery_clean s'"
  using assms append_storable [OF _ _ deviceFromUpdate_storable [OF assms(3)], of "di_devices s"]
  by (auto simp: discover_update_def discovery_clean_def Let_def split: if_splits prod.splits option.splits)

lemma discover_loop_clean:
  "discover_loop mode s es = Some s' \<Longrightarrow> discovery_clean s \<Longrightarrow> clean_events es \<Longrightarrow> discovery_clean s'"
proof (induction mode s es rule: discover_loop.induct)
  case (4 mode s now u es)
  obtain x where "discover_update mode now u s = Some x"
    using "4.prems"(1) by (auto split: option.splits)
  then obtain s1 b where s1: "discover_update mode now u s = Some (s1, b)"
    by (cases x) simp
  with "4.prems" discover_update_clean [OF s1] have "discovery_clean s1"
    by (simp add: clean_events_Cons)
  with s1 "4.IH" [OF s1 refl] "4.prems" show ?case
    by (cases b) (simp_all add: clean_events_Cons)
qed (auto simp: clean_events_Cons split: if_splits)

lemma find_devices_storable:
  assumes "find_devices cfg saved es = Some (d, changed)" and "registry_storable (c_devices cfg)"
    and "registry_storable saved" and "clean_events es"
  shows "registry_storable (di_devices d)"
proof -
  obtain x where x: "prepareDevices (mergeDevices (c_devices cfg) saved) = Some x"
    using assms(1) by (auto simp: find_devices_def split: option.splits)
  obtain devices m where prep: "prepareDevices (mergeDevices (c_devices cfg) saved) = Some (devices, m)"
    using x by (cases x) simp
  have disc: "discoverDevices cfg (NewDeduplicator (10 * minute)) devices es = Some d"
    using assms(1) prep by (auto simp: find_devices_def split: option.splits)
  have "registry_storable devices"
    using prepare_loop_storable [OF _ merge_storable [OF assms(2,3)]] prep by (simp add: prepareDevices_def)
  with disc discover_loop_clean [OF _ _ assms(4)] show ?thesis
    by (auto simp: discoverDevices_def discovery_clean_def Let_def split: if_splits)
qed

lemma run_start_storable:
  assumes "run_start sys reads now configPath es s = Some (Inr st, s')" and "clean_events es"
  shows "registry_storable (sp_devices st)" and "storable_cache (sp_measurements st)"
proof -
  obtain cfg created s0 where load: "LoadOrCreate sys reads configPath s = Some (Inr (cfg, created), s0)"
    and start: "start_devices sys now cfg created es s0 = Some (Inr st, s')"
    using assms(1) by (auto simp: run_start_def split: option.splits sum.splits)
  obtain saved d changed where saved: "fst (registry_Load sys (registry_path cfg) s0) = Inr saved"
    and find: "find_devices cfg saved es = Some (d, changed)" and st: "sp_devices st = sort_key deviceKey (di_devices d)"
    by (rule start_devices_done [OF start])
  have "registry_storable (di_devices d)"
    using find configured_devices_storable [OF load] registry_load_storable [OF saved] assms(2)
    by (rule find_devices_storable)
  then show "registry_storable (sp_devices st)"
    by (simp add: st registry_storable_all)
  have "storable_cache (fst (load_measurements sys cfg s1))" for s1
    using measurements_load_storable [of sys "measurement_path cfg" s1]
    by (auto simp: load_measurements_def measurements_New_def split: sum.splits prod.splits)
  moreover obtain s1 where "sp_measurements st = fst (load_measurements sys cfg s1)"
    using start by (auto simp: start_devices_def split: sum.splits prod.splits option.splits if_splits) (metis fst_conv)+
  ultimately show "storable_cache (sp_measurements st)"
    by simp
qed

subsection \<open>The consumer\<close>

text \<open>An update that \<^verbatim>\<open>Parse\<close> made of the octets of some message.\<close>

definition from_message :: "(f64 \<Rightarrow> int) \<Rightarrow> update \<Rightarrow> bool" where
  "from_message conv u \<longleftrightarrow> (\<exists>payload. u \<in> set (fst (Parse conv (parse_json payload))))"

lemma from_message_valid:
  assumes "from_message conv u"
  shows "valid_update u" and "clean_update u" and "update_fits u"
proof -
  obtain payload where u: "u \<in> set (fst (Parse conv (parse_json payload)))"
    using assms by (auto simp: from_message_def)
  show "valid_update u"
    using Parse_cases [OF u] by (auto simp: ble_update_ok_def miot_update_ok_def)
  show "clean_update u" and "update_fits u"
    using Parse_clean [OF u] Parse_fits [OF u] by simp_all
qed

definition received :: "(f64 \<Rightarrow> int) \<Rightarrow> select_event list \<Rightarrow> bool" where
  "received conv es \<longleftrightarrow> (\<forall>now u. Received now u \<in> set es \<longrightarrow> from_message conv u)"

lemma received_clean: "received conv es \<Longrightarrow> clean_events es"
  using from_message_valid(2) by (auto simp: received_def clean_events_def)

text \<open>What an update needs for the cache, read at a time that fits a time stamp.\<close>

definition storable_values :: "clocks \<Rightarrow> update \<Rightarrow> bool" where
  "storable_values ck u \<longleftrightarrow> clean_update u \<and> update_fits u \<and> in_i64 (unix (ck_merge ck))"

lemma from_message_storable: "from_message conv u \<Longrightarrow> in_i64 (unix (ck_merge ck)) \<Longrightarrow> storable_values ck u"
  by (simp add: storable_values_def from_message_valid)

definition devices_inv :: "runtime \<Rightarrow> bool" where
  "devices_inv rt \<longleftrightarrow> registry_storable (rt_devices rt) \<and> (\<forall>ds \<in> set (rt_registry_saves rt). registry_storable ds)"

text \<open>A property of the cache that is held and of every one that has been saved.\<close>

definition caches_inv :: "(measurement_state \<Rightarrow> bool) \<Rightarrow> runtime \<Rightarrow> bool" where
  "caches_inv P rt \<longleftrightarrow> P (rt_measurements rt) \<and> (\<forall>m \<in> set (rt_cache_saves rt). P m)"

lemma valid_identity: "valid_utf8 mac \<Longrightarrow> valid_utf8 did \<Longrightarrow> valid_utf8 (identity mac did)"
proof -
  have did: "valid_utf8 ''did:''"
    by (simp add: ascii_valid is_ascii_def char_code_def)
  assume "valid_utf8 mac" "valid_utf8 did"
  moreover from valid_trim_space [OF this(2)] have "valid_utf8 (''did:'' @ trim_space did)"
    using valid_utf8_append [OF did] by blast
  ultimately show ?thesis
    using valid_NormalizeMAC by (simp only: identity_did split: if_split) simp
qed

lemma Merge_storable:
  assumes "Merge (ck_merge ck) u m = (b, m')" and "storable_values ck u" and "storable_cache m"
  shows "storable_cache m'"
proof -
  have u: "clean_update u" "update_fits u" "in_i64 (unix (ck_merge ck))" and fits: "cache_fits m"
    using assms(2,3) by (simp_all add: storable_values_def storable_cache_def cache_fits_def)
  have "valid_utf8 (update_key u)"
    using u(1) by (simp add: update_key_def valid_identity clean_update_def)
  then have "\<forall>k \<in> dom m'. valid_utf8 k"
    using assms(1,3) by (auto simp: Merge_eq [OF update_fits_finite [OF u(2)]] storable_cache_def split: if_splits)
  with Merge_fits [OF u(2,3) fits assms(1)] show ?thesis
    by (simp add: storable_cache_def cache_fits_def)
qed

lemma enroll_devices_inv:
  assumes "enroll cfg u rt = Some rt'" and "clean_update u" and "devices_inv rt"
  shows "devices_inv rt'"
  using assms append_storable [OF _ _ deviceFromUpdate_storable [OF assms(2)], of "rt_devices rt"]
  by (auto simp: enroll_def devices_inv_def Let_def split: if_splits option.splits)

text \<open>The ways through \<open>process_update\<close>.\<close>

lemma process_update_shape:
  assumes "process_update cfg path ck u rt = Some rt'"
  obtains (rejected) "rt' = rt\<lparr>rt_dedup := snd (Classify (ck_classify ck) (rt_dedup rt) u)\<rparr>"
  | (applied) i where
      "rt' = apply_at (ck_apply ck) u i (rt\<lparr>rt_dedup := snd (Classify (ck_classify ck) (rt_dedup rt) u)\<rparr>)"
  | (kept) i where
      "rt' = apply_at (ck_apply ck) u i (persistMeasurements path (ck_merge ck) u
         (rt\<lparr>rt_dedup := snd (Classify (ck_classify ck) (rt_dedup rt) u)\<rparr>))"
  | (new) "enroll cfg u (persistMeasurements path (ck_merge ck) u
         (rt\<lparr>rt_dedup := snd (Classify (ck_classify ck) (rt_dedup rt) u)\<rparr>)) = Some rt'"
proof -
  obtain disp dd where c: "Classify (ck_classify ck) (rt_dedup rt) u = (disp, dd)"
    by fastforce
  show ?thesis
  proof (cases "matchAccessory (rt_accessories rt) u")
    case None
    with assms c show ?thesis
      using rejected new by (simp add: process_update_def Let_def split: if_splits)
  next
    case (Some i)
    have "rt' = rt\<lparr>rt_dedup := dd\<rparr> \<or> rt' = apply_at (ck_apply ck) u i (rt\<lparr>rt_dedup := dd\<rparr>)
        \<or> rt' = apply_at (ck_apply ck) u i (persistMeasurements path (ck_merge ck) u (rt\<lparr>rt_dedup := dd\<rparr>))"
      using assms c Some by (simp add: process_update_def Let_def split: if_splits)
    then show ?thesis
      using rejected applied [of i] kept [of i] c by (elim disjE) simp_all
  qed
qed

lemma process_update_devices:
  assumes "process_update cfg path ck u rt = Some rt'" and "clean_update u" and "devices_inv rt"
  shows "devices_inv rt'"
  using assms(1)
proof (cases rule: process_update_shape)
  case new
  show ?thesis
    by (rule enroll_devices_inv [OF new assms(2)]) (use assms(3) in \<open>simp add: devices_inv_def\<close>)
qed (use assms(3) in \<open>simp_all add: devices_inv_def\<close>)

text \<open>What every update keeps, the run keeps.\<close>

lemma process_run_keeps:
  assumes "\<And>ck u rt rt'. (ck, u) \<in> set us \<Longrightarrow> process_update cfg path ck u rt = Some rt' \<Longrightarrow> P rt \<Longrightarrow> P rt'"
    and "process_run cfg path us rt = Some rt'" and "P rt"
  shows "P rt'"
  using assms
proof (induction us arbitrary: rt)
  case (Cons x us)
  obtain ck u where x: "x = (ck, u)"
    by fastforce
  obtain r where r: "process_update cfg path ck u rt = Some r" and run: "process_run cfg path us r = Some rt'"
    using Cons.prems(2) x by (auto split: option.splits)
  have "P r"
    using Cons.prems(1) [OF _ r Cons.prems(3)] x by simp
  with Cons.prems(1) show ?case
    by (intro Cons.IH [OF _ run]) (auto simp: x)
qed simp

lemma consumer_run_keeps:
  assumes "\<And>ck u rt. (ck, u) \<in> set initial \<Longrightarrow> P rt \<Longrightarrow> P (process_initial path ck u rt)"
    and "\<And>ck u rt rt'. (ck, u) \<in> set us \<Longrightarrow> process_update cfg path ck u rt = Some rt' \<Longrightarrow> P rt \<Longrightarrow> P rt'"
    and "consumer_run cfg path initial us rt = Some rt'" and "P rt"
  shows "P rt'"
proof -
  have start: "P (foldl (\<lambda>rt (ck, u). process_initial path ck u rt) rt initial)"
    by (rule foldl_invariant [where P = P, OF assms(4)]) (auto intro: assms(1))
  have run: "process_run cfg path us (foldl (\<lambda>rt (ck, u). process_initial path ck u rt) rt initial) = Some rt'"
    using assms(3) by (simp add: consumer_run_def)
  show ?thesis
    by (rule process_run_keeps [where P = P, OF _ run start]) (rule assms(2))
qed

text \<open>
  What merging keeps of a cache, the consumer keeps of all of its caches: merging is the only thing
  it does to them.
\<close>

locale merge_law =
  fixes P :: "measurement_state \<Rightarrow> bool" and ok :: "clocks \<Rightarrow> update \<Rightarrow> bool"
  assumes Merge_keeps: "Merge (ck_merge ck) u m = (b, m') \<Longrightarrow> ok ck u \<Longrightarrow> P m \<Longrightarrow> P m'"
begin

lemma persist_keeps:
  assumes "ok ck u" and "caches_inv P rt"
  shows "caches_inv P (persistMeasurements path (ck_merge ck) u rt)"
proof -
  obtain b m' where m': "Merge (ck_merge ck) u (rt_measurements rt) = (b, m')"
    by fastforce
  have "P m'"
    using assms(2) by (intro Merge_keeps [OF m' assms(1)]) (simp add: caches_inv_def)
  with m' assms(2) show ?thesis
    by (auto simp: persistMeasurements_def caches_inv_def Let_def)
qed

lemma initial_keeps: "ok ck u \<Longrightarrow> caches_inv P rt \<Longrightarrow> caches_inv P (process_initial path ck u rt)"
  using persist_keeps [of ck u]
  by (auto simp: process_initial_def caches_inv_def [of P "apply_at _ _ _ _"] caches_inv_def [of P rt] split: option.split)

lemma update_keeps:
  assumes "process_update cfg path ck u rt = Some rt'" and "ok ck u" and "caches_inv P rt"
  shows "caches_inv P rt'"
proof -
  let ?rt = "rt\<lparr>rt_dedup := snd (Classify (ck_classify ck) (rt_dedup rt) u)\<rparr>"
  have kept: "caches_inv P (persistMeasurements path (ck_merge ck) u ?rt)"
    using assms(3) by (intro persist_keeps [OF assms(2)]) (simp add: caches_inv_def)
  from assms(1) show ?thesis
  proof (cases rule: process_update_shape)
    case new
    with kept show ?thesis
      by (simp add: caches_inv_def enroll_fields)
  qed (use kept assms(3) in \<open>simp_all add: caches_inv_def\<close>)
qed

lemma run_keeps:
  assumes "consumer_run cfg path initial us rt = Some rt'" and "caches_inv P rt"
    and "\<And>ck u. (ck, u) \<in> set initial \<union> set us \<Longrightarrow> ok ck u"
  shows "caches_inv P rt'"
  using assms(3)
  by (intro consumer_run_keeps [where P = "caches_inv P", OF _ _ assms(1,2)]) (auto intro: initial_keeps update_keeps)

end

interpretation stored: merge_law storable_cache storable_values
  by unfold_locales (rule Merge_storable)

interpretation in_range: merge_law valid_cache "\<lambda>ck. valid_update"
  by unfold_locales (rule Merge_valid)

lemma start_runtime_stored:
  assumes "run_start sys reads now configPath es s = Some (Inr st, s')" and "received conv es"
  shows "devices_inv (start_runtime st)" and "caches_inv storable_cache (start_runtime st)"
  using run_start_storable [OF assms(1) received_clean [OF assms(2)]]
  by (simp_all add: start_runtime_def devices_inv_def caches_inv_def)

text \<open>The whole life of the process, from the files it found to the last save.\<close>

lemma consumer_run_devices:
  assumes "run_start sys reads now configPath es s = Some (Inr st, s')" and "received conv es"
    and "consumer_run cfg path initial us (start_runtime st) = Some rt'"
    and "\<forall>(ck, u) \<in> set us. from_message conv u"
  shows "devices_inv rt'"
proof (rule consumer_run_keeps [where P = devices_inv, OF _ _ assms(3) start_runtime_stored(1) [OF assms(1,2)]])
  fix ck u rt rt'
  assume "(ck, u) \<in> set us" and r: "process_update cfg path ck u rt = Some rt'" "devices_inv rt"
  with assms(4) have "from_message conv u"
    by auto
  with r show "devices_inv rt'"
    by (intro process_update_devices [OF r(1)] from_message_valid(2))
qed (simp add: process_initial_def devices_inv_def split: option.split)

lemma consumer_run_cache:
  assumes "run_start sys reads now configPath es s = Some (Inr st, s')" and "received conv es"
    and "consumer_run cfg path initial us (start_runtime st) = Some rt'"
    and "\<forall>(ck, u) \<in> set initial \<union> set us. from_message conv u \<and> in_i64 (unix (ck_merge ck))"
  shows "caches_inv storable_cache rt'"
  by (rule stored.run_keeps [OF assms(3) start_runtime_stored(2) [OF assms(1,2)]])
     (use assms(4) in \<open>auto intro: from_message_storable\<close>)

end
