(* ===== verification/Bridge_Properties.thy ===== *)
theory Bridge_Properties
  imports Report_Documents Accessory Config_Correct Measurements
begin

section \<open>Properties of accessories, configuration and the measurement cache\<close>

text \<open>
  The brushing session and its watchdog, the accessories made of configured devices, the
  configuration that is accepted, and what is kept of measurements over a restart.
\<close>

subsection \<open>The brushing session\<close>

text \<open>
  C6. Applying a valid update to a toothbrush follows the session specification, as long as the
  reference time, the gateway's or the clock's, lies after the start of 1970 and not beyond 2262 (there the
  live window wraps): a live start begins
  a session or continues one at most ten minutes old, a live end or a forced stop ends it, and
  anything else leaves it as it is.
\<close>

theorem toothbrush_follows_session:
  assumes "motion_inv t" and "valid_update u" and "sane_time (reference_time now u)"
  shows "session_of (toothbrush_Apply now u t) =
    (case u_toothbrush u of
       None \<Rightarrow> session_of t
     | Some event \<Rightarrow> spec_event (reference_time now u) event (session_of t))"
proof (cases "u_toothbrush u")
  case None
  then show ?thesis
    by (simp add: toothbrush_Apply_def session_of_def Let_def)
next
  case (Some event)
  let ?t = "t\<lparr>t_battery := apply_battery_of u (t_battery t)\<rparr>"
  have "valid_event event"
    using assms(2) Some by (simp add: valid_update_def)
  moreover have "start_ok ?t" and "session_of ?t = session_of t"
    using assms(1) by (simp_all add: motion_inv_def start_ok_def session_of_def)
  ultimately show ?thesis
    using startEvent_session [OF assms(3), of event ?t now] endEvent_session [OF assms(3), of event ?t] Some
    by (simp add: toothbrush_Apply_def Let_def)
qed

definition brush_device :: device where
  "brush_device = \<lparr>d_name = ''Brush'', d_mac = ''c0:b5:86:1f:e4:5f'', d_did = ''blt.1.toothbrush'',
     d_product_id = 6032, d_model = ''k0918.toothbrush.t700i'', d_aid = 7\<rparr>"

theorem toothbrush_follows_session_witness:
  "session_of (toothbrush_Apply 0 start_update (NewToothbrush brush_device)) = Brushing 1786207643"
proof -
  have "valid_update start_update" "sane_time (reference_time 0 start_update)"
    by (simp_all add: start_update_def valid_update_def valid_event_def sane_time_def reference_time_def)
  from toothbrush_follows_session [OF motion_inv_new this, of brush_device] show ?thesis
    by (simp add: start_update_def reference_time_def session_of_def NewToothbrush_def)
qed

text \<open>
  C39. The live window is exact for every reference time up to the year 2262, and only up to
  there: \<^verbatim>\<open>time.Duration(seconds) * time.Second\<close> wraps, so a gateway time \<open>2 ^ 55\<close> seconds
  ahead counts as live.
\<close>

theorem live_window_wraps:
  "(sane_time reference \<and> valid_event event \<longrightarrow>
      (raw_live reference event \<longleftrightarrow> 0 < tb_timestamp event \<and> \<bar>reference - tb_timestamp event\<bar> \<le> 60))
    \<and> in_i64 (1786207643 + 2 ^ 55)
    \<and> raw_live (1786207643 + 2 ^ 55) \<lparr>tb_type = 0, tb_timestamp = 1786207643, tb_score = None\<rparr>"
proof -
  have "i64 (2 ^ 55) = 2 ^ 55" and "seconds (2 ^ 55) = 0"
    by (simp_all add: i64_def seconds_def)
  then have "raw_live (1786207643 + 2 ^ 55) \<lparr>tb_type = 0, tb_timestamp = 1786207643, tb_score = None\<rparr>"
    by (simp add: raw_live_def durationAbs_def toothbrush_durations)
  moreover have "in_i64 (1786207643 + 2 ^ 55)"
    by (simp add: in_i64_def)
  ultimately show ?thesis
    using raw_live_iff [of reference event] by blast
qed

theorem live_window_wraps_witness:
  "raw_live 1786207645 \<lparr>tb_type = 0, tb_timestamp = 1786207643, tb_score = None\<rparr>"
proof -
  have "sane_time 1786207645 \<and> valid_event \<lparr>tb_type = 0, tb_timestamp = 1786207643, tb_score = None\<rparr>"
    by (simp add: sane_time_def valid_event_def)
  with live_window_wraps [of 1786207645 "\<lparr>tb_type = 0, tb_timestamp = 1786207643, tb_score = None\<rparr>"]
  show ?thesis
    by simp
qed

text \<open>
  However updates, timer callbacks, the passing of time and \<^verbatim>\<open>Close\<close> interleave, HomeKit
  shows motion exactly while a session is active; an inactive toothbrush has no session start
  and no activity left over, the low-battery flag follows the level, and no recorded duration is
  longer than ten minutes.
\<close>

theorem motion_shows_session:
  assumes "brush_reachable d t0 s"
  shows "(t_motion (bsys_brush s) = Some True \<longleftrightarrow> t_active (bsys_brush s))
    \<and> (t_active (bsys_brush s) \<or>
         (t_session_start (bsys_brush s) = 0 \<and> t_last_activity (bsys_brush s) = None))
    \<and> battery_consistent (t_battery (bsys_brush s))
    \<and> t_last_duration (bsys_brush s) \<le> toothbrushMaxSession"
  using reachable_motion [OF assms] unfolding motion_inv_def by blast

text \<open>
  The watchdog cannot be lost: in every reachable state of an open toothbrush, a session
  whose last activity is thirty seconds old can be ended by the timer's own steps, with no
  further update and no time passing.
\<close>

theorem watchdog_ends_session:
  assumes "brush_reachable d t0 s" and "\<not> bsys_closed s" and "t_active (bsys_brush s)"
    and "t_last_activity (bsys_brush s) = Some la" and "la + toothbrushWatchdog \<le> bsys_clock s"
  shows "\<exists>s'. timer_step\<^sup>*\<^sup>* s s' \<and> \<not> t_active (bsys_brush s')
    \<and> t_motion (bsys_brush s') = Some False \<and> bsys_clock s' = bsys_clock s"
  using reachable_watch [OF assms(1)] assms(2-5) by (intro guarded_can_end) (simp_all add: watch_inv_def)

definition watched_sys :: brush_sys where
  "watched_sys = (init_sys brush_device 0)
     \<lparr>bsys_brush := toothbrush_Apply 0 start_update (NewToothbrush brush_device),
      bsys_clock := toothbrushWatchdog\<rparr>"

lemma watched_sys_reachable: "brush_reachable brush_device 0 watched_sys"
proof -
  have "valid_update start_update"
    by (simp add: start_update_def valid_update_def valid_event_def)
  then have "brush_reachable brush_device 0 ((init_sys brush_device 0)
      \<lparr>bsys_brush := toothbrush_Apply 0 start_update (NewToothbrush brush_device)\<rparr>)"
    using brush_reachable_step [OF brush_reachable_init
        brush_step.apply_update [of start_update "init_sys brush_device 0"]]
    by (simp add: init_sys_def)
  from brush_reachable_step [OF this brush_step.elapse [of toothbrushWatchdog]] show ?thesis
    by (simp add: watched_sys_def init_sys_def toothbrush_durations)
qed

lemma watched_sys_active:
  "t_active (bsys_brush watched_sys)" "t_last_activity (bsys_brush watched_sys) = Some 0"
  by (simp_all add: watched_sys_def init_sys_def toothbrush_Apply_def start_update_def startEvent_def
      reference_time_def raw_live_def wrap_simps toothbrush_durations NewToothbrush_def armWatchdog_def
      apply_battery_of_def Let_def)

text \<open>
  C20. The watchdog never ends a session early: only the callback of the current generation ends
  one, and only when at least thirty seconds have passed since the last activity; a callback of
  an older generation changes nothing.
\<close>

theorem watchdog_not_early:
  assumes "t_active t"
  shows "(g \<noteq> t_generation t \<longrightarrow> expireWatchdog now g t = t)
    \<and> (t_active (expireWatchdog now g t) \<or>
       (\<exists>la. t_last_activity t = Some la \<and> toothbrushWatchdog \<le> now - la \<and> g = t_generation t))"
  using expireWatchdog_stale expireWatchdog_not_early [OF assms] by blast

theorem watchdog_not_early_witness:
  "t_active (expireWatchdog second 1 (bsys_brush watched_sys))"
  using watchdog_not_early [OF watched_sys_active(1), of 1 second] watched_sys_active(2)
  by (simp add: toothbrush_durations)

subsection \<open>Accessories\<close>

text \<open>
  A device becomes an accessory exactly when its product is known by id or by model; the
  accessory starts consistent, belongs to the device, and never has the bridge's accessory id.
\<close>

theorem accessory_of_device:
  "(isl (NewDeviceAccessory d) \<longleftrightarrow> LookupProduct (d_product_id d) = None \<and> LookupProductByModel (d_model d) = None)
    \<and> (\<forall>a. NewDeviceAccessory d = Inr a \<longrightarrow> accessory_ok a \<and> DeviceConfig a = d
         \<and> 2 \<le> accessory_aid a \<and> accessory_aid a = accessoryID d)"
proof -
  have "isl (NewDeviceAccessory d) \<longleftrightarrow> productForDevice d = None"
    by (simp add: NewDeviceAccessory_eq)
  moreover have "productForDevice d = None \<longleftrightarrow>
      LookupProduct (d_product_id d) = None \<and> LookupProductByModel (d_model d) = None"
    by (simp add: productForDevice_def split: option.split)
  ultimately show ?thesis
    using NewDeviceAccessory_ok [of d] accessoryID_not_bridge [of d] by auto
qed

text \<open>
  Over any run of valid updates an accessory of either kind stays consistent and keeps its
  device, and its battery level is that of the last update that has one.
\<close>

theorem accessory_run:
  assumes "accessory_ok a" and "\<forall>(now, u) \<in> set us. valid_update u"
  shows "let b = foldl (\<lambda>a (now, u). accessory_Apply now u a) a us
    in accessory_ok b \<and> DeviceConfig b = DeviceConfig a
       \<and> bs_level (accessory_battery b)
           = last_value (\<lambda>(now, u). u_battery u) (bs_level (accessory_battery a)) us"
  using acc.ok_run [OF assms] acc.conf_run acc.level_run by (simp add: Let_def)

subsection \<open>The measurement cache\<close>

text \<open>
  C31. Merging an update: the cache changes exactly when a value is new or a reading moves from
  the device id to the address; readings of other devices stay as they are; and merging the same
  update again, at any later time, changes nothing, so that repeated reports cause no write.
\<close>

theorem merge_writes_once:
  assumes "valid_update u" and "update_key u \<noteq> []" and "Merge now u s = (changed, s')"
  shows "(changed \<longleftrightarrow> moves u s \<or> overlay u (prior_or_zero u s) \<noteq> prior_or_zero u s)
    \<and> (\<not> changed \<longrightarrow> s' = s)
    \<and> (changed \<longrightarrow> s' (update_key u)
         = Some ((overlay u (prior_or_zero u s))\<lparr>r_updated_at := update_time now u\<rparr>))
    \<and> (\<forall>key. key \<noteq> update_key u \<and> key \<noteq> did_key (u_did u) \<longrightarrow> s' key = s key)
    \<and> Merge later u s' = (False, s')"
proof -
  have f: "finite_values u"
    using assms(1) by (rule valid_finite_values)
  show ?thesis
    using Merge_again [OF f assms(3)] Merge_frame [OF f assms(3)] assms(2,3)
    by (auto simp: Merge_eq [OF f] split: if_splits)
qed

lemma start_update_valid: "valid_update start_update"
  by (simp add: start_update_def valid_update_def valid_event_def)

definition battery_update :: update where
  "battery_update = start_update\<lparr>u_battery := Some 64, u_toothbrush := None\<rparr>"

lemma battery_update_valid: "valid_update battery_update"
  by (simp add: battery_update_def start_update_def valid_update_def valid_int_def)

lemma battery_update_key: "update_key battery_update \<noteq> []"
proof -
  have "config_NormalizeMAC ''c0:b5:86:1f:e4:5f'' \<noteq> []"
    using NormalizeMAC_valid [of "''c0:b5:86:1f:e4:5f''"] valid_mac_nonempty
    by (simp add: config_NormalizeMAC_eq is_hex_def is_digit_def char_code_def)
  then show ?thesis
    by (simp add: update_key_def identity_did battery_update_def start_update_def)
qed

lemma battery_update_merged: "fst (Merge 0 battery_update Map.empty)"
  using battery_update_key
  by (simp add: Merge_eq [OF valid_finite_values [OF battery_update_valid]] prior_or_zero_def
      prior_reading_def overlay_def zero_reading_def override_def)
     (simp add: battery_update_def)

theorem merge_writes_once_witness:
  "\<not> fst (Merge 9 battery_update (snd (Merge 0 battery_update Map.empty)))"
  using merge_writes_once [OF battery_update_valid battery_update_key surjective_pairing,
      where now = 0 and later = 9 and s = Map.empty]
  by simp

text \<open>
  What is merged is what is restored: after a change, the device with the update's identity
  gets back the new values, and the prior ones where the update had none.
\<close>

theorem merge_then_restore:
  assumes "valid_update u" and "update_key u \<noteq> []" and "Merge now u s = (True, s')"
    and "d_mac d = u_mac u" and "d_did d = u_did u"
    and "u_temperature u \<noteq> None \<or> u_humidity u \<noteq> None \<or> u_battery u \<noteq> None"
  shows "\<exists>v. Restore d s' = Some (v, update_time now u)
    \<and> u_temperature v = override (u_temperature u) (r_temperature (prior_or_zero u s))
    \<and> u_humidity v = override (u_humidity u) (r_humidity (prior_or_zero u s))
    \<and> u_battery v = override (u_battery u) (r_battery (prior_or_zero u s))"
proof -
  have f: "finite_values u"
    using assms(1) by (rule valid_finite_values)
  let ?r = "(overlay u (prior_or_zero u s))\<lparr>r_updated_at := update_time now u\<rparr>"
  have "s' (update_key u) = Some ?r"
    using assms(2,3) by (auto simp: Merge_eq [OF f] split: if_splits)
  then have "lookup_reading d s' = Some ?r"
    by (simp add: lookup_reading_prior [OF assms(4,5)] prior_reading_def)
  with assms(6) show ?thesis
    by (auto simp: Restore_def overlay_def override_def zero_update_def)
qed

text \<open>
  A restored update is safe to apply: its values are in range, it is for the device asked
  for, it never carries a toothbrush event, so no session can start from the cache, and it has
  no frame count.
\<close>

theorem restore_is_safe:
  assumes "valid_cache s" and "Restore d s = Some (u, t)"
  shows "valid_update u \<and> u_toothbrush u = None \<and> \<not> u_has_frame_count u
    \<and> u_mac u = NormalizeMAC (d_mac d) \<and> u_did u = d_did d
    \<and> t_motion (toothbrush_Apply now u b) = t_motion b"
proof -
  have "u_toothbrush u = None" "\<not> u_has_frame_count u"
    using Restore_no_motion [OF assms(2)] by simp_all
  moreover have "u_mac u = NormalizeMAC (d_mac d)" "u_did u = d_did d"
    using assms(2) by (auto simp: Restore_def zero_update_def config_NormalizeMAC_eq
        split: option.splits if_splits)
  ultimately show ?thesis
    using Restore_valid [OF assms] by (simp add: toothbrush_Apply_def Let_def)
qed

text \<open>
  The keys of the cache stay normalised, so that loading the saved map gives back the very
  same cache, in whatever order the file lists the devices.
\<close>

theorem cache_reloads:
  assumes "valid_update u" and "plain_mac (u_mac u)" and "keys_normal s" and "Merge now u s = (changed, s')"
    and "distinct (map fst entries)" and "map_of entries = s'"
  shows "keys_normal s' \<and> load_devices entries = s'"
proof -
  have "keys_normal s'"
    using Merge_keys_normal [OF valid_finite_values [OF assms(1)] assms(2-4)] .
  with load_devices_normal [OF assms(5)] assms(6) show ?thesis
    by simp
qed

subsection \<open>Configuration\<close>

text \<open>
  C22. A configuration that \<open>NormalizeAndValidate\<close> accepts is valid: name, port, discovery mode
  and window, broker and PIN are usable, every device has a name and a well-formed identity, and
  neither identities nor accessory ids repeat.  Normalising it again changes nothing.
  Conversely a valid configuration with a state directory is accepted as it is.
\<close>

theorem accepted_config_valid:
  "(NormalizeAndValidate path c = Inr c' \<longrightarrow> valid_config c' \<and> NormalizeAndValidate path c' = Inr c')
    \<and> (valid_config c \<and> trim_space (c_state_dir c) \<noteq> [] \<longrightarrow> NormalizeAndValidate path c = Inr c)"
proof -
  have "valid_config c'" and "trim_space (c_state_dir c') = [] \<longrightarrow> c_state_dir c' = default_state_dir path"
    if "NormalizeAndValidate path c = Inr c'"
    using that NormalizeAndValidate_sound [OF that] by (auto simp: NormalizeAndValidate_Inr)
  then show ?thesis
    using NormalizeAndValidate_complete [of c' path] NormalizeAndValidate_complete [of c path] by blast
qed

definition good_pin :: go_string where
  "good_pin = ''03145154''"

lemma good_pin_ok: "pin_ok good_pin"
  by (simp add: pin_ok_def good_pin_def invalidPins_def is_digit_def char_code_def)

theorem accepted_config_valid_witness:
  "valid_config (Defaults good_pin ''config.json'')
    \<and> NormalizeAndValidate ''/other'' (Defaults good_pin ''config.json'') = Inr (Defaults good_pin ''config.json'')"
proof -
  have valid: "valid_config (Defaults good_pin ''config.json'')"
    using accepted_config_valid [of "''config.json''" "Defaults good_pin ''config.json''"
        "Defaults good_pin ''config.json''"] Defaults_valid [OF good_pin_ok, of "''config.json''"] by simp
  have "default_state_dir ''config.json'' = ''state''"
    by code_simp
  then have "c_state_dir (Defaults good_pin ''config.json'') = ''state''"
    by (simp add: Defaults_def)
  moreover have "trim_space ''state'' = ''state''"
    by (rule trim_space_closed) (simp_all add: space_heads_def space_lasts_def char_code_def)
  ultimately have "trim_space (c_state_dir (Defaults good_pin ''config.json'')) \<noteq> []"
    by (metis list.distinct(1))
  with valid accepted_config_valid [of "''/other''" "Defaults good_pin ''config.json''"
      "Defaults good_pin ''config.json''"]
  show ?thesis
    by iprover
qed

text \<open>
  C36. PIN generation ends as soon as the random source has given numbers for thirteen different
  PINs, and whatever it yields is a PIN that HomeKit takes, that makes a valid default
  configuration, and that survives being formatted for the log and typed back.
\<close>

theorem generated_pin_usable:
  "(None \<notin> set reads \<and> 12 < card ((pin_of_bytes \<circ> the) ` set reads) \<longrightarrow>
      (\<exists>pin. generatePin reads = Some (PinGenerated pin)))
    \<and> (\<forall>pin. generatePin reads = Some (PinGenerated pin) \<longrightarrow>
         pin_ok pin \<and> NormalizeAndValidate path (Defaults pin path) = Inr (Defaults pin path)
         \<and> strip_pin (FormatPin pin) = pin)"
  using generatePin_enough [of reads] generatePin_valid [of reads] Defaults_valid [of _ path] FormatPin_strip
  by (auto simp: pin_ok_def)

theorem generated_pin_usable_witness:
  "pin_ok ''00000513'' \<and> strip_pin (FormatPin ''00000513'') = ''00000513''"
proof -
  have "pin_of_bytes [0, 0, 0, 0] = ''00000000''" "pin_of_bytes [1, 2, 0, 0] = ''00000513''"
    by code_simp+
  then have "generatePin [Some [0, 0, 0, 0], Some [1, 2, 0, 0]] = Some (PinGenerated ''00000513'')"
    by (simp add: validatePin_def invalidPins_def is_digit_def char_code_def)
  with generated_pin_usable [of "[Some [0, 0, 0, 0], Some [1, 2, 0, 0]]" "[]"] show ?thesis
    by blast
qed

end
