(* ===== verification/Storage_Properties.thy ===== *)
theory Storage_Properties
  imports Stored_Values Bridge_Properties
begin

section \<open>Properties of the files\<close>

subsection \<open>Examples\<close>

text \<open>A system on which every call succeeds, and a store without files.\<close>

definition steady :: system where
  "steady = \<lparr>sys_ok = (\<lambda>_. True), sys_written = (\<lambda>_. 0), sys_random = (\<lambda>k. k), sys_umask = 0, sys_rank = (\<lambda>_. 0)\<rparr>"

definition no_files :: store where
  "no_files = \<lparr>st_files = Map.empty, st_calls = 0, st_history = []\<rparr>"

definition example_config :: config where
  "example_config = Defaults ''00000513'' ''config.json''"

definition stored_device :: device where
  "stored_device = \<lparr>d_name = ''Sensor'', d_mac = ''aa:bb:cc:dd:ee:ff'', d_did = ''blt.3.test'',
     d_product_id = 5860, d_model = ''miaomiaoce.sensor_ht.o2'', d_aid = 5\<rparr>"

definition stored_reading :: reading where
  "stored_reading = \<lparr>r_temperature = Some (Fin 21), r_humidity = None, r_battery = Some 88, r_updated_at = 1636208932\<rparr>"

definition stored_cache :: measurement_state where
  "stored_cache = [''did:blt.3.test'' \<mapsto> stored_reading]"

lemma steady_ok [simp]: "sys_ok steady k" "call_ok steady s"
  by (simp_all add: steady_def call_ok_def)

lemma plain_targets [simp]: "target ''devices.json''" "target ''measurements.json''" "target ''config.json''"
  by (simp_all add: target_def is_temp_def path_Clean_plain plain_name_def slash_def suffix_Cons)

lemma stored_device_ok: "registry_storable [stored_device]"
proof -
  have "NormalizeMAC ''aa:bb:cc:dd:ee:ff'' = ''aa:bb:cc:dd:ee:ff''"
    by code_simp
  then have "config_NormalizeMAC (d_mac stored_device) = d_mac stored_device"
    by (simp add: config_NormalizeMAC_eq stored_device_def)
  moreover have "utf8_clean stored_device"
    by (simp add: utf8_clean_def stored_device_def ascii_valid is_ascii_def char_code_def)
  ultimately show ?thesis
    by (simp add: registry_storable_def device_fits_def in_i32_def in_u64_def stored_device_def)
qed

lemma stored_device_ready: "ready {} [stored_device]"
  by (simp add: ready_def settled_def infer_product_def infer_product_id_def infer_model_def
      stored_device_def)

lemma stored_cache_ok: "cache_storable stored_cache"
proof -
  have "is_double 21"
    using is_double_int [of 21] by simp
  then have "reading_fits stored_reading"
    by (simp add: reading_fits_def stored_reading_def double_option_def double_value_def in_i32_def in_i64_def)
  moreover have "valid_utf8 ''did:blt.3.test''"
    by (simp add: ascii_valid is_ascii_def char_code_def)
  moreover have "normalizeKey ''did:blt.3.test'' = ''did:blt.3.test''"
  proof -
    have "trim_space ''blt.3.test'' = ''blt.3.test''"
      by (rule trim_space_closed) (simp_all add: space_heads_def space_lasts_def char_code_def)
    with normalizeKey_did [of "''blt.3.test''"] show ?thesis
      by simp
  qed
  ultimately show ?thesis
    by (simp add: cache_storable_def storable_cache_def stored_cache_def keys_normal_def)
qed

text \<open>A store without leftover temporary files has free names.\<close>

definition no_temps :: "store \<Rightarrow> bool" where
  "no_temps s \<longleftrightarrow> (\<forall>q. is_temp q \<longrightarrow> st_files s q = None)"

lemma temp_path_temp: "temp_prefix pre \<Longrightarrow> is_temp (path_Clean (temp_path sys dir pre k))"
  using temp_path_is_temp [of pre dir sys "\<lparr>st_files = Map.empty, st_calls = k, st_history = []\<rparr>"]
  by (simp add: temp_path_def temp_name_def)

lemma no_temps_free: "no_temps s \<Longrightarrow> temp_prefix pre \<Longrightarrow> st_files s (path_Clean (temp_path sys dir pre k)) = None"
  by (simp add: no_temps_def temp_path_temp)

lemma no_temps_names: "no_temps s \<Longrightarrow> names_free sys path s"
  by (simp add: names_free_def no_temps_free)

lemma no_temps_no_files [simp]: "no_temps no_files"
  by (simp add: no_temps_def no_files_def)

lemma no_temps_update: "no_temps s \<Longrightarrow> target path \<Longrightarrow> st_files s' = (st_files s)(path_Clean path \<mapsto> n) \<Longrightarrow> no_temps s'"
  by (auto simp: no_temps_def target_def)

text \<open>The messages of the examples, as text.\<close>

lemma report_text:
  assumes "utf8_json (ble_doc r) = ble_doc r"
  shows "\<exists>payload. parse_json payload = Some (ble_doc r)"
proof -
  have "json_ok max_nesting (ble_doc r)"
    by (simp add: ble_doc_def report_doc_def dev_doc_def event_doc_def number_literal_itoa max_nesting_def list_all_iff)
  from parse_json_print [OF this] assms show ?thesis
    by auto
qed

lemma sensor_text: "\<exists>payload. parse_json payload = Some (ble_doc sensor_report)"
  by (rule report_text)
     (simp add: ble_doc_def report_doc_def dev_doc_def event_doc_def sensor_report_def ascii_to_valid is_ascii_def char_code_def)

lemma start_text: "\<exists>payload. parse_json payload = Some (ble_doc start_report)"
  by (rule report_text)
     (simp add: ble_doc_def report_doc_def dev_doc_def event_doc_def start_report_def ascii_to_valid is_ascii_def char_code_def)

lemma sensor_from_message: "from_message conv sensor_update"
proof -
  obtain payload where "parse_json payload = Some (ble_doc sensor_report)"
    using sensor_text by blast
  then have "sensor_update \<in> set (fst (Parse conv (parse_json payload)))"
    by (simp add: sensor_report_parsed)
  then show ?thesis
    by (auto simp: from_message_def)
qed

lemma start_from_message: "from_message conv start_update"
proof -
  obtain payload where "parse_json payload = Some (ble_doc start_report)"
    using start_text by blast
  then have "start_update \<in> set (fst (Parse conv (parse_json payload)))"
    by (simp add: start_report_parsed)
  then show ?thesis
    by (auto simp: from_message_def)
qed

lemma sensor_mac: "config_NormalizeMAC (u_mac sensor_update) = ''aa:bb:cc:dd:ee:ff''"
proof -
  have "NormalizeMAC ''aa:bb:cc:dd:ee:ff'' = ''aa:bb:cc:dd:ee:ff''"
    by code_simp
  then show ?thesis
    by (simp add: config_NormalizeMAC_eq sensor_update_def)
qed

text \<open>Merging what a message brought keeps a cache that can be stored one.\<close>

lemma merged_storable:
  assumes "from_message conv u" and "plain_mac (u_mac u)" and "in_i64 (unix now)" and "Merge now u m = (c, m')"
    and "cache_storable m"
  shows "cache_storable m'"
proof -
  let ?ck = "\<lparr>ck_classify = now, ck_merge = now, ck_apply = now\<rparr>"
  have "storable_values ?ck u"
    using assms(3) by (intro from_message_storable [OF assms(1)]) simp
  then have "storable_cache m'"
    using Merge_storable [of ?ck u m c m'] assms(4,5) by (simp add: cache_storable_def)
  moreover have "keys_normal m"
    using assms(5) by (simp add: cache_storable_def)
  from Merge_keys_normal [OF valid_finite_values [OF from_message_valid(1) [OF assms(1)]] assms(2) this assms(4)]
  have "keys_normal m'" .
  ultimately show ?thesis
    by (simp add: cache_storable_def)
qed

subsection \<open>Saving\<close>

text \<open>What a save may do: all of it, with the file private to its owner, or nothing.\<close>

definition all_or_nothing ::
  "system \<Rightarrow> go_string \<Rightarrow> go_string option \<Rightarrow> store \<Rightarrow> (save_error + unit) \<times> store \<Rightarrow> bool" where
  "all_or_nothing sys path text s out \<longleftrightarrow> (case out of (r, s') \<Rightarrow>
     stays_in (old_or_new s path text) (path_Clean path) s s'
     \<and> (r = Inr () \<longrightarrow> (\<exists>b. text = Some b \<and> st_files s' = (st_files s)(path_Clean path \<mapsto> new_node b)))
     \<and> (r \<noteq> Inr () \<longrightarrow> st_files s' (path_Clean path) = st_files s (path_Clean path)
          \<and> (sys_ok sys (st_calls s' - 1) \<longrightarrow> st_files s' = st_files s)))"

lemma replace_all_or_nothing:
  assumes "temp_prefix pre" and "target path"
  shows "all_or_nothing sys path text s (replace_file sys pre path text s)"
proof -
  obtain r s' where op: "replace_file sys pre path text s = (r, s')"
    by fastforce
  from replace_file_target [OF op assms] replace_file_clean [OF op assms] show ?thesis
    unfolding all_or_nothing_def op prod.case by blast
qed

text \<open>
  C11. The three files are replaced as a whole.  Whatever call fails and wherever the process ends,
  the path holds the old file or the complete new one, readable by its owner only; a save that
  reports success has replaced that file and nothing else, and one that reports an error has
  left it as it was, with no temporary file behind if its removal succeeds.
\<close>

theorem saves_all_or_nothing:
  assumes "target path"
  shows "all_or_nothing sys path (registry_text ds) s (registry_Save sys path ds s)
    \<and> all_or_nothing sys path (cache_text m) s (State_Save sys path m s)
    \<and> all_or_nothing sys path (config_text c) s (writeJSON sys path c s)"
  using replace_all_or_nothing [OF _ assms]
  by (simp add: registry_Save_def State_Save_def writeJSON_def registry_text_def cache_text_def config_text_def)

theorem saves_all_or_nothing_witness:
  "all_or_nothing steady ''devices.json'' (registry_text [stored_device]) no_files
     (registry_Save steady ''devices.json'' [stored_device] no_files)"
  using saves_all_or_nothing [of "''devices.json''" steady "[stored_device]" no_files] by simp

text \<open>
  C17. A save succeeds when no call fails and one of the ten thousand names tried is free; a cache made
  of parsed values can always be encoded.
\<close>

theorem saves_succeed:
  assumes "\<forall>k. sys_ok sys k" and "target path" and "cache_fits m"
    and "\<forall>pre \<in> {''.devices-'', ''.measurements-'', ''.config-''}. \<exists>i < temp_tries.
      st_files s (path_Clean (temp_path sys (path_Dir path) pre (Suc (st_calls s + i)))) = None"
  shows "(\<exists>s'. registry_Save sys path ds s = (Inr (), s')) \<and> (\<exists>s'. State_Save sys path m s = (Inr (), s'))
    \<and> (\<exists>s'. writeJSON sys path c s = (Inr (), s'))"
proof -
  have ok: "\<And>k. sys_ok sys k"
    using assms(1) by simp
  have saved: "\<exists>s'. replace_file sys pre path (Some b) s = (Inr (), s')"
    if "pre \<in> {''.devices-'', ''.measurements-'', ''.config-''}" for pre b
  proof -
    from assms(4) that obtain i where "i < temp_tries"
      "st_files s (path_Clean (temp_path sys (path_Dir path) pre (Suc (st_calls s + i)))) = None"
      by blast
    moreover have "temp_prefix pre"
      using that by auto
    ultimately show ?thesis
      by (intro replace_file_succeeds [OF ok _ assms(2)])
  qed
  obtain j where "cache_doc m = Some j"
    using cache_fits_doc [OF assms(3)] by blast
  with saved show ?thesis
    by (simp add: registry_Save_def State_Save_def writeJSON_def)
qed

lemma stored_cache_fits: "cache_fits stored_cache"
  using stored_cache_ok by (simp add: cache_storable_def storable_cache_def cache_fits_def)

lemma no_temps_free_names:
  "no_temps s \<Longrightarrow> \<forall>pre \<in> {''.devices-'', ''.measurements-'', ''.config-''}. \<exists>i < temp_tries.
     st_files s (path_Clean (temp_path sys (path_Dir path) pre (Suc (st_calls s + i)))) = None"
  by (intro ballI exI [of _ 0]) (auto simp: no_temps_free temp_tries_def)

theorem saves_succeed_witness:
  "\<exists>s'. State_Save steady ''measurements.json'' stored_cache no_files = (Inr (), s')"
  using saves_succeed [of steady "''measurements.json''" stored_cache no_files] stored_cache_fits
    no_temps_free_names [OF no_temps_no_files] by simp

text \<open>
  C12. What was saved is loaded: as long as the file is not replaced, loading the registry gives back
  every device with all its fields, and loading the cache every reading, in whatever order the
  map is enumerated.
\<close>

theorem saved_is_loaded:
  assumes "target path" and "call_ok sys' t" and "call_ok sys' t'"
    and "registry_storable ds" and "registry_Save sys path ds s = (Inr (), s1)"
    and "st_files t (path_Clean path) = st_files s1 (path_Clean path)"
    and "target path'" and "cache_storable m" and "State_Save sys path' m s = (Inr (), s2)"
    and "st_files t' (path_Clean path') = st_files s2 (path_Clean path')"
  shows "fst (registry_Load sys' path t) = Inr ds \<and> fst (measurements_Load sys' path' t') = Inr m"
  using reg.save_then_load [OF assms(5,1,4,6,2)] cache.save_then_load [OF assms(9,7,8,10,3)] by blast

theorem saved_is_loaded_witness:
  "\<exists>s' s''. registry_Save steady ''devices.json'' [stored_device] no_files = (Inr (), s')
     \<and> fst (registry_Load steady ''devices.json'' s') = Inr [stored_device]
     \<and> State_Save steady ''measurements.json'' stored_cache no_files = (Inr (), s'')
     \<and> fst (measurements_Load steady ''measurements.json'' s'') = Inr stored_cache"
proof -
  have free: "st_files no_files q = None" for q
    by (simp add: no_files_def)
  obtain j where "cache_doc stored_cache = Some j"
    using cache_fits_doc [OF stored_cache_fits] by blast
  moreover have "\<exists>s'. replace_file steady pre path (Some b) no_files = (Inr (), s')"
    if "temp_prefix pre" "target path" for pre path b
    by (rule replace_file_succeeds [OF _ that, of steady 0]) (simp_all add: temp_tries_def free)
  ultimately obtain s' s'' where "registry_Save steady ''devices.json'' [stored_device] no_files = (Inr (), s')"
    and "State_Save steady ''measurements.json'' stored_cache no_files = (Inr (), s'')"
    by (force simp: registry_Save_def State_Save_def)
  with saved_is_loaded [of "''devices.json''" steady s' s'' "[stored_device]" steady no_files s'
      "''measurements.json''" stored_cache s''] stored_device_ok stored_cache_ok
  show ?thesis
    by simp
qed

text \<open>
  C16. The cache can always be encoded.  Every value \<^verbatim>\<open>Parse\<close> yields, from any payload, is a proper
  \<^verbatim>\<open>float64\<close> in range with a time stamp that fits, so a cache built from any sequence of
  parsed updates has a text: \<^verbatim>\<open>State.Save\<close> never fails in \<^verbatim>\<open>json.MarshalIndent\<close>.
\<close>

theorem cache_always_encodes:
  assumes "\<forall>(now, u) \<in> set us. in_i64 (unix now) \<and> (\<exists>payload. u \<in> set (fst (Parse conv payload)))"
    and "cache_fits m"
  shows "cache_fits (foldl (\<lambda>m (now, u). snd (Merge now u m)) m us)
    \<and> cache_text (foldl (\<lambda>m (now, u). snd (Merge now u m)) m us) \<noteq> None"
proof -
  have "cache_fits (foldl (\<lambda>m (now, u). snd (Merge now u m)) m us)"
  proof (rule foldl_invariant [where P = cache_fits, OF assms(2)])
    fix m x
    assume m: "cache_fits m" and x: "x \<in> set us"
    obtain now u where "x = (now, u)"
      by fastforce
    with assms(1) x obtain payload where unix: "in_i64 (unix now)" and u: "u \<in> set (fst (Parse conv payload))"
      by blast
    obtain b m' where "Merge now u m = (b, m')"
      by fastforce
    with Merge_fits [OF Parse_fits [OF u] unix m this] \<open>x = (now, u)\<close>
    show "cache_fits ((\<lambda>m (now, u). snd (Merge now u m)) m x)"
      by simp
  qed
  with cache_fits_doc show ?thesis
    by (simp add: cache_text_def)
qed

theorem cache_always_encodes_witness:
  "cache_text (snd (Merge 0 sensor_update stored_cache)) \<noteq> None"
proof -
  have "\<exists>payload. sensor_update \<in> set (fst (Parse (\<lambda>_. 0) payload))"
    by (rule exI [of _ "Some (ble_doc sensor_report)"]) (simp add: sensor_report_parsed)
  with cache_always_encodes [of "[(0, sensor_update)]" "\<lambda>_. 0" stored_cache] stored_cache_fits show ?thesis
    by (simp add: in_i64_def unix_def)
qed

subsection \<open>The configuration file\<close>

text \<open>
  C13. The configuration settles at the first start: a file that exists is never written, whatever is
  in it, and what is accepted is valid; a missing file is created, private to its owner, with
  the defaults and a fresh PIN; and every later start reads the same configuration from it and
  changes no file.
\<close>

theorem configuration_settles:
  assumes "LoadOrCreate sys reads path s = Some (Inr (c, created), s')" and "target path"
    and "valid_utf8 (default_state_dir path)"
  shows "valid_config c \<and> (created \<longleftrightarrow> st_files s (path_Clean path) = None)
    \<and> st_files s' = (if created then (st_files s)(path_Clean path \<mapsto> new_node (file_text (config_doc c))) else st_files s)
    \<and> (\<forall>sys' reads' t. call_ok sys' t \<and> st_files t (path_Clean path) = st_files s' (path_Clean path) \<longrightarrow>
         (\<exists>t'. LoadOrCreate sys' reads' path t = Some (Inr (c, False), t') \<and> st_files t' = st_files t))"
proof (cases "st_files s (path_Clean path) = None")
  case True
  note made = LoadOrCreate_created [OF assms(1) True assms(2)]
  then obtain pin where "pin_ok pin" and "c = Defaults pin path"
    using generatePin_valid by blast
  with NormalizeAndValidate_sound [OF Defaults_valid] have "valid_config c"
    by blast
  with made True LoadOrCreate_again [OF assms] show ?thesis
    by simp
next
  case False
  with LoadOrCreate_loaded(1,2) [OF assms(1) False] LoadOrCreate_existing [OF assms(1) False]
    LoadOrCreate_again [OF assms] show ?thesis
    by simp
qed

lemma example_pin: "generatePin [Some [1, 2, 0, 0]] = Some (PinGenerated ''00000513'')"
proof -
  have "pin_of_bytes [1, 2, 0, 0] = ''00000513''"
    by code_simp
  then show ?thesis
    by (simp add: validatePin_def invalidPins_def is_digit_def char_code_def)
qed

lemma example_state_dir: "default_state_dir ''config.json'' = ''state''"
  by code_simp

lemma example_created:
  assumes "no_temps s" and "st_files s (path_Clean ''config.json'') = None"
  shows "\<exists>s'. LoadOrCreate steady [Some [1, 2, 0, 0]] ''config.json'' s
    = Some (Inr (Defaults ''00000513'' ''config.json'', True), s')"
proof -
  let ?c = "Defaults ''00000513'' ''config.json''"
  obtain s1 where read: "ReadFile steady ''config.json'' s = (Inl ErrNotExist, s1)" and "st_files s1 = st_files s"
    using assms(2) by (auto simp: ReadFile_def)
  with assms(1) have "no_temps s1"
    by (simp add: no_temps_def)
  then have "\<exists>s'. writeJSON steady ''config.json'' ?c s1 = (Inr (), s')"
    unfolding writeJSON_def
    by (intro replace_file_succeeds [where i = 0]) (simp_all add: temp_tries_def no_temps_free)
  moreover have "NormalizeAndValidate ''config.json'' ?c = Inr ?c"
    using Defaults_valid generatePin_valid [OF example_pin] by blast
  ultimately show ?thesis
    using read example_pin by (auto simp: LoadOrCreate_def)
qed

theorem configuration_settles_witness:
  "\<exists>c s' t'. LoadOrCreate steady [Some [1, 2, 0, 0]] ''config.json'' no_files = Some (Inr (c, True), s')
     \<and> LoadOrCreate steady [] ''config.json'' s' = Some (Inr (c, False), t')"
proof -
  obtain s' where s': "LoadOrCreate steady [Some [1, 2, 0, 0]] ''config.json'' no_files
      = Some (Inr (Defaults ''00000513'' ''config.json'', True), s')"
    using example_created [OF no_temps_no_files] by (auto simp: no_files_def)
  moreover have "valid_utf8 (default_state_dir ''config.json'')"
    by (simp add: example_state_dir ascii_valid is_ascii_def char_code_def)
  ultimately show ?thesis
    using configuration_settles [OF s'] by (metis plain_targets(3) steady_ok(2))
qed

subsection \<open>A store with a registry and a cache\<close>

definition saved_state :: "config \<Rightarrow> store" where
  "saved_state cfg = no_files\<lparr>st_files := [
     path_Clean (registry_path cfg) \<mapsto> new_node (the (registry_text [stored_device])),
     path_Clean (measurement_path cfg) \<mapsto> new_node (the (cache_text stored_cache))]\<rparr>"

lemma saved_state_files:
  "st_files (saved_state cfg) (path_Clean (registry_path cfg)) = Some (new_node (the (registry_text [stored_device])))"
  "st_files (saved_state cfg) (path_Clean (measurement_path cfg)) = Some (new_node (the (cache_text stored_cache)))"
  using state_files_differ [of cfg cfg] by (auto simp: saved_state_def)

lemma registry_text_the: "registry_text ds = Some (the (registry_text ds))"
  by (simp add: registry_text_def)

lemma stored_cache_text: "cache_text stored_cache = Some (the (cache_text stored_cache))"
  using cache_fits_doc [OF stored_cache_fits] by (simp add: cache_text_def)

subsection \<open>Starting\<close>

text \<open>
  C18. Damaged files at the start: a registry that cannot be decoded stops the start with that error
  and is left for inspection; a cache that cannot be decoded, or is of another version, only
  costs the cached values: the start goes on and every accessory begins without them.
\<close>

theorem damaged_files:
  assumes "call_ok sys s"
  shows "(st_files s (path_Clean (registry_path cfg)) = Some n \<and> unmarshal registry_fields [] (fn_text n) = None \<longrightarrow>
      start_devices sys now cfg created es s = Some (Inl (StartRegistry DecodeFailed), step [] s))
    \<and> (st_files s (path_Clean (measurement_path cfg)) = Some n \<and>
       (\<forall>data. unmarshal cache_file_fields zero_cache_file (fn_text n) = Some data \<longrightarrow> cf_version data \<noteq> currentVersion) \<longrightarrow>
      load_measurements sys cfg s = (measurements_New, step [] s))
    \<and> sp_accessories (start_accessories now cfg created d measurements_New) = make_accessories (sort_key deviceKey (di_devices d))
    \<and> sp_restored (start_accessories now cfg created d measurements_New) = 0"
proof -
  have none: "Restore dev measurements_New = None" for dev
    by (simp add: Restore_def lookup_reading_def measurements_New_def)
  have empty: "restoreCachedMeasurements now as measurements_New = (as, 0)" for as
    by (induction as) (simp_all add: none)
  show ?thesis
    using assms
    by (auto simp: start_devices_def registry_Load_def load_measurements_def measurements_Load_def ReadFile_def
        start_accessories_def empty Let_def split: option.split)
qed

definition broken_registry :: "config \<Rightarrow> store" where
  "broken_registry cfg = no_files\<lparr>st_files := [path_Clean (registry_path cfg) \<mapsto> new_node ''{'']\<rparr>"

theorem damaged_files_witness:
  "start_devices steady 0 example_config False [] (broken_registry example_config)
     = Some (Inl (StartRegistry DecodeFailed), step [] (broken_registry example_config))"
proof -
  have "unmarshal registry_fields [] ''{'' = None"
    by code_simp
  with damaged_files [of steady "broken_registry example_config" example_config "new_node ''{''" 0 False "[]"] show ?thesis
    by (simp add: broken_registry_def new_node_def)
qed

lemma config_path_differs:
  "path_Clean ''config.json'' \<noteq> path_Clean (registry_path cfg)"
  "path_Clean ''config.json'' \<noteq> path_Clean (measurement_path cfg)"
proof -
  have "path_Clean ''config.json'' = ''config.json''"
    by (simp add: path_Clean_plain plain_name_def slash_def)
  then have "\<not> suffix ''devices.json'' (path_Clean ''config.json'')" "\<not> suffix ''measurements.json'' (path_Clean ''config.json'')"
    by (simp_all add: suffix_Cons)
  then show "path_Clean ''config.json'' \<noteq> path_Clean (registry_path cfg)"
    and "path_Clean ''config.json'' \<noteq> path_Clean (measurement_path cfg)"
    using registry_key [of cfg] measurement_key [of cfg] by metis+
qed

lemma example_run_start:
  "\<exists>st s1. run_start steady [Some [1, 2, 0, 0]] 0 ''config.json'' [] (saved_state example_config) = Some (Inr st, s1)
     \<and> sp_devices st = [stored_device] \<and> sp_config st = example_config \<and> no_temps s1"
proof -
  let ?s = "saved_state example_config"
  have no_temps: "no_temps ?s"
    using state_targets by (auto simp: no_temps_def saved_state_def no_files_def target_def)
  have "st_files ?s (path_Clean ''config.json'') = None"
    using config_path_differs by (simp add: saved_state_def no_files_def)
  from example_created [OF no_temps this] obtain s0
    where load: "LoadOrCreate steady [Some [1, 2, 0, 0]] ''config.json'' ?s = Some (Inr (example_config, True), s0)"
    by (auto simp: example_config_def)
  from LoadOrCreate_created [OF this \<open>st_files ?s (path_Clean ''config.json'') = None\<close>]
  have files: "st_files s0 = (st_files ?s)(path_Clean ''config.json'' \<mapsto> new_node (file_text (config_doc example_config)))"
    by simp
  from no_temps_update [OF no_temps plain_targets(3) this] have temps0: "no_temps s0" .
  have "fst (registry_Load steady (registry_path example_config) s0) = Inr [stored_device]"
    using files config_path_differs [symmetric] saved_state_files(1) stored_device_ok
    by (intro reg.load_encoded [OF _ registry_text_the]) simp_all
  moreover have "prepareDevices (mergeDevices (c_devices example_config) [stored_device]) = Some ([stored_device], False)"
    using merge_into_empty [of "[stored_device]"] stored_device_ready
    by (simp add: example_config_def Defaults_def separate_def deviceKey_def stored_device_def to_lower_def)
  ultimately obtain st s1 where start: "start_devices steady 0 example_config True [] s0 = Some (Inr st, s1)"
    and st: "sp_devices st = sort_key deviceKey [stored_device]"
    using start_devices_succeeds [of steady example_config s0 "[stored_device]" "[stored_device]" False 0 True "[]"]
      no_temps_names [OF temps0] by auto
  have "no_temps s1 \<and> sp_config st = example_config"
  proof (rule start_devices_done [OF start])
    fix d changed
    assume files: "st_files s1 = (if changed then (st_files s0)(path_Clean (registry_path example_config)
        \<mapsto> new_node (file_text (registry_doc (di_devices d)))) else st_files s0)" and "sp_config st = example_config"
    moreover have "no_temps s1"
    proof (cases changed)
      case True
      with no_temps_update [OF temps0 state_targets(1)] files show ?thesis
        by simp
    qed (use files temps0 in \<open>simp add: no_temps_def\<close>)
    ultimately show ?thesis
      by simp
  qed
  with load start st show ?thesis
    by (simp add: run_start_def)
qed

text \<open>
  C14. What HomeKit is given: after a successful start, whatever the configuration, the registry, the
  discovery and the cache held, the accessories have pairwise different ids, none of them the
  bridge's id 1; the PIN is one that HomeKit takes; and the port is a valid one.
\<close>

theorem homekit_setup:
  assumes "run_start sys reads now configPath es s = Some (Inr st, s1)"
    and "setup_server sys' version st s2 = (Inr sv, s3)"
    and "length (sp_devices st) + length es < 2147483646"
  shows "distinct (sv_bridge_id sv # map accessory_aid (sv_accessories sv)) \<and> pin_ok (sv_pin sv)
    \<and> (\<exists>port. 1 \<le> port \<and> port \<le> 65535 \<and> sv_addr sv = '':'' @ itoa port)"
proof -
  obtain cfg created s0 where load: "LoadOrCreate sys reads configPath s = Some (Inr (cfg, created), s0)"
    and start: "start_devices sys now cfg created es s0 = Some (Inr st, s1)"
    using assms(1) by (auto simp: run_start_def split: option.splits sum.splits)
  have valid: "valid_config cfg"
    using load LoadOrCreate_valid by blast
  have sv: "sv_bridge_id sv = 1" "sv_accessories sv = sp_accessories st" "sv_pin sv = c_pin (sp_config st)"
    "sv_addr sv = '':'' @ itoa (c_port (sp_config st))"
    using assms(2) by (auto simp: setup_server_def Let_def split: prod.splits sum.splits)
  obtain d m where st: "st = start_accessories now cfg created d m"
    and find: "\<exists>saved changed. find_devices cfg saved es = Some (d, changed)"
    using start by (auto simp: start_devices_def split: sum.splits prod.splits option.splits if_splits)
  have ids: "map accessory_aid (sp_accessories st) = map accessory_aid (make_accessories (sort_key deviceKey (di_devices d)))"
    unfolding st by (rule start_accessories_ids)
  have "ready {} (sort_key deviceKey (di_devices d))"
  proof (cases "di_devices d = []")
    case True
    then show ?thesis
      by (simp add: ready_def)
  next
    case False
    with find find_devices_prepared(1) assms(3) show ?thesis
      by (auto simp: st ready_sort)
  qed
  then have "distinct (map accessory_aid (sp_accessories st))"
    unfolding ids by (rule make_accessories_aids)
  moreover have "2 \<le> accessory_aid x" if "x \<in> set (make_accessories (sort_key deviceKey (di_devices d)))" for x
    using make_accessories_ok [OF that] accessoryID_not_bridge [of "DeviceConfig x"] by simp
  then have "1 \<notin> set (map accessory_aid (sp_accessories st))"
    unfolding ids by fastforce
  ultimately show ?thesis
    using sv valid by (simp add: st valid_config_def)
qed

theorem homekit_setup_witness:
  "\<exists>st s1 sv s3. run_start steady [Some [1, 2, 0, 0]] 0 ''config.json'' [] (saved_state example_config) = Some (Inr st, s1)
     \<and> setup_server steady ''1.0'' st s1 = (Inr sv, s3) \<and> pin_ok (sv_pin sv)"
proof -
  obtain st s1 where start: "run_start steady [Some [1, 2, 0, 0]] 0 ''config.json'' [] (saved_state example_config) = Some (Inr st, s1)"
    and st: "sp_devices st = [stored_device]"
    using example_run_start by blast
  obtain sv s3 where "setup_server steady ''1.0'' st s1 = (Inr sv, s3)"
    by (simp add: setup_server_def MkdirAll_def Let_def)
  with homekit_setup [OF start this] start st show ?thesis
    by auto
qed

text \<open>
  C15. A measurement survives a restart: once an update has changed the cache and the save has
  succeeded, the next start restores to the device's accessory the values of that update, and the
  earlier ones where it had none.
\<close>

theorem measurement_survives_restart:
  assumes "from_message conv u" and "plain_mac (u_mac u)" and "update_key u \<noteq> []" and "Merge now u m = (True, m')"
    and "cache_storable m" and "in_i64 (unix now)"
    and "DeviceConfig a = d" and "d_mac d = u_mac u" and "d_did d = u_did u"
    and "u_temperature u \<noteq> None \<or> u_humidity u \<noteq> None \<or> u_battery u \<noteq> None"
    and "State_Save sys (measurement_path cfg) m' s = (Inr (), s1)"
    and "st_files t (path_Clean (measurement_path cfg)) = st_files s1 (path_Clean (measurement_path cfg))"
    and "call_ok sys' t"
  shows "fst (load_measurements sys' cfg t) = m'
    \<and> (\<exists>v. restoreCachedMeasurements now' [a] m' = ([accessory_Apply now' v a], 1)
        \<and> u_temperature v = override (u_temperature u) (r_temperature (prior_or_zero u m))
        \<and> u_humidity v = override (u_humidity u) (r_humidity (prior_or_zero u m))
        \<and> u_battery v = override (u_battery u) (r_battery (prior_or_zero u m)))"
proof -
  note valid = from_message_valid(1) [OF assms(1)]
  have "cache_storable m'"
    using merged_storable [OF assms(1,2,6,4,5)] .
  then have "fst (measurements_Load sys' (measurement_path cfg) t) = Inr m'"
    using cache.save_then_load [OF assms(11) _ _ assms(12,13)] by simp
  then have "fst (load_measurements sys' cfg t) = m'"
    by (auto simp: load_measurements_def split: prod.split sum.split)
  with merge_then_restore [OF valid assms(3,4,8-10)] assms(7) show ?thesis
    by auto
qed

lemma sensor_merged: "Merge 0 sensor_update Map.empty = (True, snd (Merge 0 sensor_update Map.empty))"
proof -
  have "valid_update sensor_update"
    using sensor_from_message from_message_valid(1) by blast
  moreover have "update_key sensor_update \<noteq> []"
    by (simp add: update_key_def identity_did sensor_mac)
  ultimately have "fst (Merge 0 sensor_update Map.empty)"
    by (simp add: Merge_eq [OF valid_finite_values] prior_or_zero_def prior_reading_def overlay_def zero_reading_def override_def)
       (simp add: sensor_update_def)
  then show ?thesis
    by (metis prod.collapse)
qed

theorem measurement_survives_restart_witness:
  "\<exists>s1 v. State_Save steady (measurement_path example_config) (snd (Merge 0 sensor_update Map.empty)) no_files = (Inr (), s1)
     \<and> restoreCachedMeasurements 0 [SensorAccessory (NewSensor stored_device)] (fst (load_measurements steady example_config s1))
         = ([accessory_Apply 0 v (SensorAccessory (NewSensor stored_device))], 1)
     \<and> u_battery v = Some 88"
proof -
  have plain: "plain_mac (u_mac sensor_update)" and key: "update_key sensor_update \<noteq> []"
    by (simp_all add: plain_mac_def has_prefix_def sensor_mac update_key_def identity_did)
  have empty: "cache_storable Map.empty" and now: "in_i64 (unix 0)"
    by (simp_all add: cache_storable_def storable_cache_def keys_normal_def in_i64_def unix_def)
  have "cache_storable (snd (Merge 0 sensor_update Map.empty))"
    by (rule merged_storable [OF sensor_from_message plain now sensor_merged empty])
  then have "cache_fits (snd (Merge 0 sensor_update Map.empty))"
    by (simp add: cache_storable_def storable_cache_def cache_fits_def)
  then obtain j where "cache_doc (snd (Merge 0 sensor_update Map.empty)) = Some j"
    using cache_fits_doc by blast
  moreover have "\<exists>s1. replace_file steady ''.measurements-'' (measurement_path example_config) (Some b) no_files = (Inr (), s1)" for b
    by (rule replace_file_succeeds [of steady _ _ 0]) (simp_all add: temp_tries_def no_files_def)
  ultimately obtain s1 where saved: "State_Save steady (measurement_path example_config)
      (snd (Merge 0 sensor_update Map.empty)) no_files = (Inr (), s1)"
    by (auto simp: State_Save_def)
  have "DeviceConfig (SensorAccessory (NewSensor stored_device)) = stored_device" "d_mac stored_device = u_mac sensor_update"
    "d_did stored_device = u_did sensor_update" "u_battery sensor_update = Some 88"
    by (simp_all add: NewSensor_def stored_device_def sensor_update_def)
  with measurement_survives_restart [OF sensor_from_message plain key sensor_merged empty now,
      of "SensorAccessory (NewSensor stored_device)" stored_device steady example_config no_files s1 s1 steady 0] saved
  show ?thesis
    by (auto simp: override_def)
qed

end
