(* ===== verification/Bridge_System.thy ===== *)
theory Bridge_System
  imports Stored_Values
begin

section \<open>The whole bridge as a state machine\<close>

text \<open>
  The goroutines of the process and the timers of its toothbrushes, in any interleaving.  The MQTT
  goroutine parses a message and puts its updates into the queue one by one, until the context is
  done; \<^verbatim>\<open>processUpdates\<close> first works through the updates that discovery kept and then takes
  updates from the queue, saving the registry and the cache as it goes, and returns when the
  context is done; a timer fires when its deadline has passed, and its callback gets the mutex at
  some time later; \<^verbatim>\<open>Close\<close> runs for each accessory when \<^verbatim>\<open>run\<close> returns.

  An accessory is shared by the consumer and its timer, under the accessory's mutex, so each access
  to one is a single step.  Whatever else the consumer does for an update it has taken happens on
  state of its own and is one step with its access to the accessory.

  \<open>bg_arrived\<close>, \<open>bg_restored\<close>, \<open>bg_consumed\<close> and \<open>bg_saved\<close> only record what happened.
\<close>

record bridge =
  bg_clock :: time
  bg_handling :: "update list"
  bg_queue :: queue
  bg_initial :: "update list"
  bg_taken :: "update option"
  bg_cancelled :: bool
  bg_returned :: bool
  bg_runtime :: runtime
  bg_callbacks :: "nat \<Rightarrow> 64 word list"
  bg_closed :: "nat set"
  bg_store :: store
  bg_arrived :: "update list"
  bg_restored :: "(clocks \<times> update) list"
  bg_consumed :: "(clocks \<times> update) list"
  bg_saved :: "saving list"

text \<open>The saves of one update, in their order: the cache, then the registry.\<close>

definition new_saves :: "runtime \<Rightarrow> runtime \<Rightarrow> saving list" where
  "new_saves rt rt' =
     map SaveCache (drop (length (rt_cache_saves rt)) (rt_cache_saves rt'))
     @ map SaveRegistry (drop (length (rt_registry_saves rt)) (rt_registry_saves rt'))"

definition advance :: "system \<Rightarrow> config \<Rightarrow> time \<Rightarrow> runtime \<Rightarrow> bridge \<Rightarrow> bridge" where
  "advance sys cfg now rt' s =
     s\<lparr>bg_clock := now, bg_runtime := rt',
       bg_store := save_all (save_one sys cfg) (new_saves (bg_runtime s) rt') (bg_store s),
       bg_saved := bg_saved s @ new_saves (bg_runtime s) rt'\<rparr>"

text \<open>
  The readings of the clock for one update: the accessory is accessed at the step itself, the others
  are made at some time of the process's life, from \<open>t0\<close> to \<open>t1\<close>.
\<close>

definition readings :: "time \<Rightarrow> time \<Rightarrow> time \<Rightarrow> clocks \<Rightarrow> bool" where
  "readings t0 t1 now ck \<longleftrightarrow> t0 \<le> ck_classify ck \<and> ck_classify ck \<le> t1 \<and> t0 \<le> ck_merge ck \<and> ck_merge ck \<le> t1
     \<and> now \<le> ck_apply ck \<and> ck_apply ck \<le> t1"

text \<open>The toothbrush at a place, with its environment.\<close>

fun brush_at :: "nat \<Rightarrow> runtime \<Rightarrow> toothbrush option" where
  "brush_at i rt =
     (if i < length (rt_accessories rt)
      then (case rt_accessories rt ! i of ToothbrushAccessory t \<Rightarrow> Some t | SensorAccessory _ \<Rightarrow> None) else None)"

declare brush_at.simps [simp del]

definition brush_sys_of :: "nat \<Rightarrow> toothbrush \<Rightarrow> bridge \<Rightarrow> brush_sys" where
  "brush_sys_of i t s = \<lparr>bsys_brush = t, bsys_callbacks = bg_callbacks s i, bsys_clock = bg_clock s,
     bsys_closed = (i \<in> bg_closed s)\<rparr>"

definition put_brush :: "nat \<Rightarrow> brush_sys \<Rightarrow> bridge \<Rightarrow> bridge" where
  "put_brush i b s =
     s\<lparr>bg_runtime := (bg_runtime s)\<lparr>rt_accessories := (rt_accessories (bg_runtime s))[i := ToothbrushAccessory (bsys_brush b)]\<rparr>,
       bg_callbacks := (bg_callbacks s)(i := bsys_callbacks b)\<rparr>"

text \<open>The steps of the timers alone.\<close>

inductive watchdog_step :: "bridge \<Rightarrow> bridge \<Rightarrow> bool" where
  "brush_at i (bg_runtime s) = Some t \<Longrightarrow> timer_step (brush_sys_of i t s) b \<Longrightarrow> watchdog_step s (put_brush i b s)"

inductive bridge_step :: "system \<Rightarrow> (f64 \<Rightarrow> int) \<Rightarrow> config \<Rightarrow> time \<Rightarrow> time \<Rightarrow> bridge \<Rightarrow> bridge \<Rightarrow> bool" for sys conv cfg t0 t1 where
  message: "bg_handling s = [] \<Longrightarrow> us = fst (Parse conv (parse_json payload)) \<Longrightarrow>
     bridge_step sys conv cfg t0 t1 s (s\<lparr>bg_handling := us, bg_arrived := bg_arrived s @ us\<rparr>)"
| put: "bg_handling s = u # us \<Longrightarrow>
     bridge_step sys conv cfg t0 t1 s (s\<lparr>bg_handling := us, bg_queue := enqueue_update (bg_clock s) (bg_queue s) u\<rparr>)"
| abandon: "bg_cancelled s \<Longrightarrow> bridge_step sys conv cfg t0 t1 s (s\<lparr>bg_handling := []\<rparr>)"
| initial: "bg_initial s = u # us \<Longrightarrow> readings t0 t1 (bg_clock s) ck \<Longrightarrow>
     rt' = process_initial (measurement_path cfg) ck u (bg_runtime s) \<Longrightarrow>
     bridge_step sys conv cfg t0 t1 s ((advance sys cfg (ck_apply ck) rt' s)
       \<lparr>bg_initial := us, bg_restored := bg_restored s @ [(ck, u)]\<rparr>)"
| receive: "bg_initial s = [] \<Longrightarrow> bg_taken s = None \<Longrightarrow> \<not> bg_returned s \<Longrightarrow> q_updates (bg_queue s) = u # us \<Longrightarrow>
     bridge_step sys conv cfg t0 t1 s (s\<lparr>bg_queue := (bg_queue s)\<lparr>q_updates := us\<rparr>, bg_taken := Some u\<rparr>)"
| consume: "bg_taken s = Some u \<Longrightarrow> readings t0 t1 (bg_clock s) ck \<Longrightarrow>
     process_update cfg (measurement_path cfg) ck u (bg_runtime s) = Some rt' \<Longrightarrow>
     bridge_step sys conv cfg t0 t1 s ((advance sys cfg (ck_apply ck) rt' s)
       \<lparr>bg_taken := None, bg_consumed := bg_consumed s @ [(ck, u)]\<rparr>)"
| cancel: "bridge_step sys conv cfg t0 t1 s (s\<lparr>bg_cancelled := True\<rparr>)"
| return: "bg_cancelled s \<Longrightarrow> bg_initial s = [] \<Longrightarrow> bg_taken s = None \<Longrightarrow>
     bridge_step sys conv cfg t0 t1 s (s\<lparr>bg_returned := True\<rparr>)"
| watchdog: "watchdog_step s s' \<Longrightarrow> bridge_step sys conv cfg t0 t1 s s'"
| elapse: "0 \<le> d \<Longrightarrow> bridge_step sys conv cfg t0 t1 s (s\<lparr>bg_clock := bg_clock s + d\<rparr>)"
| close: "i < length (rt_accessories (bg_runtime s)) \<Longrightarrow> bridge_step sys conv cfg t0 t1 s
     (s\<lparr>bg_runtime := (bg_runtime s)\<lparr>rt_accessories := (rt_accessories (bg_runtime s))
          [i := accessory_Close (rt_accessories (bg_runtime s) ! i)]\<rparr>,
        bg_closed := insert i (bg_closed s)\<rparr>)"

text \<open>
  The state when \<^verbatim>\<open>run\<close> starts the consumer: the MQTT goroutine has put something into the queue by
  then and may be in the middle of a message, and the kept updates are in the order in which
  \<^verbatim>\<open>range\<close> visits the map.
\<close>

definition bridge_start :: "started \<Rightarrow> update list \<Rightarrow> update list \<Rightarrow> queue \<Rightarrow> time \<Rightarrow> store \<Rightarrow> bridge" where
  "bridge_start st initial hs q now s =
     \<lparr>bg_clock = now, bg_handling = hs, bg_queue = q, bg_initial = initial, bg_taken = None,
      bg_cancelled = False, bg_returned = False, bg_runtime = start_runtime st, bg_callbacks = (\<lambda>_. []),
      bg_closed = {}, bg_store = s, bg_arrived = q_updates q @ hs,
      bg_restored = [], bg_consumed = [], bg_saved = []\<rparr>"

definition bridge_begins :: "(f64 \<Rightarrow> int) \<Rightarrow> time \<Rightarrow> started \<Rightarrow> store \<Rightarrow> bridge \<Rightarrow> bool" where
  "bridge_begins conv now st s b \<longleftrightarrow>
     (\<exists>keys hs q t. b = bridge_start st (map (the \<circ> sp_initial st) keys) hs q t s \<and> now \<le> t
        \<and> distinct keys \<and> set keys = dom (sp_initial st) \<and> length (q_updates q) \<le> queue_capacity
        \<and> (\<forall>u \<in> set hs \<union> set (q_updates q). from_message conv u))"

inductive_cases watchdog_stepE: "watchdog_step s s'"
inductive_cases bridge_stepE: "bridge_step sys conv cfg t0 t1 s s'"

lemma advance_fields [simp]:
  "bg_clock (advance sys cfg now rt' s) = now" "bg_handling (advance sys cfg now rt' s) = bg_handling s"
  "bg_queue (advance sys cfg now rt' s) = bg_queue s" "bg_initial (advance sys cfg now rt' s) = bg_initial s"
  "bg_runtime (advance sys cfg now rt' s) = rt'" "bg_callbacks (advance sys cfg now rt' s) = bg_callbacks s"
  "bg_taken (advance sys cfg now rt' s) = bg_taken s" "bg_cancelled (advance sys cfg now rt' s) = bg_cancelled s"
  "bg_returned (advance sys cfg now rt' s) = bg_returned s"
  "bg_closed (advance sys cfg now rt' s) = bg_closed s" "bg_arrived (advance sys cfg now rt' s) = bg_arrived s"
  "bg_restored (advance sys cfg now rt' s) = bg_restored s" "bg_consumed (advance sys cfg now rt' s) = bg_consumed s"
  "bg_store (advance sys cfg now rt' s) = save_all (save_one sys cfg) (new_saves (bg_runtime s) rt') (bg_store s)"
  "bg_saved (advance sys cfg now rt' s) = bg_saved s @ new_saves (bg_runtime s) rt'"
  by (simp_all add: advance_def)

lemma put_brush_fields [simp]:
  "bg_clock (put_brush i b s) = bg_clock s" "bg_handling (put_brush i b s) = bg_handling s"
  "bg_queue (put_brush i b s) = bg_queue s" "bg_initial (put_brush i b s) = bg_initial s"
  "bg_taken (put_brush i b s) = bg_taken s" "bg_cancelled (put_brush i b s) = bg_cancelled s"
  "bg_returned (put_brush i b s) = bg_returned s"
  "bg_closed (put_brush i b s) = bg_closed s" "bg_arrived (put_brush i b s) = bg_arrived s"
  "bg_restored (put_brush i b s) = bg_restored s" "bg_consumed (put_brush i b s) = bg_consumed s"
  "bg_store (put_brush i b s) = bg_store s" "bg_saved (put_brush i b s) = bg_saved s"
  by (simp_all add: put_brush_def)

subsection \<open>The queue\<close>

lemma step_queue_bound:
  "bridge_step sys conv cfg t0 t1 s s' \<Longrightarrow> length (q_updates (bg_queue s)) \<le> queue_capacity \<Longrightarrow>
     length (q_updates (bg_queue s')) \<le> queue_capacity"
  by (induction rule: bridge_step.induct) (auto intro: updates.enq_bound elim!: watchdog_stepE)

definition from_messages :: "(f64 \<Rightarrow> int) \<Rightarrow> bridge \<Rightarrow> bool" where
  "from_messages conv s \<longleftrightarrow>
     (\<forall>u \<in> set (bg_handling s) \<union> set (q_updates (bg_queue s)) \<union> set (bg_initial s)
        \<union> set_option (bg_taken s) \<union> snd ` set (bg_restored s) \<union> snd ` set (bg_consumed s). from_message conv u)"

lemma step_from_messages:
  "bridge_step sys conv cfg t0 t1 s s' \<Longrightarrow> from_messages conv s \<Longrightarrow> from_messages conv s'"
proof (induction rule: bridge_step.induct)
  case (watchdog s s')
  then show ?case
    by (elim watchdog_stepE) (simp add: from_messages_def)
qed (auto simp: from_messages_def from_message_def enqueue_update_cases split: if_splits)

text \<open>Nothing overtakes: what is consumed, queued and being put there is what arrived, less what was dropped.\<close>

definition taken_list :: "bridge \<Rightarrow> update list" where
  "taken_list s = (case bg_taken s of None \<Rightarrow> [] | Some u \<Rightarrow> [u])"

definition in_order :: "bridge \<Rightarrow> bool" where
  "in_order s \<longleftrightarrow>
     subseq (map snd (bg_consumed s) @ taken_list s @ q_updates (bg_queue s) @ bg_handling s) (bg_arrived s)"

lemma subseq_drop_middle: "subseq (xs @ y # ys) zs \<Longrightarrow> subseq (xs @ ys) zs"
proof -
  assume "subseq (xs @ y # ys) zs"
  moreover have "subseq (xs @ ys) (xs @ y # ys)"
    by (induction xs) auto
  ultimately show ?thesis
    by (rule subseq_order.trans [rotated])
qed

lemma step_in_order: "bridge_step sys conv cfg t0 t1 s s' \<Longrightarrow> in_order s \<Longrightarrow> in_order s'"
proof (induction rule: bridge_step.induct)
  case (message s us payload)
  then show ?case
    by (simp add: in_order_def taken_list_def) (metis append.assoc list_emb_append_mono subseq_order.refl)
next
  case (put s u us)
  then show ?case
    using subseq_drop_middle [of "map snd (bg_consumed s) @ taken_list s @ q_updates (bg_queue s)" u us]
    by (simp add: in_order_def taken_list_def enqueue_update_cases)
next
  case (abandon s)
  then have "subseq ((map snd (bg_consumed s) @ taken_list s @ q_updates (bg_queue s)) @ bg_handling s) (bg_arrived s)"
    by (simp add: in_order_def)
  then show ?case
    by (simp add: in_order_def taken_list_def) (metis append.assoc subseq_order.trans list_emb_append2 prefix_imp_subseq prefixI)
qed (auto simp: in_order_def taken_list_def elim!: watchdog_stepE)

text \<open>The kept updates come first, in their order.\<close>

definition kept_first :: "update list \<Rightarrow> bridge \<Rightarrow> bool" where
  "kept_first initial s \<longleftrightarrow> map snd (bg_restored s) @ bg_initial s = initial
     \<and> (bg_initial s \<noteq> [] \<longrightarrow> bg_consumed s = [] \<and> bg_taken s = None)"

lemma step_kept_first: "bridge_step sys conv cfg t0 t1 s s' \<Longrightarrow> kept_first initial s \<Longrightarrow> kept_first initial s'"
  by (induction rule: bridge_step.induct) (auto simp: kept_first_def elim!: watchdog_stepE)

end
