(* ===== verification/Bridge_Runs.thy ===== *)
theory Bridge_Runs
  imports Bridge_System
begin

section \<open>What the whole bridge does\<close>

text \<open>
  The interleaving of the goroutines and timers does not matter for what the consumer keeps: the
  bridge refines the sequential run of \<open>consumer_run\<close>, each of its toothbrushes is a toothbrush of
  \<open>Toothbrush_Watchdog\<close>, and its files are those of the consumer's saves.
\<close>

subsection \<open>The consumer's view\<close>

text \<open>
  Accessories that differ only in what a timer or \<^verbatim>\<open>Close\<close> may change: the session of a toothbrush.
\<close>

fun alike :: "accessory \<Rightarrow> accessory \<Rightarrow> bool" where
  "alike (SensorAccessory s) b \<longleftrightarrow> b = SensorAccessory s"
| "alike (ToothbrushAccessory t) b \<longleftrightarrow>
     (\<exists>t'. b = ToothbrushAccessory t' \<and> t_device t' = t_device t \<and> t_battery t' = t_battery t)"

lemma alike_refl [simp]: "alike a a"
  by (cases a) auto

lemma alike_trans: "alike a b \<Longrightarrow> alike b c \<Longrightarrow> alike a c"
  by (cases a; cases b) auto

lemma alike_config: "alike a b \<Longrightarrow> DeviceConfig b = DeviceConfig a"
  and alike_battery: "alike a b \<Longrightarrow> accessory_battery b = accessory_battery a"
  by (cases a; auto)+

lemma alike_Apply: "alike a b \<Longrightarrow> alike (accessory_Apply now u a) (accessory_Apply now u b)"
  by (cases a) (auto simp: toothbrush_laws)

lemma alike_Close: "alike a (accessory_Close a)"
  by (cases a) (auto simp: sensor_laws toothbrush_laws)

lemma alike_all_config: "list_all2 alike as bs \<Longrightarrow> map DeviceConfig bs = map DeviceConfig as"
  by (induction rule: list_all2_induct) (simp_all add: alike_config)

definition same_books :: "runtime \<Rightarrow> runtime \<Rightarrow> bool" where
  "same_books rt r \<longleftrightarrow> (\<exists>as. r = rt\<lparr>rt_accessories := as\<rparr> \<and> list_all2 alike (rt_accessories rt) as)"

lemma same_booksI:
  "list_all2 alike (rt_accessories rt) (rt_accessories r) \<Longrightarrow> r = rt\<lparr>rt_accessories := rt_accessories r\<rparr> \<Longrightarrow> same_books rt r"
  by (auto simp: same_books_def)

lemma same_books_refl [simp]: "same_books rt rt"
  by (rule same_booksI) (simp_all add: list_all2_refl)

lemma persist_accessories:
  "persistMeasurements path now u (rt\<lparr>rt_accessories := as\<rparr>) = (persistMeasurements path now u rt)\<lparr>rt_accessories := as\<rparr>"
  by (simp add: persistMeasurements_def Let_def split: prod.split)

lemma enroll_accessories:
  "enroll cfg u (rt\<lparr>rt_accessories := as\<rparr>) = map_option (rt_accessories_update (\<lambda>_. as)) (enroll cfg u rt)"
  by (simp add: enroll_def Let_def split: option.split)

lemma same_books_apply:
  assumes "same_books rt r"
  shows "same_books (apply_at now u i rt) (apply_at now u i r)"
proof -
  obtain as where r: "r = rt\<lparr>rt_accessories := as\<rparr>" and as: "list_all2 alike (rt_accessories rt) as"
    using assms by (auto simp: same_books_def)
  have "list_all2 alike ((rt_accessories rt)[i := accessory_Apply now u (rt_accessories rt ! i)])
      (as[i := accessory_Apply now u (as ! i)])"
  proof (cases "i < length as")
    case True
    with as show ?thesis
      by (intro list_all2_update_cong alike_Apply) (auto intro: list_all2_nthD2)
  qed (use as list_all2_lengthD [OF as] in \<open>simp add: list_update_beyond\<close>)
  then show ?thesis
    by (auto simp: same_books_def r apply_at_def)
qed

lemma same_books_persist:
  "same_books rt r \<Longrightarrow> same_books (persistMeasurements path now u rt) (persistMeasurements path now u r)"
  by (auto simp: same_books_def persist_accessories)

lemma same_books_dedup: "same_books rt r \<Longrightarrow> same_books (rt\<lparr>rt_dedup := dd\<rparr>) (r\<lparr>rt_dedup := dd\<rparr>)"
  by (rule same_booksI) (auto simp: same_books_def)

lemma same_books_match:
  "same_books rt r \<Longrightarrow> matchAccessory (rt_accessories r) u = matchAccessory (rt_accessories rt) u"
  by (auto simp: same_books_def alike_all_config intro: matchAccessory_config)

lemma same_books_enroll:
  "same_books rt r \<Longrightarrow> enroll cfg u r = Some r' \<Longrightarrow> \<exists>rt'. enroll cfg u rt = Some rt' \<and> same_books rt' r'"
  by (auto simp: same_books_def enroll_accessories enroll_fields) (metis enroll_fields(1))

lemma same_books_initial:
  "same_books rt r \<Longrightarrow> same_books (process_initial path ck u rt) (process_initial path ck u r)"
  by (auto simp: process_initial_def same_books_match same_books_persist same_books_apply split: option.split)

lemma same_books_update:
  assumes "same_books rt r" and "process_update cfg path ck u r = Some r'"
  shows "\<exists>rt'. process_update cfg path ck u rt = Some rt' \<and> same_books rt' r'"
proof -
  obtain disp dd where c: "Classify (ck_classify ck) (rt_dedup r) u = (disp, dd)"
    by fastforce
  have same: "rt_dedup rt = rt_dedup r"
    using assms(1) by (auto simp: same_books_def)
  note books = same_books_dedup [OF assms(1), of dd]
  note kept = same_books_persist [OF books, of path "ck_merge ck" u]
  show ?thesis
  proof (cases "matchAccessory (rt_accessories r) u")
    case None
    with assms(2) c same books same_books_enroll [OF kept] show ?thesis
      by (auto simp: process_update_def Let_def same_books_match [OF assms(1), symmetric] split: if_splits)
  next
    case (Some i)
    with assms(2) c same books same_books_apply [OF books] same_books_apply [OF kept] show ?thesis
      by (auto simp: process_update_def Let_def same_books_match [OF assms(1), symmetric] split: if_splits)
  qed
qed

text \<open>What the timers and \<^verbatim>\<open>Close\<close> do to an accessory leaves the books alone.\<close>

lemma same_books_touch:
  assumes "same_books rt r" and "alike (rt_accessories r ! i) a"
  shows "same_books rt (r\<lparr>rt_accessories := (rt_accessories r)[i := a]\<rparr>)"
proof -
  obtain as where r: "r = rt\<lparr>rt_accessories := as\<rparr>" and as: "list_all2 alike (rt_accessories rt) as"
    using assms(1) by (auto simp: same_books_def)
  have "list_all2 alike (rt_accessories rt) (as[i := a])"
  proof (cases "i < length as")
    case True
    then have "alike (rt_accessories rt ! i) a"
      using as assms(2) r by (auto intro: alike_trans list_all2_nthD2)
    with list_all2_update_cong [OF as this, of i] show ?thesis
      by simp
  qed (use as in \<open>simp add: list_update_beyond\<close>)
  then show ?thesis
    by (auto simp: same_books_def r)
qed

lemma timer_step_alike:
  "timer_step b b' \<Longrightarrow> alike (ToothbrushAccessory (bsys_brush b)) (ToothbrushAccessory (bsys_brush b'))"
  by (induction rule: timer_step.induct) (auto simp: expireWatchdog_def Let_def split: option.split)

lemma brush_at_Some:
  "brush_at i rt = Some t \<longleftrightarrow> i < length (rt_accessories rt) \<and> rt_accessories rt ! i = ToothbrushAccessory t"
  by (auto simp: brush_at.simps split: accessory.splits)

lemma process_run_snoc:
  "process_run cfg path (us @ [(ck, u)]) rt =
     (case process_run cfg path us rt of None \<Rightarrow> None | Some r \<Rightarrow> process_update cfg path ck u r)"
  by (induction us arbitrary: rt) (auto split: option.split)

lemma consumer_run_snoc:
  "consumer_run cfg path initial (us @ [(ck, u)]) rt =
     (case consumer_run cfg path initial us rt of None \<Rightarrow> None | Some r \<Rightarrow> process_update cfg path ck u r)"
  by (simp add: consumer_run_def process_run_snoc)

text \<open>The bridge's runtime is that of a sequential run over what has been taken so far.\<close>

definition refines :: "config \<Rightarrow> runtime \<Rightarrow> bridge \<Rightarrow> bool" where
  "refines cfg rt0 s \<longleftrightarrow>
     (\<exists>rt. consumer_run cfg (measurement_path cfg) (bg_restored s) (bg_consumed s) rt0 = Some rt
        \<and> same_books rt (bg_runtime s))"

lemma step_refines:
  "bridge_step sys conv cfg t0 t1 s s' \<Longrightarrow> kept_first initial s \<Longrightarrow> refines cfg rt0 s \<Longrightarrow> refines cfg rt0 s'"
proof (induction rule: bridge_step.induct)
  case (initial s u us ck rt')
  then have "bg_consumed s = []"
    by (simp add: kept_first_def)
  with initial show ?case
    by (auto simp: refines_def consumer_run_def same_books_initial)
next
  case (consume s u ck rt')
  then obtain rt where "consumer_run cfg (measurement_path cfg) (bg_restored s) (bg_consumed s) rt0 = Some rt"
    and books: "same_books rt (bg_runtime s)"
    by (auto simp: refines_def)
  with same_books_update [OF books consume.hyps(3)] show ?case
    by (auto simp: refines_def consumer_run_snoc)
next
  case (watchdog s s')
  then obtain rt where rt: "consumer_run cfg (measurement_path cfg) (bg_restored s) (bg_consumed s) rt0 = Some rt"
    and books: "same_books rt (bg_runtime s)"
    by (auto simp: refines_def)
  from watchdog(1) obtain i t b where at: "brush_at i (bg_runtime s) = Some t"
    and timer: "timer_step (brush_sys_of i t s) b" and s': "s' = put_brush i b s"
    by (rule watchdog_stepE)
  have "alike (rt_accessories (bg_runtime s) ! i) (ToothbrushAccessory (bsys_brush b))"
    using timer_step_alike [OF timer] at by (simp add: brush_at_Some brush_sys_of_def)
  from same_books_touch [OF books this] rt show ?case
    by (auto simp: refines_def s' put_brush_def)
next
  case (close i s)
  then obtain rt where "consumer_run cfg (measurement_path cfg) (bg_restored s) (bg_consumed s) rt0 = Some rt"
    and books: "same_books rt (bg_runtime s)"
    by (auto simp: refines_def)
  with same_books_touch [OF books alike_Close] show ?case
    by (auto simp: refines_def)
qed (simp_all add: refines_def)

subsection \<open>The toothbrushes\<close>

text \<open>
  Seen from one place of the list, the bridge is simulated by the toothbrush with its timer: whatever
  the bridge does, the toothbrush at that place makes steps of its own or none.
\<close>

definition brush_of :: "(f64 \<Rightarrow> int) \<Rightarrow> nat \<Rightarrow> brush_sys \<Rightarrow> bridge \<Rightarrow> bool" where
  "brush_of conv i x s \<longleftrightarrow>
     from_messages conv s \<and> (\<forall>t. brush_at i (bg_runtime s) = Some t \<longrightarrow> brush_sys_of i t s = x)"

definition brush_moves :: "nat \<Rightarrow> bridge \<Rightarrow> bridge \<Rightarrow> bool" where
  "brush_moves i s s' \<longleftrightarrow> (\<forall>t'. brush_at i (bg_runtime s') = Some t' \<longrightarrow>
     (\<exists>t. brush_at i (bg_runtime s) = Some t \<and> brush_step\<^sup>*\<^sup>* (brush_sys_of i t s) (brush_sys_of i t' s')))"

lemma brush_elapses:
  "now \<le> now' \<Longrightarrow> brush_step \<lparr>bsys_brush = t, bsys_callbacks = cbs, bsys_clock = now, bsys_closed = shut\<rparr>
     \<lparr>bsys_brush = t, bsys_callbacks = cbs, bsys_clock = now', bsys_closed = shut\<rparr>"
  using brush_step.elapse [of "now' - now"
      "\<lparr>bsys_brush = t, bsys_callbacks = cbs, bsys_clock = now, bsys_closed = shut\<rparr>"] by simp

lemma brush_applies:
  "valid_update u \<Longrightarrow> brush_step \<lparr>bsys_brush = t, bsys_callbacks = cbs, bsys_clock = now, bsys_closed = shut\<rparr>
     \<lparr>bsys_brush = toothbrush_Apply now u t, bsys_callbacks = cbs, bsys_clock = now, bsys_closed = shut\<rparr>"
  using brush_step.apply_update [of u
      "\<lparr>bsys_brush = t, bsys_callbacks = cbs, bsys_clock = now, bsys_closed = shut\<rparr>"] by simp

text \<open>The consumer touches an accessory by applying an update to it, or not at all.\<close>

lemma initial_accessories:
  "rt_accessories (process_initial path ck u rt) = rt_accessories rt
   \<or> (\<exists>i. rt_accessories (process_initial path ck u rt)
        = (rt_accessories rt)[i := accessory_Apply (ck_apply ck) u (rt_accessories rt ! i)])"
  by (auto simp: process_initial_def split: option.split)

lemma update_accessories:
  "process_update cfg path ck u rt = Some rt' \<Longrightarrow> rt_accessories rt' = rt_accessories rt
   \<or> (\<exists>i. rt_accessories rt' = (rt_accessories rt)[i := accessory_Apply (ck_apply ck) u (rt_accessories rt ! i)])"
  by (auto simp: process_update_accessories split: option.split)

lemma accessory_Apply_brush:
  assumes "accessory_Apply now u a = ToothbrushAccessory t'"
  obtains t where "a = ToothbrushAccessory t" and "t' = toothbrush_Apply now u t"
  using assms by (cases a) auto

lemma delivered_brush:
  assumes "as' = as \<or> (\<exists>k. as' = as[k := accessory_Apply now u (as ! k)])"
    and "i < length as'" and "as' ! i = ToothbrushAccessory t'"
  obtains t where "i < length as" and "as ! i = ToothbrushAccessory t" and "t' = t \<or> t' = toothbrush_Apply now u t"
proof -
  have i: "i < length as"
    using assms(1,2) by auto
  then have "as' ! i = as ! i \<or> as' ! i = accessory_Apply now u (as ! i)"
    using assms(1) by (metis nth_list_update_eq nth_list_update_neq)
  then have "as ! i = ToothbrushAccessory t' \<or> accessory_Apply now u (as ! i) = ToothbrushAccessory t'"
    unfolding assms(3) by metis
  with i that show thesis
    by (auto elim: accessory_Apply_brush)
qed

lemma brush_moves_deliver:
  assumes "readings tb te (bg_clock s) ck" and "valid_update u"
    and "bg_clock s' = ck_apply ck" "bg_callbacks s' = bg_callbacks s" "bg_closed s' = bg_closed s"
    and "rt_accessories (bg_runtime s') = rt_accessories (bg_runtime s)
      \<or> (\<exists>k. rt_accessories (bg_runtime s')
           = (rt_accessories (bg_runtime s))[k := accessory_Apply (ck_apply ck) u (rt_accessories (bg_runtime s) ! k)])"
  shows "brush_moves i s s'"
  unfolding brush_moves_def
proof (intro allI impI)
  fix t'
  assume t': "brush_at i (bg_runtime s') = Some t'"
  have le: "bg_clock s \<le> ck_apply ck"
    using assms(1) by (simp add: readings_def)
  obtain t where t: "brush_at i (bg_runtime s) = Some t" and moved: "t' = t \<or> t' = toothbrush_Apply (ck_apply ck) u t"
    using t' by (auto simp: brush_at_Some elim: delivered_brush [OF assms(6)])
  have "brush_step\<^sup>*\<^sup>* (brush_sys_of i t s) (brush_sys_of i t s')"
    using brush_elapses [OF le] by (simp add: brush_sys_of_def assms(3-5) r_into_rtranclp)
  moreover have "brush_step (brush_sys_of i t s') (brush_sys_of i (toothbrush_Apply (ck_apply ck) u t) s')"
    using brush_applies [OF assms(2)] by (simp add: brush_sys_of_def assms(3))
  ultimately have "brush_step\<^sup>*\<^sup>* (brush_sys_of i t s) (brush_sys_of i t' s')"
    using moved by (auto intro: rtranclp.rtrancl_into_rtrancl)
  with t show "\<exists>t. brush_at i (bg_runtime s) = Some t \<and> brush_step\<^sup>*\<^sup>* (brush_sys_of i t s) (brush_sys_of i t' s')"
    by blast
qed

lemma brush_moves_timer:
  assumes "watchdog_step s s'"
  shows "brush_moves i s s'"
proof -
  obtain k t b where at: "brush_at k (bg_runtime s) = Some t" and timer: "timer_step (brush_sys_of k t s) b"
    and s': "s' = put_brush k b s"
    using assms by (rule watchdog_stepE)
  have "bsys_clock b = bg_clock s" "bsys_closed b = (k \<in> bg_closed s)"
    using timer by (auto simp: brush_sys_of_def elim: timer_stepE)
  then have "brush_sys_of k (bsys_brush b) s' = b"
    by (simp add: brush_sys_of_def s' put_brush_def)
  with at brush_step.timer [OF timer] show ?thesis
    by (cases "k = i") (auto simp: s' brush_moves_def brush_at_Some brush_sys_of_def put_brush_def)
qed

lemma brush_moves_close:
  "i < length (rt_accessories (bg_runtime s)) \<Longrightarrow> rt_accessories (bg_runtime s) ! i = ToothbrushAccessory t \<Longrightarrow>
     brush_step (brush_sys_of i t s) \<lparr>bsys_brush = toothbrush_Close t, bsys_callbacks = bg_callbacks s i,
       bsys_clock = bg_clock s, bsys_closed = True\<rparr>"
  using brush_step.close [of "brush_sys_of i t s"] by (simp add: brush_sys_of_def)

lemma step_brush_moves:
  "bridge_step sys conv cfg tb te s s' \<Longrightarrow> from_messages conv s \<Longrightarrow> brush_moves i s s'"
proof (induction rule: bridge_step.induct)
  case (initial s u us ck rt')
  then have "valid_update u"
    by (auto simp: from_messages_def intro: from_message_valid(1))
  from brush_moves_deliver [OF initial(2) this] initial_accessories initial(3) show ?case
    by simp
next
  case (consume s u ck rt')
  then have "valid_update u"
    by (auto simp: from_messages_def intro: from_message_valid(1))
  from brush_moves_deliver [OF consume(2) this] update_accessories [OF consume(3)] show ?case
    by simp
next
  case (watchdog s s')
  then show ?case
    by (intro brush_moves_timer)
next
  case (elapse d s)
  then show ?case
    using brush_elapses [of "bg_clock s" "bg_clock s + d"] by (auto simp: brush_moves_def brush_sys_of_def)
next
  case (close k s)
  show ?case
    using brush_moves_close [of k s] close
    by (cases "k = i"; cases "rt_accessories (bg_runtime s) ! k")
       (auto simp: brush_moves_def brush_at_Some brush_sys_of_def)
qed (simp_all add: brush_moves_def brush_sys_of_def)

text \<open>What is true of every toothbrush with its timer is true of each toothbrush of the bridge.\<close>

interpretation brushes: simulation "bridge_step sys conv cfg tb te" brush_step "brush_of conv i" for sys conv cfg tb te i
proof
  fix s s' x
  assume step: "bridge_step sys conv cfg tb te s s'" and rel: "brush_of conv i x s"
  then have from_s: "from_messages conv s" and from_s': "from_messages conv s'"
    by (simp_all add: brush_of_def step_from_messages [OF step])
  show "\<exists>x'. brush_step\<^sup>*\<^sup>* x x' \<and> brush_of conv i x' s'"
  proof (cases "brush_at i (bg_runtime s')")
    case None
    with from_s' show ?thesis
      by (auto simp: brush_of_def)
  next
    case (Some t')
    with step_brush_moves [OF step from_s, of i] rel from_s' show ?thesis
      by (auto simp: brush_moves_def brush_of_def)
  qed
qed

interpretation brush_runs: simulated_invariant "bridge_step sys conv cfg tb te" brush_step "brush_of conv i" "brush_reachable d now"
  for sys conv cfg tb te i d now
  by unfold_locales (rule brush_reachable_step)

subsection \<open>The files\<close>

text \<open>What is saved is what the runtime says it saved, and the files are what the saves made of them.\<close>

definition files_inv :: "system \<Rightarrow> config \<Rightarrow> store \<Rightarrow> bridge \<Rightarrow> bool" where
  "files_inv sys cfg s0 s \<longleftrightarrow> bg_store s = save_all (save_one sys cfg) (bg_saved s) s0
     \<and> registry_saves (bg_saved s) = rt_registry_saves (bg_runtime s)
     \<and> cache_saves (bg_saved s) = rt_cache_saves (bg_runtime s)"

lemma saves_append:
  "registry_saves (vs @ ws) = registry_saves vs @ registry_saves ws"
  "cache_saves (vs @ ws) = cache_saves vs @ cache_saves ws"
  by (simp_all add: registry_saves_def cache_saves_def map_filter_def)

lemma saves_registry_map: "registry_saves (map SaveRegistry xs) = xs" "cache_saves (map SaveRegistry xs) = []"
  by (induction xs) simp_all

lemma saves_cache_map: "registry_saves (map SaveCache ms) = []" "cache_saves (map SaveCache ms) = ms"
  by (induction ms) simp_all

lemma save_all_append: "save_all save (vs @ ws) s = save_all save ws (save_all save vs s)"
  by (induction vs arbitrary: s) simp_all

text \<open>Saves are only added.\<close>

definition saves_grow :: "runtime \<Rightarrow> runtime \<Rightarrow> bool" where
  "saves_grow rt rt' \<longleftrightarrow> prefix (rt_registry_saves rt) (rt_registry_saves rt')
     \<and> prefix (rt_cache_saves rt) (rt_cache_saves rt')"

lemma persist_grows: "prefix (rt_cache_saves rt) (rt_cache_saves (persistMeasurements path now u rt))"
  by (simp add: persistMeasurements_def Let_def split: prod.split)

lemma initial_grows: "saves_grow rt (process_initial path ck u rt)"
  using persist_grows [of "apply_at now u i rt" for now i]
  by (auto simp: saves_grow_def process_initial_def split: option.split)

lemma enroll_grows: "enroll cfg u rt = Some rt' \<Longrightarrow> prefix (rt_registry_saves rt) (rt_registry_saves rt')"
  by (auto simp: enroll_def Let_def split: if_splits option.splits)

lemma update_grows:
  assumes "process_update cfg path ck u rt = Some rt'"
  shows "saves_grow rt rt'"
proof -
  let ?rt = "rt\<lparr>rt_dedup := snd (Classify (ck_classify ck) (rt_dedup rt) u)\<rparr>"
  have kept: "prefix (rt_cache_saves rt) (rt_cache_saves (persistMeasurements path (ck_merge ck) u ?rt))"
    using persist_grows [of ?rt] by simp
  from assms show ?thesis
  proof (cases rule: process_update_shape)
    case new
    with enroll_grows [OF new] enroll_fields(4) [OF new] kept show ?thesis
      by (simp add: saves_grow_def)
  qed (use kept in \<open>simp_all add: saves_grow_def\<close>)
qed

lemma files_advance:
  assumes "files_inv sys cfg s0 s" and "saves_grow (bg_runtime s) rt'"
  shows "files_inv sys cfg s0 (advance sys cfg now rt' s)"
  using assms
  by (auto simp: files_inv_def saves_grow_def new_saves_def save_all_append saves_append saves_registry_map saves_cache_map prefix_def)

lemma files_inv_cong:
  "bg_store s' = bg_store s \<Longrightarrow> bg_saved s' = bg_saved s \<Longrightarrow>
     rt_registry_saves (bg_runtime s') = rt_registry_saves (bg_runtime s) \<Longrightarrow>
     rt_cache_saves (bg_runtime s') = rt_cache_saves (bg_runtime s) \<Longrightarrow> files_inv sys cfg s0 s' = files_inv sys cfg s0 s"
  by (simp add: files_inv_def)

lemma step_files:
  "bridge_step sys conv cfg t0 t1 s s' \<Longrightarrow> files_inv sys cfg s0 s \<Longrightarrow> files_inv sys cfg s0 s'"
proof (induction rule: bridge_step.induct)
  case (initial s u us ck rt')
  with files_advance [OF initial(4)] initial_grows show ?case
    by (subst files_inv_cong [of _ "advance sys cfg (ck_apply ck) rt' s"]) simp_all
next
  case (consume s u ck rt')
  with files_advance [OF consume(4) update_grows [OF consume(3)]] show ?case
    by (subst files_inv_cong [of _ "advance sys cfg (ck_apply ck) rt' s"]) simp_all
next
  case (watchdog s s')
  then show ?case
    by (elim watchdog_stepE) (simp add: files_inv_def put_brush_def)
qed (simp_all add: files_inv_def)

subsection \<open>Readings of the clock\<close>

definition timely :: "time \<Rightarrow> time \<Rightarrow> bridge \<Rightarrow> bool" where
  "timely t0 t1 s \<longleftrightarrow> (\<forall>(ck, u) \<in> set (bg_restored s) \<union> set (bg_consumed s). t0 \<le> ck_merge ck \<and> ck_merge ck \<le> t1)"

lemma step_timely: "bridge_step sys conv cfg t0 t1 s s' \<Longrightarrow> timely t0 t1 s \<Longrightarrow> timely t0 t1 s'"
  by (induction rule: bridge_step.induct) (auto simp: timely_def readings_def elim!: watchdog_stepE)

lemma timely_unix:
  assumes "timely t0 t1 s" and "in_i64 (unix t0)" and "in_i64 (unix t1)"
    and "(ck, u) \<in> set (bg_restored s) \<union> set (bg_consumed s)"
  shows "in_i64 (unix (ck_merge ck))"
proof -
  have "unix t0 \<le> unix (ck_merge ck)" and "unix (ck_merge ck) \<le> unix t1"
    using assms(1,4) by (auto simp: timely_def unix_def intro!: zdiv_mono1)
  with assms(2,3) show ?thesis
    by (auto simp: in_i64_def)
qed

end
