(* ===== verification/Bridge_Life.thy ===== *)
theory Bridge_Life
  imports Bridge_Runs
begin

section \<open>A life of the process\<close>

text \<open>
  From the files that \<^verbatim>\<open>run\<close> found, through a successful start, to any state that the goroutines
  and timers reach from there; and what holds in every such state.
\<close>

definition bridge_life ::
  "system \<Rightarrow> (f64 \<Rightarrow> int) \<Rightarrow> go_string \<Rightarrow> select_event list \<Rightarrow> time \<Rightarrow> time \<Rightarrow> store \<Rightarrow> started \<Rightarrow> store \<Rightarrow> bridge \<Rightarrow> bool" where
  "bridge_life sys conv configPath es t0 t1 s st s1 b \<longleftrightarrow>
     (\<exists>reads now b0. run_start sys reads now configPath es s = Some (Inr st, s1) \<and> received conv es
        \<and> bridge_begins conv now st s1 b0 \<and> (bridge_step sys conv (sp_config st) t0 t1)\<^sup>*\<^sup>* b0 b)"

subsection \<open>The start\<close>

definition kept_received :: "(f64 \<Rightarrow> int) \<Rightarrow> discovery_state \<Rightarrow> bool" where
  "kept_received conv s \<longleftrightarrow> (\<forall>u \<in> ran (di_initial s). from_message conv u)"

lemma kept_received_upd:
  "kept_received conv s \<Longrightarrow> from_message conv u \<Longrightarrow> kept_received conv (s\<lparr>di_initial := (di_initial s)(k \<mapsto> u)\<rparr>)"
  by (auto simp: kept_received_def ran_def)

lemma discover_update_kept:
  assumes "discover_update mode now u s = Some (s', b)" and "kept_received conv s" and "from_message conv u"
  shows "kept_received conv s'"
proof -
  have kept: "di_initial s' = di_initial s \<or> di_initial s' = (di_initial s)(updateIdentity u \<mapsto> u)"
    using assms(1) by (auto simp: discover_update_def Let_def split: if_splits prod.splits option.splits)
  with kept_received_upd [OF assms(2,3)] assms(2) show ?thesis
    by (auto simp: kept_received_def)
qed

lemma received_Cons:
  "received conv (Received now u # es) \<longleftrightarrow> from_message conv u \<and> received conv es"
  "received conv (WindowElapsed # es) \<longleftrightarrow> received conv es"
  by (auto simp: received_def)

lemma discover_loop_kept:
  "discover_loop mode s es = Some s' \<Longrightarrow> kept_received conv s \<Longrightarrow> received conv es \<Longrightarrow> kept_received conv s'"
proof (induction mode s es rule: discover_loop.induct)
  case (4 mode s now u es)
  obtain x where "discover_update mode now u s = Some x"
    using "4.prems"(1) by (auto split: option.splits)
  then obtain s1 b where s1: "discover_update mode now u s = Some (s1, b)"
    by (cases x) simp
  with "4.prems" discover_update_kept [OF s1] have "kept_received conv s1"
    by (simp add: received_Cons)
  with s1 "4.IH" [OF s1 refl] "4.prems" show ?case
    by (cases b) (simp_all add: received_Cons)
qed (auto simp: received_Cons split: if_splits)

lemma discoverDevices_kept:
  assumes "discoverDevices cfg dd ds es = Some d" and "received conv es"
  shows "kept_received conv d"
proof -
  have none: "kept_received conv s" if "di_initial s = Map.empty" for s
    using that by (simp add: kept_received_def)
  show ?thesis
    using assms discover_loop_kept [OF _ none]
    by (fastforce simp: discoverDevices_def Let_def intro: none split: if_splits)
qed

text \<open>The parts of a successful start.\<close>

lemma run_start_parts:
  assumes "run_start sys reads now configPath es s = Some (Inr st, s1)"
  obtains cfg created saved d changed m s0 where "LoadOrCreate sys reads configPath s = Some (Inr (cfg, created), s0)"
    and "start_devices sys now cfg created es s0 = Some (Inr st, s1)"
    and "find_devices cfg saved es = Some (d, changed)" and "st = start_accessories now cfg created d m"
proof -
  obtain cfg created s0 where load: "LoadOrCreate sys reads configPath s = Some (Inr (cfg, created), s0)"
    and start: "start_devices sys now cfg created es s0 = Some (Inr st, s1)"
    using assms by (auto simp: run_start_def split: option.splits sum.splits)
  moreover obtain saved d changed m where "find_devices cfg saved es = Some (d, changed)"
      "st = start_accessories now cfg created d m"
    using start by (auto simp: start_devices_def split: sum.splits prod.splits option.splits if_splits)
  ultimately show ?thesis
    using that by blast
qed

lemma run_start_kept:
  assumes "run_start sys reads now configPath es s = Some (Inr st, s1)" and "received conv es"
  shows "\<forall>u \<in> ran (sp_initial st). from_message conv u"
proof (rule run_start_parts [OF assms(1)])
  fix cfg created saved d changed m
  assume "find_devices cfg saved es = Some (d, changed)" and st: "st = start_accessories now cfg created d m"
  then obtain ds where "discoverDevices cfg (NewDeduplicator (10 * minute)) ds es = Some d"
    by (auto simp: find_devices_def split: option.splits)
  from discoverDevices_kept [OF this assms(2)] show ?thesis
    by (simp add: st start_accessories_def kept_received_def Let_def split: prod.split)
qed

lemma run_start_ready:
  assumes "run_start sys reads now configPath es s = Some (Inr st, s1)"
    and "length (sp_devices st) + length es < 2147483646"
  shows "ready {} (sp_devices st)"
proof (rule run_start_parts [OF assms(1)])
  fix cfg created saved d changed m
  assume find: "find_devices cfg saved es = Some (d, changed)" and st: "st = start_accessories now cfg created d m"
  show ?thesis
  proof (cases "di_devices d = []")
    case True
    then show ?thesis
      by (simp add: st ready_def)
  next
    case False
    with find_devices_prepared(1) [OF find] assms(2) show ?thesis
      by (simp add: st ready_sort)
  qed
qed

text \<open>What holds at the start.\<close>

lemma bridge_start_fields [simp]:
  "bg_handling (bridge_start st initial hs q t s) = hs" "bg_queue (bridge_start st initial hs q t s) = q"
  "bg_initial (bridge_start st initial hs q t s) = initial" "bg_taken (bridge_start st initial hs q t s) = None"
  "bg_runtime (bridge_start st initial hs q t s) = start_runtime st" "bg_closed (bridge_start st initial hs q t s) = {}"
  "bg_callbacks (bridge_start st initial hs q t s) = (\<lambda>_. [])" "bg_clock (bridge_start st initial hs q t s) = t"
  "bg_store (bridge_start st initial hs q t s) = s" "bg_arrived (bridge_start st initial hs q t s) = q_updates q @ hs"
  "bg_restored (bridge_start st initial hs q t s) = []" "bg_consumed (bridge_start st initial hs q t s) = []"
  "bg_saved (bridge_start st initial hs q t s) = []"
  by (simp_all add: bridge_start_def)

definition books_inv :: "system \<Rightarrow> (f64 \<Rightarrow> int) \<Rightarrow> config \<Rightarrow> time \<Rightarrow> time \<Rightarrow> started \<Rightarrow> store \<Rightarrow> update list \<Rightarrow> bridge \<Rightarrow> bool" where
  "books_inv sys conv cfg t0 t1 st s1 initial b \<longleftrightarrow> from_messages conv b \<and> length (q_updates (bg_queue b)) \<le> queue_capacity
     \<and> in_order b \<and> kept_first initial b \<and> refines cfg (start_runtime st) b \<and> files_inv sys cfg s1 b \<and> timely t0 t1 b"

lemma begins_books:
  assumes "bridge_begins conv now st s1 b" and "\<forall>u \<in> ran (sp_initial st). from_message conv u"
  shows "books_inv sys conv cfg t0 t1 st s1 (bg_initial b) b" and "set (bg_initial b) = ran (sp_initial st)"
proof -
  obtain keys hs q t where b: "b = bridge_start st (map (the \<circ> sp_initial st) keys) hs q t s1"
    and keys: "set keys = dom (sp_initial st)" and q: "length (q_updates q) \<le> queue_capacity"
    and us: "\<forall>u \<in> set hs \<union> set (q_updates q). from_message conv u"
    using assms(1) by (auto simp: bridge_begins_def)
  show initial: "set (bg_initial b) = ran (sp_initial st)"
    using keys by (auto simp: b ran_def image_iff) force+
  have "from_messages conv b"
    using us initial assms(2) by (auto simp: from_messages_def b)
  with q show "books_inv sys conv cfg t0 t1 st s1 (bg_initial b) b"
    by (simp add: books_inv_def b in_order_def taken_list_def kept_first_def refines_def files_inv_def timely_def
        consumer_run_def start_runtime_def)
qed

lemma step_books:
  "bridge_step sys conv cfg t0 t1 s s' \<Longrightarrow> books_inv sys conv cfg t0 t1 st s1 initial s \<Longrightarrow>
     books_inv sys conv cfg t0 t1 st s1 initial s'"
  unfolding books_inv_def
  by (elim conjE, intro conjI)
     (rule step_from_messages step_queue_bound step_in_order step_kept_first step_refines step_files step_timely; assumption)+

interpretation books: preserved "bridge_step sys conv cfg t0 t1" "books_inv sys conv cfg t0 t1 st s1 initial"
  for sys conv cfg t0 t1 st s1 initial
  by unfold_locales (rule step_books)

lemma life_books:
  assumes "bridge_life sys conv configPath es t0 t1 s st s1 b"
  obtains initial where "set initial = ran (sp_initial st)"
    and "books_inv sys conv (sp_config st) t0 t1 st s1 initial b"
proof -
  obtain reads now b0 where run: "run_start sys reads now configPath es s = Some (Inr st, s1)" "received conv es"
    and begins: "bridge_begins conv now st s1 b0" and reach: "(bridge_step sys conv (sp_config st) t0 t1)\<^sup>*\<^sup>* b0 b"
    using assms by (auto simp: bridge_life_def)
  note start = begins_books [OF begins run_start_kept [OF run]]
  have "books_inv sys conv (sp_config st) t0 t1 st s1 (bg_initial b0) b"
    by (rule books.run_inv [OF reach start(1)])
  with start(2) that show ?thesis
    by blast
qed

subsection \<open>Toothbrushes\<close>

lemma restored_brushes:
  assumes "valid_cache m" and "\<forall>a \<in> set as. \<forall>t. a = ToothbrushAccessory t \<longrightarrow> t = NewToothbrush (t_device t)"
    and "ToothbrushAccessory t \<in> set (fst (restoreCachedMeasurements now as m))"
  shows "brush_reachable (t_device t) now \<lparr>bsys_brush = t, bsys_callbacks = [], bsys_clock = now, bsys_closed = False\<rparr>"
  using assms(2,3)
proof (induction as)
  case (Cons a as)
  have new: "brush_reachable d now \<lparr>bsys_brush = NewToothbrush d, bsys_callbacks = [], bsys_clock = now, bsys_closed = False\<rparr>" for d
    using brush_reachable_init [of d now] by (simp add: init_sys_def)
  obtain as' n where rest: "restoreCachedMeasurements now as m = (as', n)"
    by fastforce
  show ?case
  proof (cases "ToothbrushAccessory t \<in> set as'")
    case True
    with Cons rest show ?thesis
      by simp
  next
    case False
    show ?thesis
    proof (cases "Restore (DeviceConfig a) m")
      case None
      with Cons.prems rest False have "t = NewToothbrush (t_device t)"
        by auto
      with new [of "t_device t"] show ?thesis
        by simp
    next
      case (Some x)
      then obtain v since where x: "Restore (DeviceConfig a) m = Some (v, since)"
        by (cases x) auto
      with Cons.prems(2) rest False have "accessory_Apply now v a = ToothbrushAccessory t"
        by simp
      then obtain t' where a: "a = ToothbrushAccessory t'" "t = toothbrush_Apply now v t'"
        by (cases a) auto
      have "t' = NewToothbrush (t_device t')" and "t_device t' = t_device t"
        using Cons.prems(1) a by (auto simp: toothbrush_laws)
      then have t: "t = toothbrush_Apply now v (NewToothbrush (t_device t))"
        using a(2) by metis
      have "brush_reachable d now \<lparr>bsys_brush = toothbrush_Apply now v (NewToothbrush d), bsys_callbacks = [],
          bsys_clock = now, bsys_closed = False\<rparr>" for d
        using brush_reachable_step [OF new brush_step.apply_update [OF Restore_valid [OF assms(1) x]]] by simp
      with t show ?thesis
        by metis
    qed
  qed
qed simp

lemma made_brushes:
  "a \<in> set (make_accessories ds) \<Longrightarrow> a = ToothbrushAccessory t \<Longrightarrow> t = NewToothbrush (t_device t)"
  by (induction ds)
     (auto simp: make_accessories_Cons NewDeviceAccessory_eq NewToothbrush_def make_accessories_def
       List.map_filter_simps(2) split: if_splits sum.splits)

lemma begins_brushes:
  assumes "run_start sys reads now configPath es s = Some (Inr st, s1)" and "bridge_begins conv now st s1 b"
    and "valid_cache (sp_measurements st)" and "brush_at i (bg_runtime b) = Some t"
  shows "brush_reachable (t_device t) now (brush_sys_of i t b)"
proof -
  obtain d m cfg created where "st = start_accessories now cfg created d m"
    by (rule run_start_parts [OF assms(1)])
  then have as: "sp_accessories st = fst (restoreCachedMeasurements now
      (make_accessories (sort_key deviceKey (di_devices d))) (sp_measurements st))"
    by (simp add: start_accessories_def Let_def split: prod.split)
  have b: "now \<le> bg_clock b" "bg_callbacks b = (\<lambda>_. [])" "bg_closed b = {}"
    "rt_accessories (bg_runtime b) = sp_accessories st"
    using assms(2) by (auto simp: bridge_begins_def start_runtime_def)
  have "ToothbrushAccessory t \<in> set (sp_accessories st)"
    using assms(4) b(4) by (metis brush_at_Some nth_mem)
  from restored_brushes [OF assms(3) _ this [unfolded as]] made_brushes
  have "brush_reachable (t_device t) now \<lparr>bsys_brush = t, bsys_callbacks = [], bsys_clock = now, bsys_closed = False\<rparr>"
    by blast
  from brush_reachable_step [OF this brush_elapses [OF b(1)]] show ?thesis
    by (simp add: brush_sys_of_def b)
qed

text \<open>So every toothbrush of the bridge is one of \<open>Toothbrush_Watchdog\<close>.\<close>

lemma life_brushes:
  assumes "bridge_life sys conv configPath es t0 t1 s st s1 b" and "valid_cache (sp_measurements st)"
    and "brush_at i (bg_runtime b) = Some t"
  obtains d now where "brush_reachable d now (brush_sys_of i t b)"
proof -
  obtain reads now b0 where run: "run_start sys reads now configPath es s = Some (Inr st, s1)" "received conv es"
    and begins: "bridge_begins conv now st s1 b0" and reach: "(bridge_step sys conv (sp_config st) t0 t1)\<^sup>*\<^sup>* b0 b"
    using assms(1) by (auto simp: bridge_life_def)
  have from_b0: "from_messages conv b0"
    using begins_books(1) [OF begins run_start_kept [OF run]] by (simp add: books_inv_def)
  obtain d x where x: "brush_of conv i x b0" "brush_reachable d now x"
  proof (cases "brush_at i (bg_runtime b0)")
    case None
    with from_b0 that [OF _ brush_reachable_init] show thesis
      by (simp add: brush_of_def)
  next
    case (Some t0)
    with from_b0 that [OF _ begins_brushes [OF run(1) begins assms(2) Some]] show thesis
      by (simp add: brush_of_def)
  qed
  from brush_runs.run_sim_inv [OF reach x] that assms(3) show ?thesis
    by (auto simp: brush_of_def)
qed

subsection \<open>What the runtime holds\<close>

lemma life_refines:
  assumes "bridge_life sys conv configPath es t0 t1 s st s1 b"
  obtains rt where "consumer_run (sp_config st) (measurement_path (sp_config st)) (bg_restored b) (bg_consumed b)
      (start_runtime st) = Some rt" and "same_books rt (bg_runtime b)"
  using life_books [OF assms] by (metis books_inv_def refines_def)

lemma same_books_fields:
  assumes "same_books rt r"
  shows "rt_devices r = rt_devices rt" "rt_measurements r = rt_measurements rt" "rt_unknown r = rt_unknown rt"
    "rt_registry_saves r = rt_registry_saves rt" "rt_cache_saves r = rt_cache_saves rt" "rt_dedup r = rt_dedup rt"
    "map DeviceConfig (rt_accessories r) = map DeviceConfig (rt_accessories rt)"
  using assms by (auto simp: same_books_def alike_all_config)

text \<open>Every update it has worked on came from some message.\<close>

lemma life_messages:
  assumes "bridge_life sys conv configPath es t0 t1 s st s1 b"
  shows "\<forall>(ck, u) \<in> set (bg_restored b) \<union> set (bg_consumed b). from_message conv u"
proof -
  have "from_messages conv b"
    using life_books [OF assms] by (metis books_inv_def)
  then show ?thesis
    by (auto simp: from_messages_def) (metis UnI1 UnI2 image_eqI snd_conv)+
qed

lemma life_devices:
  assumes "bridge_life sys conv configPath es t0 t1 s st s1 b"
  shows "devices_inv (bg_runtime b)"
proof -
  obtain reads now where run: "run_start sys reads now configPath es s = Some (Inr st, s1)" "received conv es"
    using assms by (auto simp: bridge_life_def)
  obtain rt where rt: "consumer_run (sp_config st) (measurement_path (sp_config st)) (bg_restored b) (bg_consumed b)
      (start_runtime st) = Some rt" and books: "same_books rt (bg_runtime b)"
    by (rule life_refines [OF assms])
  have "devices_inv rt"
    using life_messages [OF assms] by (intro consumer_run_devices [OF run rt]) auto
  then show ?thesis
    by (simp add: devices_inv_def same_books_fields [OF books])
qed

lemma life_cache:
  assumes "bridge_life sys conv configPath es t0 t1 s st s1 b" and "in_i64 (unix t0)" and "in_i64 (unix t1)"
  shows "caches_inv storable_cache (bg_runtime b)"
proof -
  obtain reads now where run: "run_start sys reads now configPath es s = Some (Inr st, s1)" "received conv es"
    using assms(1) by (auto simp: bridge_life_def)
  obtain rt where rt: "consumer_run (sp_config st) (measurement_path (sp_config st)) (bg_restored b) (bg_consumed b)
      (start_runtime st) = Some rt" and books: "same_books rt (bg_runtime b)"
    by (rule life_refines [OF assms(1)])
  have timely: "timely t0 t1 b"
    using life_books [OF assms(1)] by (metis books_inv_def)
  have "caches_inv storable_cache rt"
    using life_messages [OF assms(1)] timely_unix [OF timely assms(2,3)]
    by (intro consumer_run_cache [OF run rt]) auto
  then show ?thesis
    by (simp add: caches_inv_def same_books_fields [OF books])
qed

text \<open>With plain addresses the keys of the cache stay normal, too.\<close>

interpretation named: merge_law keys_normal "\<lambda>ck u. valid_update u \<and> plain_mac (u_mac u)"
  by unfold_locales (auto elim: Merge_keys_normal [OF valid_finite_values])

lemma life_keys:
  assumes "bridge_life sys conv configPath es t0 t1 s st s1 b" and "keys_normal (sp_measurements st)"
    and "\<forall>(ck, u) \<in> set (bg_restored b) \<union> set (bg_consumed b). plain_mac (u_mac u)"
  shows "caches_inv keys_normal (bg_runtime b)"
proof -
  obtain rt where rt: "consumer_run (sp_config st) (measurement_path (sp_config st)) (bg_restored b) (bg_consumed b)
      (start_runtime st) = Some rt" and books: "same_books rt (bg_runtime b)"
    by (rule life_refines [OF assms(1)])
  have "caches_inv keys_normal (start_runtime st)"
    using assms(2) by (simp add: caches_inv_def start_runtime_def)
  from named.run_keeps [OF rt this] life_messages [OF assms(1)] assms(3) from_message_valid(1)
  have "caches_inv keys_normal rt"
    by blast
  then show ?thesis
    by (simp add: caches_inv_def same_books_fields [OF books])
qed

text \<open>A cache that was in range when it was loaded stays in range.\<close>

lemma life_in_range:
  assumes "bridge_life sys conv configPath es t0 t1 s st s1 b" and "valid_cache (sp_measurements st)"
  shows "caches_inv valid_cache (bg_runtime b)"
proof -
  obtain rt where rt: "consumer_run (sp_config st) (measurement_path (sp_config st)) (bg_restored b) (bg_consumed b)
      (start_runtime st) = Some rt" and books: "same_books rt (bg_runtime b)"
    by (rule life_refines [OF assms(1)])
  have "caches_inv valid_cache (start_runtime st)"
    using assms(2) by (simp add: caches_inv_def start_runtime_def)
  from in_range.run_keeps [OF rt this] life_messages [OF assms(1)] from_message_valid(1)
  have "caches_inv valid_cache rt"
    by blast
  then show ?thesis
    by (simp add: caches_inv_def same_books_fields [OF books])
qed

subsection \<open>The invariant of the whole bridge\<close>

lemma restored_ok:
  "valid_cache m \<Longrightarrow> \<forall>a \<in> set as. accessory_ok a \<Longrightarrow>
     \<forall>a \<in> set (fst (restoreCachedMeasurements now as m)). accessory_ok a"
  by (induction as) (auto simp: acc.ok_app dest: Restore_valid split: prod.split option.splits)

lemma process_initial_inv:
  assumes "runtime_inv confs ds rt" and "valid_update u"
  shows "runtime_inv confs ds (process_initial path ck u rt)"
proof -
  have "runtime_inv confs ds (apply_at now u i rt)" for now i
  proof (cases "i < length (rt_accessories rt)")
    case True
    then have "accessory_ok (accessory_Apply now u (rt_accessories rt ! i))"
      using assms by (simp add: acc.ok_app runtime_inv_def)
    with assms(1) apply_at_config [of now u i rt] show ?thesis
      by (auto simp: runtime_inv_def simp del: apply_at_config dest!: set_update_subset_insert [THEN subsetD])
  qed (use assms(1) in \<open>simp add: runtime_inv_def list_update_beyond\<close>)
  moreover have "runtime_inv confs ds (persistMeasurements path now u r) = runtime_inv confs ds r" for now r
    by (simp add: runtime_inv_def)
  ultimately show ?thesis
    using assms(1) by (simp add: process_initial_def split: option.split)
qed

lemma start_runtime_inv:
  assumes "run_start sys reads now configPath es s = Some (Inr st, s1)" and "valid_cache (sp_measurements st)"
    and "length (sp_devices st) + length es < 2147483646"
  shows "runtime_inv (map DeviceConfig (sp_accessories st)) (sp_devices st) (start_runtime st)"
proof (rule run_start_parts [OF assms(1)])
  fix cfg created saved d changed m
  assume st: "st = start_accessories now cfg created d m"
  have "\<forall>a \<in> set (sp_accessories st). accessory_ok a"
    using restored_ok [OF assms(2), of "make_accessories (sp_devices st)" now] make_accessories_ok [of _ "sp_devices st"]
    by (simp add: st start_accessories_def Let_def split: prod.splits)
  with run_start_ready [OF assms(1,3)] show ?thesis
    by (simp add: runtime_inv_def start_runtime_def)
qed

lemma consumer_run_inv:
  assumes "runtime_inv confs ds rt" and "\<forall>(ck, u) \<in> set initial \<union> set us. valid_update u"
    and "length (rt_devices rt) + length us < 2147483646"
  shows "\<exists>rt'. consumer_run cfg path initial us rt = Some rt' \<and> runtime_inv confs ds rt'"
proof -
  let ?r = "foldl (\<lambda>rt (ck, u). process_initial path ck u rt) rt initial"
  have "runtime_inv confs ds ?r"
    by (rule foldl_invariant [where P = "runtime_inv confs ds", OF assms(1)])
       (use assms(2) in \<open>auto intro!: process_initial_inv\<close>)
  then show ?thesis
    using process_run_inv [of confs ds ?r us] assms(2,3) by (simp add: consumer_run_def initial_keeps_devices)
qed

lemma alike_ok:
  assumes "same_books rt r" and "\<forall>a \<in> set (rt_accessories rt). accessory_ok a"
    and "\<And>i t. brush_at i r = Some t \<Longrightarrow> motion_inv t"
  shows "\<forall>a \<in> set (rt_accessories r). accessory_ok a"
proof
  fix a
  assume "a \<in> set (rt_accessories r)"
  then obtain i where i: "i < length (rt_accessories r)" "a = rt_accessories r ! i"
    unfolding in_set_conv_nth by blast
  show "accessory_ok a"
  proof (cases a)
    case (SensorAccessory x)
    have "list_all2 alike (rt_accessories rt) (rt_accessories r)"
      using assms(1) by (auto simp: same_books_def)
    with i(1) have near: "alike (rt_accessories rt ! i) a" and len: "i < length (rt_accessories rt)"
      unfolding i(2) by (simp_all add: list_all2_nthD2 list_all2_lengthD)
    with SensorAccessory have "rt_accessories rt ! i = a"
      by (cases "rt_accessories rt ! i") auto
    with assms(2) nth_mem [OF len] show ?thesis
      by metis
  next
    case (ToothbrushAccessory t)
    with i have "brush_at i r = Some t"
      by (simp add: brush_at_Some)
    with ToothbrushAccessory assms(3) show ?thesis
      by simp
  qed
qed

lemma life_inv:
  assumes "bridge_life sys conv configPath es t0 t1 s st s1 b" and "valid_cache (sp_measurements st)"
    and "length (sp_devices st) + length es + length (bg_consumed b) < 2147483646"
  shows "runtime_inv (map DeviceConfig (sp_accessories st)) (sp_devices st) (bg_runtime b)"
proof -
  let ?confs = "map DeviceConfig (sp_accessories st)"
  obtain reads now where run: "run_start sys reads now configPath es s = Some (Inr st, s1)"
    using assms(1) by (auto simp: bridge_life_def)
  obtain rt where rt: "consumer_run (sp_config st) (measurement_path (sp_config st)) (bg_restored b) (bg_consumed b)
      (start_runtime st) = Some rt" and books: "same_books rt (bg_runtime b)"
    by (rule life_refines [OF assms(1)])
  have "runtime_inv ?confs (sp_devices st) (start_runtime st)"
    using assms(3) by (intro start_runtime_inv [OF run assms(2)]) simp
  moreover have "\<forall>(ck, u) \<in> set (bg_restored b) \<union> set (bg_consumed b). valid_update u"
    using life_messages [OF assms(1)] from_message_valid(1) by blast
  moreover have "length (rt_devices (start_runtime st)) + length (bg_consumed b) < 2147483646"
    using assms(3) by (simp add: start_runtime_def)
  ultimately have "\<exists>rt'. consumer_run (sp_config st) (measurement_path (sp_config st)) (bg_restored b) (bg_consumed b)
      (start_runtime st) = Some rt' \<and> runtime_inv ?confs (sp_devices st) rt'"
    by (rule consumer_run_inv)
  with rt have inv: "runtime_inv ?confs (sp_devices st) rt"
    by auto
  have "motion_inv t" if brush: "brush_at i (bg_runtime b) = Some t" for i t
  proof -
    obtain d now' where "brush_reachable d now' (brush_sys_of i t b)"
      by (rule life_brushes [OF assms(1,2) brush])
    from reachable_motion [OF this] show ?thesis
      by (simp add: brush_sys_of_def)
  qed
  with alike_ok [OF books] inv have "\<forall>a \<in> set (rt_accessories (bg_runtime b)). accessory_ok a"
    by (simp add: runtime_inv_def)
  with inv show ?thesis
    by (simp add: runtime_inv_def same_books_fields [OF books])
qed

end
