(* ===== verification/Bridge_Progress.thy ===== *)
theory Bridge_Progress
  imports Bridge_Life
begin

section \<open>Progress of the whole bridge\<close>

text \<open>
  What can happen from any state of a life of the process: the timers alone can end an abandoned
  session, and the consumer alone can work through everything that has arrived.
\<close>

lemma life_step:
  "bridge_life sys conv configPath es t0 t1 s st s1 b \<Longrightarrow> bridge_step sys conv (sp_config st) t0 t1 b b' \<Longrightarrow>
     bridge_life sys conv configPath es t0 t1 s st s1 b'"
  unfolding bridge_life_def by (blast intro: rtranclp.rtrancl_into_rtrancl)

lemma life_steps:
  "(bridge_step sys conv (sp_config st) t0 t1)\<^sup>*\<^sup>* b b' \<Longrightarrow> bridge_life sys conv configPath es t0 t1 s st s1 b \<Longrightarrow>
     bridge_life sys conv configPath es t0 t1 s st s1 b'"
  by (induction rule: rtranclp_induct) (auto intro: life_step)

subsection \<open>The timers\<close>

lemma timer_steps_env: "timer_step\<^sup>*\<^sup>* x y \<Longrightarrow> bsys_clock y = bsys_clock x \<and> bsys_closed y = bsys_closed x"
  by (induction rule: rtranclp_induct) (auto elim: timer_stepE)

lemma put_brush_at:
  assumes "brush_at i (bg_runtime s) = Some t" and "bsys_clock y = bg_clock s" and "bsys_closed y = (i \<in> bg_closed s)"
  shows "brush_at i (bg_runtime (put_brush i y s)) = Some (bsys_brush y)"
    and "brush_sys_of i (bsys_brush y) (put_brush i y s) = y"
    and "put_brush i z (put_brush i y s) = put_brush i z s"
  using assms by (simp_all add: brush_at_Some brush_sys_of_def put_brush_def)

lemma watchdog_steps:
  assumes "timer_step\<^sup>*\<^sup>* (brush_sys_of i t s) y" and "brush_at i (bg_runtime s) = Some t"
  shows "watchdog_step\<^sup>*\<^sup>* s (put_brush i y s)"
  using assms(1)
proof (induction rule: rtranclp_induct)
  case base
  have "(rt_accessories (bg_runtime s))[i := ToothbrushAccessory t] = rt_accessories (bg_runtime s)"
    using assms(2) list_update_id [of "rt_accessories (bg_runtime s)" i] by (simp add: brush_at_Some)
  then have "put_brush i (brush_sys_of i t s) s = s"
    by (simp add: put_brush_def brush_sys_of_def)
  then show ?case
    by simp
next
  case (step y z)
  have env: "bsys_clock y = bg_clock s" "bsys_closed y = (i \<in> bg_closed s)"
    using timer_steps_env [OF step(1)] by (simp_all add: brush_sys_of_def)
  note put = put_brush_at [OF assms(2) env]
  have "watchdog_step (put_brush i y s) (put_brush i z (put_brush i y s))"
    using step(2) by (intro watchdog_step.intros [OF put(1)]) (simp add: put(2))
  with step(3) put(3) show ?case
    by simp
qed

lemma watchdog_can_end:
  assumes "brush_reachable d now (brush_sys_of i t s)" and "brush_at i (bg_runtime s) = Some t"
    and "i \<notin> bg_closed s" and "t_active t" and "t_last_activity t = Some la" and "la + toothbrushWatchdog \<le> bg_clock s"
  shows "\<exists>s' t'. watchdog_step\<^sup>*\<^sup>* s s' \<and> brush_at i (bg_runtime s') = Some t' \<and> \<not> t_active t' \<and> t_motion t' = Some False
    \<and> bg_clock s' = bg_clock s \<and> (\<forall>j. j \<noteq> i \<longrightarrow> rt_accessories (bg_runtime s') ! j = rt_accessories (bg_runtime s) ! j)"
proof -
  have sys: "bsys_brush (brush_sys_of i t s) = t" "bsys_clock (brush_sys_of i t s) = bg_clock s"
    "bsys_closed (brush_sys_of i t s) = (i \<in> bg_closed s)"
    by (simp_all add: brush_sys_of_def)
  have "guarded t (bsys_callbacks (brush_sys_of i t s)) (bg_clock s)"
    using reachable_watch [OF assms(1)] assms(3,4) by (simp add: watch_inv_def sys)
  then obtain y where y: "timer_step\<^sup>*\<^sup>* (brush_sys_of i t s) y" "\<not> t_active (bsys_brush y)" "t_motion (bsys_brush y) = Some False"
    using guarded_can_end [of "brush_sys_of i t s" la] assms(4-6) unfolding sys by blast
  have env: "bsys_clock y = bg_clock s" "bsys_closed y = (i \<in> bg_closed s)"
    using timer_steps_env [OF y(1)] by (simp_all add: sys)
  show ?thesis
    using watchdog_steps [OF y(1) assms(2)] put_brush_at(1) [OF assms(2) env] y(2,3)
    by (intro exI [of _ "put_brush i y s"] exI [of _ "bsys_brush y"]) (simp add: put_brush_def)
qed

subsection \<open>The consumer\<close>

lemma process_run_ready:
  assumes "process_run cfg path us rt = Some rt'" and "ready {} (rt_devices rt)"
    and "length (rt_devices rt) + length us < 2147483646"
  shows "ready {} (rt_devices rt') \<and> length (rt_devices rt') \<le> length (rt_devices rt) + length us"
  using assms
proof (induction us arbitrary: rt)
  case (Cons x us)
  obtain ck u where x: "x = (ck, u)"
    by fastforce
  obtain r where r: "process_update cfg path ck u rt = Some r" and run: "process_run cfg path us r = Some rt'"
    using Cons.prems(1) x by (auto split: option.splits)
  have len: "length (rt_devices rt) < 2147483646"
    using Cons.prems(3) by simp
  obtain es where "ready {} (rt_devices r)" and "rt_devices r = rt_devices rt @ es" "length es \<le> 1"
    using process_update_total [OF Cons.prems(2) len, of cfg path ck u] r by auto
  with Cons.IH [OF run] Cons.prems(3) show ?case
    by auto
qed simp

lemma life_ready:
  assumes "bridge_life sys conv configPath es t0 t1 s st s1 b"
    and "length (sp_devices st) + length es + length (bg_consumed b) < 2147483646"
  shows "ready {} (rt_devices (bg_runtime b))"
    and "length (rt_devices (bg_runtime b)) \<le> length (sp_devices st) + length (bg_consumed b)"
proof -
  obtain reads now where run: "run_start sys reads now configPath es s = Some (Inr st, s1)"
    using assms(1) by (auto simp: bridge_life_def)
  obtain rt where rt: "consumer_run (sp_config st) (measurement_path (sp_config st)) (bg_restored b) (bg_consumed b)
      (start_runtime st) = Some rt" and books: "same_books rt (bg_runtime b)"
    by (rule life_refines [OF assms(1)])
  have "ready {} (sp_devices st)"
    using assms(2) by (intro run_start_ready [OF run]) simp
  with process_run_ready [OF rt [unfolded consumer_run_def]] assms(2)
  have "ready {} (rt_devices rt) \<and> length (rt_devices rt) \<le> length (sp_devices st) + length (bg_consumed b)"
    by (simp add: initial_keeps_devices start_runtime_def)
  then show "ready {} (rt_devices (bg_runtime b))"
    and "length (rt_devices (bg_runtime b)) \<le> length (sp_devices st) + length (bg_consumed b)"
    by (simp_all add: same_books_fields [OF books])
qed

definition clocks_at :: "time \<Rightarrow> clocks" where
  "clocks_at now = \<lparr>ck_classify = now, ck_merge = now, ck_apply = now\<rparr>"

lemma readings_now: "t0 \<le> now \<Longrightarrow> now \<le> t1 \<Longrightarrow> readings t0 t1 now (clocks_at now)"
  by (simp add: readings_def clocks_at_def)

text \<open>A stretch of steps of the consumer: nothing arrives, and the clock stands still.\<close>

definition worked :: "bridge \<Rightarrow> bridge \<Rightarrow> bool" where
  "worked b b' \<longleftrightarrow> bg_clock b' = bg_clock b \<and> bg_handling b' = bg_handling b \<and> bg_arrived b' = bg_arrived b
     \<and> bg_returned b' = bg_returned b"

lemma worked_trans: "worked a b \<Longrightarrow> worked b c \<Longrightarrow> worked a c"
  by (simp add: worked_def)

lemma drain_initial:
  assumes "t0 \<le> bg_clock b" and "bg_clock b \<le> t1"
  shows "\<exists>b'. (bridge_step sys conv cfg t0 t1)\<^sup>*\<^sup>* b b' \<and> worked b b' \<and> bg_initial b' = []
    \<and> bg_queue b' = bg_queue b \<and> bg_taken b' = bg_taken b \<and> bg_consumed b' = bg_consumed b"
  using assms
proof (induction "bg_initial b" arbitrary: b)
  case Nil
  then show ?case
    by (intro exI [of _ b]) (simp add: worked_def)
next
  case (Cons u us)
  let ?rt = "process_initial (measurement_path cfg) (clocks_at (bg_clock b)) u (bg_runtime b)"
  let ?b = "(advance sys cfg (ck_apply (clocks_at (bg_clock b))) ?rt b)
    \<lparr>bg_initial := us, bg_restored := bg_restored b @ [(clocks_at (bg_clock b), u)]\<rparr>"
  have step: "bridge_step sys conv cfg t0 t1 b ?b"
    using Cons(2) readings_now [OF Cons.prems] by (intro bridge_step.initial) simp_all
  have worked: "worked b ?b"
    by (simp add: worked_def clocks_at_def)
  obtain b' where rest: "(bridge_step sys conv cfg t0 t1)\<^sup>*\<^sup>* ?b b'" and b': "worked ?b b'" "bg_initial b' = []"
      "bg_queue b' = bg_queue ?b" "bg_taken b' = bg_taken ?b" "bg_consumed b' = bg_consumed ?b"
    using Cons(1) [of ?b] Cons.prems by (auto simp: clocks_at_def)
  have same: "bg_queue ?b = bg_queue b" "bg_taken ?b = bg_taken b" "bg_consumed ?b = bg_consumed b"
    by simp_all
  from step rest have "(bridge_step sys conv cfg t0 t1)\<^sup>*\<^sup>* b b'"
    by (rule converse_rtranclp_into_rtranclp)
  with worked_trans [OF worked b'(1)] b'(2-5) show ?case
    unfolding same by blast
qed

lemma consume_taken:
  assumes "bridge_life sys conv configPath es t0 t1 s st s1 b" and "bg_taken b = Some u"
    and "t0 \<le> bg_clock b" and "bg_clock b \<le> t1"
    and "length (sp_devices st) + length es + length (bg_consumed b) < 2147483646"
  shows "\<exists>b'. bridge_step sys conv (sp_config st) t0 t1 b b' \<and> worked b b' \<and> bg_initial b' = bg_initial b
    \<and> bg_queue b' = bg_queue b \<and> bg_taken b' = None \<and> map snd (bg_consumed b') = map snd (bg_consumed b) @ [u]
    \<and> process_update (sp_config st) (measurement_path (sp_config st)) (clocks_at (bg_clock b)) u (bg_runtime b) = Some (bg_runtime b')"
proof -
  have "length (rt_devices (bg_runtime b)) < 2147483646"
    using life_ready(2) [OF assms(1,5)] assms(5) by simp
  then obtain rt' where rt': "process_update (sp_config st) (measurement_path (sp_config st)) (clocks_at (bg_clock b)) u
      (bg_runtime b) = Some rt'"
    using process_update_total [OF life_ready(1) [OF assms(1,5)]] by blast
  from bridge_step.consume [OF assms(2) readings_now [OF assms(3,4)] rt'] rt' show ?thesis
    by (intro exI conjI) (assumption, simp_all add: worked_def clocks_at_def)
qed

lemma consume_next:
  assumes "bridge_life sys conv configPath es t0 t1 s st s1 b" and "bg_initial b = []" and "bg_taken b = None"
    and "\<not> bg_returned b" and "q_updates (bg_queue b) = u # us" and "t0 \<le> bg_clock b" and "bg_clock b \<le> t1"
    and "length (sp_devices st) + length es + length (bg_consumed b) < 2147483646"
  shows "\<exists>b'. (bridge_step sys conv (sp_config st) t0 t1)\<^sup>*\<^sup>* b b' \<and> worked b b' \<and> bg_initial b' = []
    \<and> bg_taken b' = None \<and> q_updates (bg_queue b') = us \<and> map snd (bg_consumed b') = map snd (bg_consumed b) @ [u]
    \<and> process_update (sp_config st) (measurement_path (sp_config st)) (clocks_at (bg_clock b)) u (bg_runtime b) = Some (bg_runtime b')"
proof -
  let ?b = "b\<lparr>bg_queue := (bg_queue b)\<lparr>q_updates := us\<rparr>, bg_taken := Some u\<rparr>"
  have step: "bridge_step sys conv (sp_config st) t0 t1 b ?b"
    using assms(2-5) by (rule bridge_step.receive)
  from consume_taken [OF life_step [OF assms(1) step], of u] assms(6-8) obtain b' where
    step': "bridge_step sys conv (sp_config st) t0 t1 ?b b'" and b': "worked ?b b'" "bg_initial b' = bg_initial ?b"
      "bg_queue b' = bg_queue ?b" "bg_taken b' = None" "map snd (bg_consumed b') = map snd (bg_consumed ?b) @ [u]"
      "process_update (sp_config st) (measurement_path (sp_config st)) (clocks_at (bg_clock b)) u (bg_runtime b) = Some (bg_runtime b')"
    by auto
  from step step' have "(bridge_step sys conv (sp_config st) t0 t1)\<^sup>*\<^sup>* b b'"
    by (meson converse_rtranclp_into_rtranclp r_into_rtranclp)
  with b' assms(2) show ?thesis
    by (intro exI [of _ b']) (simp add: worked_def)
qed

lemma drain_queue:
  assumes "bridge_life sys conv configPath es t0 t1 s st s1 b" and "bg_initial b = []" and "bg_taken b = None"
    and "\<not> bg_returned b" and "t0 \<le> bg_clock b" and "bg_clock b \<le> t1"
    and "length (sp_devices st) + length es + length (bg_consumed b) + length (q_updates (bg_queue b)) < 2147483646"
  shows "\<exists>b'. (bridge_step sys conv (sp_config st) t0 t1)\<^sup>*\<^sup>* b b' \<and> worked b b' \<and> bg_initial b' = []
    \<and> bg_taken b' = None \<and> q_updates (bg_queue b') = []
    \<and> map snd (bg_consumed b') = map snd (bg_consumed b) @ q_updates (bg_queue b)
    \<and> process_run (sp_config st) (measurement_path (sp_config st)) (map (Pair (clocks_at (bg_clock b))) (q_updates (bg_queue b)))
        (bg_runtime b) = Some (bg_runtime b')"
  using assms
proof (induction "q_updates (bg_queue b)" arbitrary: b)
  case Nil
  then show ?case
    by (intro exI [of _ b]) (simp add: worked_def)
next
  case (Cons u us)
  let ?path = "measurement_path (sp_config st)"
  have "length (sp_devices st) + length es + length (bg_consumed b) < 2147483646"
    using Cons.prems(7) by simp
  from consume_next [OF Cons.prems(1-4) Cons(2) [symmetric] Cons.prems(5,6) this] obtain b1
    where steps: "(bridge_step sys conv (sp_config st) t0 t1)\<^sup>*\<^sup>* b b1" and b1: "worked b b1" "bg_initial b1 = []"
      "bg_taken b1 = None" "q_updates (bg_queue b1) = us" "map snd (bg_consumed b1) = map snd (bg_consumed b) @ [u]"
      "process_update (sp_config st) ?path (clocks_at (bg_clock b)) u (bg_runtime b) = Some (bg_runtime b1)"
    by blast
  have len: "length (bg_consumed b1) = Suc (length (bg_consumed b))"
    using arg_cong [OF b1(5), of length] by simp
  have "length (q_updates (bg_queue b)) = Suc (length us)"
    using arg_cong [OF Cons(2), of length] by simp
  with len Cons.prems(7) b1(4) have small:
    "length (sp_devices st) + length es + length (bg_consumed b1) + length (q_updates (bg_queue b1)) < 2147483646"
    by simp
  have same: "\<not> bg_returned b1" "t0 \<le> bg_clock b1" "bg_clock b1 \<le> t1" and clock: "bg_clock b1 = bg_clock b"
    using b1(1) Cons.prems(4-6) by (simp_all add: worked_def)
  obtain b' where rest: "(bridge_step sys conv (sp_config st) t0 t1)\<^sup>*\<^sup>* b1 b'" and b': "worked b1 b'"
    "bg_initial b' = []" "bg_taken b' = None" "q_updates (bg_queue b') = []"
    "map snd (bg_consumed b') = map snd (bg_consumed b1) @ us"
    "process_run (sp_config st) ?path (map (Pair (clocks_at (bg_clock b1))) us) (bg_runtime b1) = Some (bg_runtime b')"
    using Cons(1) [OF b1(4) [symmetric] life_steps [OF steps Cons.prems(1)] b1(2,3) same small] unfolding b1(4) by blast
  have "process_run (sp_config st) ?path (map (Pair (clocks_at (bg_clock b))) (q_updates (bg_queue b))) (bg_runtime b)
      = Some (bg_runtime b')"
    using b1(6) b'(6) by (simp add: clock flip: Cons(2))
  moreover have "map snd (bg_consumed b') = map snd (bg_consumed b) @ q_updates (bg_queue b)"
    using b1(5) b'(5) by (simp flip: Cons(2))
  ultimately show ?case
    using rtranclp_trans [OF steps rest] worked_trans [OF b1(1) b'(1)] b'(2-4) by blast
qed

text \<open>All of it: the kept updates, the one in hand, and the queue.\<close>

lemma drain:
  assumes "bridge_life sys conv configPath es t0 t1 s st s1 b" and "\<not> bg_returned b"
    and "t0 \<le> bg_clock b" and "bg_clock b \<le> t1"
    and "length (sp_devices st) + length es + length (bg_consumed b) + length (q_updates (bg_queue b)) < 2147483645"
  shows "\<exists>b'. (bridge_step sys conv (sp_config st) t0 t1)\<^sup>*\<^sup>* b b' \<and> worked b b' \<and> bg_initial b' = []
    \<and> bg_taken b' = None \<and> q_updates (bg_queue b') = []
    \<and> map snd (bg_consumed b') = map snd (bg_consumed b) @ taken_list b @ q_updates (bg_queue b)"
proof -
  let ?step = "bridge_step sys conv (sp_config st) t0 t1"
  obtain b1 where b1: "?step\<^sup>*\<^sup>* b b1" "worked b b1" "bg_initial b1 = []" "bg_queue b1 = bg_queue b"
      "bg_taken b1 = bg_taken b" "bg_consumed b1 = bg_consumed b"
    using drain_initial [OF assms(3,4)] by metis
  have life1: "bridge_life sys conv configPath es t0 t1 s st s1 b1"
    using b1(1) assms(1) by (rule life_steps)
  have clock1: "t0 \<le> bg_clock b1" "bg_clock b1 \<le> t1"
    using assms(3,4) b1(2) by (simp_all add: worked_def)
  obtain b2 where b2: "?step\<^sup>*\<^sup>* b1 b2" "worked b1 b2" "bg_initial b2 = []" "bg_queue b2 = bg_queue b" "bg_taken b2 = None"
      "map snd (bg_consumed b2) = map snd (bg_consumed b) @ taken_list b"
  proof (cases "bg_taken b")
    case None
    with b1 that [of b1] show ?thesis
      by (simp add: worked_def taken_list_def)
  next
    case (Some u)
    then have taken: "bg_taken b1 = Some u"
      using b1(5) by simp
    have "length (sp_devices st) + length es + length (bg_consumed b1) < 2147483646"
      using assms(5) b1(6) by simp
    from consume_taken [OF life1 taken clock1 this] Some b1 that show ?thesis
      by (metis r_into_rtranclp taken_list_def option.case(2))
  qed
  have life2: "bridge_life sys conv configPath es t0 t1 s st s1 b2"
    using b2(1) life1 by (rule life_steps)
  have "length (bg_consumed b2) \<le> Suc (length (bg_consumed b))"
    using arg_cong [OF b2(6), of length] by (simp add: taken_list_def split: option.splits)
  then have small: "length (sp_devices st) + length es + length (bg_consumed b2) + length (q_updates (bg_queue b2)) < 2147483646"
    using assms(5) b2(4) by simp
  have "\<not> bg_returned b2" "t0 \<le> bg_clock b2" "bg_clock b2 \<le> t1"
    using assms(2-4) b1(2) b2(2) by (simp_all add: worked_def)
  from drain_queue [OF life2 b2(3,5) this small] obtain b' where b': "?step\<^sup>*\<^sup>* b2 b'" "worked b2 b'" "bg_initial b' = []"
    "bg_taken b' = None" "q_updates (bg_queue b') = []"
    "map snd (bg_consumed b') = map snd (bg_consumed b2) @ q_updates (bg_queue b2)"
    by blast
  have "?step\<^sup>*\<^sup>* b b'"
    using b1(1) b2(1) b'(1) by (meson rtranclp_trans)
  moreover have "worked b b'"
    using b1(2) b2(2) b'(2) worked_trans by blast
  ultimately show ?thesis
    using b'(3-6) b2(4,6) by auto
qed

subsection \<open>A message\<close>

text \<open>With room in the queue the handler puts everything there.\<close>

lemma put_all:
  assumes "length (q_updates (bg_queue b)) + length (bg_handling b) \<le> queue_capacity"
  shows "\<exists>q. (bridge_step sys conv cfg t0 t1)\<^sup>*\<^sup>* b (b\<lparr>bg_handling := [], bg_queue := q\<rparr>)
    \<and> q_updates q = q_updates (bg_queue b) @ bg_handling b"
  using assms
proof (induction "bg_handling b" arbitrary: b)
  case Nil
  then have "b = b\<lparr>bg_handling := [], bg_queue := bg_queue b\<rparr>"
    by simp
  with Nil show ?case
    by (metis append_Nil2 rtranclp.rtrancl_refl)
next
  case (Cons u us)
  let ?b = "b\<lparr>bg_handling := us, bg_queue := enqueue_update (bg_clock b) (bg_queue b) u\<rparr>"
  have room: "length (q_updates (bg_queue b)) < queue_capacity"
    using Cons.prems by (simp flip: Cons(2))
  then have queue: "q_updates (bg_queue ?b) = q_updates (bg_queue b) @ [u]"
    by (simp add: enqueue_update_cases)
  then have "length (q_updates (bg_queue ?b)) + length (bg_handling ?b) \<le> queue_capacity"
    using Cons.prems by (simp flip: Cons(2))
  from Cons(1) [of ?b, OF _ this] obtain q
    where rest: "(bridge_step sys conv cfg t0 t1)\<^sup>*\<^sup>* ?b (?b\<lparr>bg_handling := [], bg_queue := q\<rparr>)"
      and q: "q_updates q = q_updates (bg_queue ?b) @ bg_handling ?b"
    by auto
  have "bridge_step sys conv cfg t0 t1 b ?b"
    using Cons(2) by (intro bridge_step.put) simp
  from converse_rtranclp_into_rtranclp [where r = "bridge_step sys conv cfg t0 t1", OF this rest] q queue show ?case
    by (intro exI [of _ q]) (simp flip: Cons(2))
qed

text \<open>
  A message that arrives while the consumer waits: there is a run of the bridge's own steps at
  the end of which every accessory is what the updates delivered to it make of it.
\<close>

lemma message_run:
  assumes "bridge_life sys conv configPath es t0 t1 s st s1 b" and "bg_initial b = []" and "bg_taken b = None"
    and "\<not> bg_returned b" and "t0 \<le> bg_clock b" and "bg_clock b \<le> t1" and "bg_handling b = []"
    and "us = q_updates (bg_queue b) @ fst (Parse conv (parse_json payload))" and "length us \<le> queue_capacity"
    and "length (sp_devices st) + length es + length (bg_consumed b) + length us < 2147483646"
  shows "\<exists>b'. (bridge_step sys conv (sp_config st) t0 t1)\<^sup>*\<^sup>* b b' \<and> bg_clock b' = bg_clock b
    \<and> bg_handling b' = [] \<and> q_updates (bg_queue b') = [] \<and> bg_taken b' = None
    \<and> process_run (sp_config st) (measurement_path (sp_config st)) (map (Pair (clocks_at (bg_clock b))) us) (bg_runtime b)
        = Some (bg_runtime b')"
proof -
  let ?step = "bridge_step sys conv (sp_config st) t0 t1" and ?ms = "fst (Parse conv (parse_json payload))"
  let ?b = "b\<lparr>bg_handling := ?ms, bg_arrived := bg_arrived b @ ?ms\<rparr>"
  have step: "?step b ?b"
    using assms(7) by (intro bridge_step.message) simp_all
  have "length (q_updates (bg_queue ?b)) + length (bg_handling ?b) \<le> queue_capacity"
    using assms(8,9) by simp
  from put_all [OF this, of sys conv "sp_config st" t0 t1] obtain q where put: "?step\<^sup>*\<^sup>* ?b (?b\<lparr>bg_handling := [], bg_queue := q\<rparr>)" (is "?step\<^sup>*\<^sup>* ?b ?c")
    and "q_updates q = q_updates (bg_queue ?b) @ bg_handling ?b"
    by blast
  then have q: "q_updates q = us"
    using assms(8) by simp
  from step put have steps: "?step\<^sup>*\<^sup>* b ?c"
    by (rule converse_rtranclp_into_rtranclp)
  have same: "bg_initial ?c = []" "bg_taken ?c = None" "\<not> bg_returned ?c" "t0 \<le> bg_clock ?c" "bg_clock ?c \<le> t1"
    and clock: "bg_clock ?c = bg_clock b" and runtime: "bg_runtime ?c = bg_runtime b" and queue: "q_updates (bg_queue ?c) = us"
    using assms(2-6) q by simp_all
  have "length (sp_devices st) + length es + length (bg_consumed ?c) + length (q_updates (bg_queue ?c)) < 2147483646"
    using assms(10) q by simp
  from drain_queue [OF life_steps [OF steps assms(1)] same this] obtain b' where b': "?step\<^sup>*\<^sup>* ?c b'" "worked ?c b'"
    "bg_taken b' = None" "q_updates (bg_queue b') = []"
    "process_run (sp_config st) (measurement_path (sp_config st)) (map (Pair (clocks_at (bg_clock b))) us) (bg_runtime b)
        = Some (bg_runtime b')"
    unfolding queue runtime clock by blast
  have "bg_clock b' = bg_clock b" "bg_handling b' = []"
    using b'(2) by (simp_all add: worked_def)
  with rtranclp_trans [OF steps b'(1)] b'(3-5) show ?thesis
    by blast
qed

end
