(* ===== verification/System_Properties.thy ===== *)
theory System_Properties
  imports Storage_Properties Bridge_Progress
begin

section \<open>Properties of the whole bridge\<close>

text \<open>
  What holds in every state of a life of the process, under every interleaving of its goroutines
  and timers, and what the next start finds when that life ends.
\<close>

subsection \<open>An example\<close>

text \<open>A registry with one toothbrush, no cache, and the toothbrush's first message in the queue.\<close>

definition brush_state :: store where
  "brush_state = no_files\<lparr>st_files :=
     [path_Clean (registry_path example_config) \<mapsto> new_node (the (registry_text [brush_device]))]\<rparr>"

definition brush_found :: discovery_state where
  "brush_found = \<lparr>di_devices = [brush_device], di_initial = Map.empty, di_dedup = NewDeduplicator (10 * minute),
     di_discovered = False, di_timer = False\<rparr>"

definition brush_started :: started where
  "brush_started = start_accessories 0 example_config True brush_found Map.empty"

lemma brush_device_ok: "registry_storable [brush_device]"
proof -
  have "NormalizeMAC ''c0:b5:86:1f:e4:5f'' = ''c0:b5:86:1f:e4:5f''"
    by code_simp
  then have "config_NormalizeMAC (d_mac brush_device) = d_mac brush_device"
    by (simp add: config_NormalizeMAC_eq brush_device_def)
  moreover have "utf8_clean brush_device"
    by (simp add: utf8_clean_def brush_device_def ascii_valid is_ascii_def char_code_def)
  ultimately show ?thesis
    by (simp add: registry_storable_def device_fits_def in_i32_def in_u64_def brush_device_def)
qed

lemma start_plain: "plain_mac (u_mac start_update)"
proof -
  have "NormalizeMAC ''c0:b5:86:1f:e4:5f'' = ''c0:b5:86:1f:e4:5f''"
    by code_simp
  then show ?thesis
    by (simp add: plain_mac_def config_NormalizeMAC_eq start_update_def has_prefix_def)
qed

lemma brush_device_ready: "ready {} [brush_device]"
  by (simp add: ready_def settled_def infer_product_def infer_product_id_def infer_model_def brush_device_def)

lemma brush_prepared: "prepareDevices (mergeDevices (c_devices example_config) [brush_device]) = Some ([brush_device], False)"
  using merge_into_empty [OF _ _ brush_device_ready]
  by (simp add: example_config_def Defaults_def separate_def deviceKey_def brush_device_def to_lower_def)

lemma brush_made: "make_accessories [brush_device] = [ToothbrushAccessory (NewToothbrush brush_device)]"
proof -
  have "productForDevice brush_device = Some product_toothbrush"
    by (simp add: productForDevice_def LookupProduct_eq brush_device_def)
  then show ?thesis
    by (simp add: make_accessories_def List.map_filter_simps NewDeviceAccessory_eq)
qed

lemma brush_started_fields:
  "sp_devices brush_started = [brush_device]" "sp_config brush_started = example_config"
  "sp_measurements brush_started = Map.empty" "sp_initial brush_started = Map.empty"
  "sp_dedup brush_started = NewDeduplicator (10 * minute)"
  "sp_accessories brush_started = [ToothbrushAccessory (NewToothbrush brush_device)]"
proof -
  have "Restore (t_device (NewToothbrush brush_device)) Map.empty = None"
    by (simp add: Restore_def lookup_reading_def)
  then show "sp_devices brush_started = [brush_device]" "sp_config brush_started = example_config"
    "sp_measurements brush_started = Map.empty" "sp_initial brush_started = Map.empty"
    "sp_dedup brush_started = NewDeduplicator (10 * minute)"
    "sp_accessories brush_started = [ToothbrushAccessory (NewToothbrush brush_device)]"
    by (simp_all add: brush_started_def start_accessories_def brush_found_def brush_made)
qed

lemma brush_run_start:
  "\<exists>s1. run_start steady [Some [1, 2, 0, 0]] 0 ''config.json'' [] brush_state = Some (Inr brush_started, s1) \<and> no_temps s1"
proof -
  have temps: "no_temps brush_state"
    using state_targets by (auto simp: no_temps_def brush_state_def no_files_def target_def)
  have none: "st_files brush_state (path_Clean ''config.json'') = None"
    using config_path_differs by (simp add: brush_state_def no_files_def)
  from example_created [OF temps none] obtain s0
    where load: "LoadOrCreate steady [Some [1, 2, 0, 0]] ''config.json'' brush_state = Some (Inr (example_config, True), s0)"
    by (auto simp: example_config_def)
  from LoadOrCreate_created [OF this none]
  have files: "st_files s0 = (st_files brush_state)(path_Clean ''config.json'' \<mapsto> new_node (file_text (config_doc example_config)))"
    by simp
  from no_temps_update [OF temps plain_targets(3) this] have temps0: "no_temps s0" .
  have "st_files s0 (path_Clean (registry_path example_config)) = Some (new_node (the (registry_text [brush_device])))"
    using files config_path_differs [symmetric] by (simp add: brush_state_def)
  then have "fst (registry_Load steady (registry_path example_config) s0) = Inr [brush_device]"
    using brush_device_ok by (intro reg.load_encoded [OF _ registry_text_the]) simp_all
  then obtain s2 where reg: "registry_Load steady (registry_path example_config) s0 = (Inr [brush_device], s2)"
    by (metis prod.collapse)
  have same: "st_files s2 = st_files s0"
    using loads_keep_files(1) [of steady "registry_path example_config" s0] reg by simp
  have "st_files s2 (path_Clean (measurement_path example_config)) = None"
    using files same config_path_differs(2) [symmetric] state_files_differ
    by (simp add: brush_state_def no_files_def) metis
  then obtain s3 where cache: "load_measurements steady example_config s2 = (Map.empty, s3)" "st_files s3 = st_files s2"
    by (simp add: load_measurements_def measurements_Load_def ReadFile_def measurements_New_def)
  have "find_devices example_config [brush_device] [] = Some (brush_found, False)"
    by (simp add: find_devices_def brush_prepared discoverDevices_def brush_found_def)
  then have "run_start steady [Some [1, 2, 0, 0]] 0 ''config.json'' [] brush_state = Some (Inr brush_started, s3)"
    using load reg cache by (simp add: run_start_def start_devices_def brush_started_def)
  moreover have "no_temps s3"
    using temps0 same cache(2) by (simp add: no_temps_def)
  ultimately show ?thesis
    by blast
qed

definition first_queue :: "update list \<Rightarrow> queue" where
  "first_queue us = \<lparr>q_updates = us, q_dropped = 0, q_last_drop_log = None\<rparr>"

definition first_bridge :: "update list \<Rightarrow> store \<Rightarrow> bridge" where
  "first_bridge us s1 = bridge_start brush_started [] [] (first_queue us) 0 s1"

lemma begun_life:
  assumes "\<forall>u \<in> set us. from_message (\<lambda>_. 0) u" and "length us \<le> queue_capacity"
  shows "\<exists>s1. bridge_life steady (\<lambda>_. 0) ''config.json'' [] 0 minute brush_state brush_started s1 (first_bridge us s1) \<and> no_temps s1"
proof -
  obtain s1 where run: "run_start steady [Some [1, 2, 0, 0]] 0 ''config.json'' [] brush_state = Some (Inr brush_started, s1)"
    and temps: "no_temps s1"
    using brush_run_start by blast
  have "\<exists>keys hs q t. first_bridge us s1 = bridge_start brush_started (map (the \<circ> sp_initial brush_started) keys) hs q t s1
      \<and> 0 \<le> t \<and> distinct keys \<and> set keys = dom (sp_initial brush_started) \<and> length (q_updates q) \<le> queue_capacity
      \<and> (\<forall>u \<in> set hs \<union> set (q_updates q). from_message (\<lambda>_. 0) u)"
    by (intro exI [of _ "[]"] exI [of _ "first_queue us"] exI [of _ 0])
       (simp add: first_bridge_def first_queue_def brush_started_fields assms)
  then have "bridge_begins (\<lambda>_. 0) 0 brush_started s1 (first_bridge us s1)"
    by (simp add: bridge_begins_def)
  moreover have "received (\<lambda>_. 0) []"
    by (simp add: received_def)
  ultimately have "bridge_life steady (\<lambda>_. 0) ''config.json'' [] 0 minute brush_state brush_started s1 (first_bridge us s1)"
    using run unfolding bridge_life_def by blast
  with temps show ?thesis
    by blast
qed

lemma first_life:
  "\<exists>s1. bridge_life steady (\<lambda>_. 0) ''config.json'' [] 0 minute brush_state brush_started s1 (first_bridge [start_update] s1)
     \<and> no_temps s1"
  by (rule begun_life) (simp_all add: start_from_message queue_capacity_def)

text \<open>The same bridge once the consumer has applied the message and thirty seconds have passed.\<close>

lemma brushing_life:
  "\<exists>s1 b t. bridge_life steady (\<lambda>_. 0) ''config.json'' [] 0 minute brush_state brush_started s1 b
     \<and> bg_restored b = [] \<and> bg_consumed b = [(clocks_at 0, start_update)] \<and> brush_at 0 (bg_runtime b) = Some t
     \<and> bg_closed b = {} \<and> t_active t
     \<and> t_last_activity t = Some 0 \<and> bg_clock b = toothbrushWatchdog"
proof -
  obtain s1 where life: "bridge_life steady (\<lambda>_. 0) ''config.json'' [] 0 minute brush_state brush_started s1 (first_bridge [start_update] s1)"
    using first_life by blast
  let ?step = "bridge_step steady (\<lambda>_. 0) (sp_config brush_started) 0 minute"
  let ?b = "(first_bridge [start_update] s1)\<lparr>bg_queue := first_queue [], bg_taken := Some start_update\<rparr>"
  have "?step (first_bridge [start_update] s1) ?b"
    using bridge_step.receive [of "first_bridge [start_update] s1" start_update "[]"]
    by (simp add: first_bridge_def first_queue_def bridge_start_def)
  note life1 = life_step [OF life this]
  let ?rt = "start_runtime brush_started"
  have rt: "bg_runtime ?b = ?rt" "bg_clock ?b = 0" "bg_closed ?b = {}" "bg_consumed ?b = []" "bg_restored ?b = []"
    by (simp_all add: first_bridge_def)
  have "\<exists>rt'. process_update (sp_config brush_started) (measurement_path (sp_config brush_started)) (clocks_at 0)
      start_update ?rt = Some rt'"
    using process_update_total [of ?rt] brush_device_ready by (simp add: start_runtime_def brush_started_fields) blast
  then obtain rt' where rt': "process_update (sp_config brush_started) (measurement_path (sp_config brush_started)) (clocks_at 0)
      start_update ?rt = Some rt'"
    by blast
  have match: "matchAccessory (rt_accessories ?rt) start_update = Some 0"
    by (simp add: start_runtime_def brush_started_fields matchAccessory_def NewToothbrush_def matches_def start_update_def brush_device_def)
  have "fst (Classify 0 (NewDeduplicator (10 * minute)) start_update) = FrameAccepted"
    by (simp add: Classify_def NewDeduplicator_def Let_def)
  then have as: "rt_accessories rt' = [ToothbrushAccessory (bsys_brush watched_sys)]"
    using process_update_accessories [OF rt'] match
    by (simp add: delivered_by_def start_runtime_def brush_started_fields clocks_at_def watched_sys_def)
  let ?c = "(advance steady (sp_config brush_started) 0 rt' ?b)\<lparr>bg_taken := None, bg_consumed := [(clocks_at 0, start_update)]\<rparr>"
  have "readings 0 minute 0 (clocks_at 0)"
    by (rule readings_now) simp_all
  then have "?step ?b ?c"
    using bridge_step.consume [of ?b start_update 0 minute "clocks_at 0" "sp_config brush_started" rt'] rt rt'
    by (simp add: clocks_at_def)
  note life2 = life_step [OF life1 this]
  note life3 = life_step [OF life2 bridge_step.elapse [of toothbrushWatchdog]]
  have "brush_at 0 (bg_runtime (?c\<lparr>bg_clock := bg_clock ?c + toothbrushWatchdog\<rparr>)) = Some (bsys_brush watched_sys)"
    using as by (simp add: brush_at_Some)
  with life3 watched_sys_active rt(3,5) show ?thesis
    by (intro exI [of _ s1] exI [of _ "?c\<lparr>bg_clock := bg_clock ?c + toothbrushWatchdog\<rparr>"] exI [of _ "bsys_brush watched_sys"])
       (simp add: toothbrush_durations)
qed

subsection \<open>Concurrency\<close>

text \<open>
  C1. The interleaving does not matter to the consumer's books.  In every state of a life of the
  process the runtime is that of the sequential run over the updates taken so far, the kept ones
  first: the same device list, cache, frame counters and saves, the same sensors, and the same
  toothbrushes up to the session, which the timers also end.  Nothing overtakes: what was consumed,
  is in hand, is queued and is still to be put into the queue came in that order, less what a
  full queue dropped, and the queue never holds more than its capacity.
\<close>

theorem bridge_refines_consumer:
  assumes "bridge_life sys conv configPath es t0 t1 s st s1 b"
  shows "(\<exists>rt. consumer_run (sp_config st) (measurement_path (sp_config st)) (bg_restored b) (bg_consumed b)
        (start_runtime st) = Some rt \<and> same_books rt (bg_runtime b))
    \<and> set (map snd (bg_restored b) @ bg_initial b) = ran (sp_initial st)
    \<and> subseq (map snd (bg_consumed b) @ taken_list b @ q_updates (bg_queue b) @ bg_handling b) (bg_arrived b)
    \<and> length (q_updates (bg_queue b)) \<le> queue_capacity"
proof -
  obtain initial where "set initial = ran (sp_initial st)" and "books_inv sys conv (sp_config st) t0 t1 st s1 initial b"
    by (rule life_books [OF assms])
  then show ?thesis
    by (auto simp: books_inv_def refines_def in_order_def kept_first_def)
qed

theorem bridge_refines_consumer_witness:
  "\<exists>s1 b rt. bridge_life steady (\<lambda>_. 0) ''config.json'' [] 0 minute brush_state brush_started s1 b
     \<and> length (bg_consumed b) = 1
     \<and> consumer_run example_config (measurement_path example_config) (bg_restored b) (bg_consumed b)
         (start_runtime brush_started) = Some rt \<and> same_books rt (bg_runtime b)"
proof -
  obtain s1 b where "bridge_life steady (\<lambda>_. 0) ''config.json'' [] 0 minute brush_state brush_started s1 b"
      "bg_consumed b = [(clocks_at 0, start_update)]"
    using brushing_life by blast
  moreover from this(2) have "length (bg_consumed b) = 1"
    by simp
  ultimately show ?thesis
    using bridge_refines_consumer [of steady "\<lambda>_. 0" "''config.json''" "[]" 0 minute brush_state brush_started s1 b]
    unfolding brush_started_fields by blast
qed

text \<open>
  C2. The invariant of the whole bridge, under every interleaving, when it was started with a cache
  whose readings are in range: each accessory is consistent and
  keeps its device; HomeKit sees motion exactly while a session is active; the device list begins
  with the devices of the start and stays ready for HomeKit, with different ids of at least 2;
  every device list it holds or has saved can be stored and loaded without loss; and every cache it
  holds or has saved has its readings in range again, so that the condition on the cache is one that the
  program itself keeps up from start to start.  \<^verbatim>\<open>measurements.Load\<close> checks no ranges, so a file that
  was edited by hand may break it; no file and an empty one satisfy it.
\<close>

theorem bridge_invariant:
  assumes "bridge_life sys conv configPath es t0 t1 s st s1 b" and "valid_cache (sp_measurements st)"
    and "length (sp_devices st) + length es + length (bg_consumed b) < 2147483646"
  shows "runtime_inv (map DeviceConfig (sp_accessories st)) (sp_devices st) (bg_runtime b)
    \<and> (\<forall>i t. brush_at i (bg_runtime b) = Some t \<longrightarrow> (t_motion t = Some True \<longleftrightarrow> t_active t))
    \<and> registry_storable (rt_devices (bg_runtime b)) \<and> (\<forall>ds \<in> set (rt_registry_saves (bg_runtime b)). registry_storable ds)
    \<and> valid_cache (rt_measurements (bg_runtime b)) \<and> (\<forall>m \<in> set (rt_cache_saves (bg_runtime b)). valid_cache m)"
proof -
  have inv: "runtime_inv (map DeviceConfig (sp_accessories st)) (sp_devices st) (bg_runtime b)"
    using assms by (rule life_inv)
  have "motion_inv t" if "brush_at i (bg_runtime b) = Some t" for i t
  proof -
    have "ToothbrushAccessory t \<in> set (rt_accessories (bg_runtime b))"
      using that by (simp add: brush_at_Some) (metis nth_mem)
    with inv have "accessory_ok (ToothbrushAccessory t)"
      unfolding runtime_inv_def by blast
    then show ?thesis
      by simp
  qed
  with inv life_devices [OF assms(1)] life_in_range [OF assms(1,2)] show ?thesis
    by (auto simp: devices_inv_def motion_inv_def caches_inv_def)
qed

theorem bridge_invariant_witness:
  "\<exists>(b :: bridge) t. brush_at 0 (bg_runtime b) = Some t \<and> t_active t \<and> t_motion t = Some True
     \<and> runtime_inv [brush_device] [brush_device] (bg_runtime b)"
proof -
  obtain s1 b t where life: "bridge_life steady (\<lambda>_. 0) ''config.json'' [] 0 minute brush_state brush_started s1 b"
    and b: "bg_consumed b = [(clocks_at 0, start_update)]" "brush_at 0 (bg_runtime b) = Some t" "t_active t"
    using brushing_life by blast
  have "valid_cache (sp_measurements brush_started)"
    by (simp add: brush_started_fields valid_cache_def)
  note inv = bridge_invariant [OF life this]
  have "map DeviceConfig (sp_accessories brush_started) = [brush_device]"
    by (simp add: brush_started_fields) (simp add: NewToothbrush_def)
  with inv b(1) have "runtime_inv [brush_device] [brush_device] (bg_runtime b)"
    and "\<forall>i t. brush_at i (bg_runtime b) = Some t \<longrightarrow> (t_motion t = Some True \<longleftrightarrow> t_active t)"
    by (simp_all add: brush_started_fields)
  with b(2,3) show ?thesis
    by blast
qed

text \<open>
  C21. No session of a running bridge that was started with a cache in range outlives its
  watchdog: whatever the other goroutines do, once
  thirty seconds have passed since a toothbrush's last activity, the timers alone can end its
  session and show no motion, at once and without touching any other accessory.
\<close>

theorem bridge_watchdog:
  assumes "bridge_life sys conv configPath es t0 t1 s st s1 b" and "valid_cache (sp_measurements st)"
    and "brush_at i (bg_runtime b) = Some t" and "i \<notin> bg_closed b"
    and "t_active t" and "t_last_activity t = Some la" and "la + toothbrushWatchdog \<le> bg_clock b"
  shows "\<exists>b' t'. watchdog_step\<^sup>*\<^sup>* b b' \<and> brush_at i (bg_runtime b') = Some t' \<and> \<not> t_active t' \<and> t_motion t' = Some False
    \<and> bg_clock b' = bg_clock b \<and> (\<forall>j. j \<noteq> i \<longrightarrow> rt_accessories (bg_runtime b') ! j = rt_accessories (bg_runtime b) ! j)"
proof -
  obtain d now where "brush_reachable d now (brush_sys_of i t b)"
    by (rule life_brushes [OF assms(1-3)])
  from watchdog_can_end [OF this assms(3-7)] show ?thesis .
qed

theorem bridge_watchdog_witness:
  "\<exists>b b' t t'. brush_at 0 (bg_runtime b) = Some t \<and> t_active t \<and> watchdog_step\<^sup>*\<^sup>* b b'
     \<and> brush_at 0 (bg_runtime b') = Some t' \<and> \<not> t_active t'"
proof -
  obtain s1 b t where life: "bridge_life steady (\<lambda>_. 0) ''config.json'' [] 0 minute brush_state brush_started s1 b"
    and t: "brush_at 0 (bg_runtime b) = Some t" "t_active t" "t_last_activity t = Some 0"
    and b: "bg_closed b = {}" "bg_clock b = toothbrushWatchdog"
    using brushing_life by blast
  have "valid_cache (sp_measurements brush_started)"
    by (simp add: brush_started_fields valid_cache_def)
  from bridge_watchdog [OF life this t(1) _ t(2,3)] b t(1,2) show ?thesis
    by auto
qed

text \<open>
  C30. The bridge never gets stuck: as long as \<^verbatim>\<open>processUpdates\<close> has not returned, its own steps
  lead to a state in which every kept update, the one in hand and everything in the queue has
  been worked on, in that order, and nothing else has happened meanwhile.
\<close>

theorem bridge_drains:
  assumes "bridge_life sys conv configPath es t0 t1 s st s1 b" and "\<not> bg_returned b"
    and "t0 \<le> bg_clock b" and "bg_clock b \<le> t1"
    and "length (sp_devices st) + length es + length (bg_consumed b) + length (q_updates (bg_queue b)) < 2147483645"
  shows "\<exists>b'. (bridge_step sys conv (sp_config st) t0 t1)\<^sup>*\<^sup>* b b' \<and> worked b b' \<and> bg_initial b' = []
    \<and> bg_taken b' = None \<and> q_updates (bg_queue b') = []
    \<and> map snd (bg_consumed b') = map snd (bg_consumed b) @ taken_list b @ q_updates (bg_queue b)"
  using assms by (rule drain)

theorem bridge_drains_witness:
  "\<exists>s1 b'. (bridge_step steady (\<lambda>_. 0) example_config 0 minute)\<^sup>*\<^sup>* (first_bridge [start_update] s1) b'
     \<and> q_updates (bg_queue b') = [] \<and> map snd (bg_consumed b') = [start_update]"
proof -
  obtain s1 where "bridge_life steady (\<lambda>_. 0) ''config.json'' [] 0 minute brush_state brush_started s1 (first_bridge [start_update] s1)"
    using first_life by blast
  moreover have "\<not> bg_returned (first_bridge [start_update] s1)" "bg_clock (first_bridge [start_update] s1) = 0" "bg_consumed (first_bridge [start_update] s1) = []"
    "bg_queue (first_bridge [start_update] s1) = first_queue [start_update]" "taken_list (first_bridge [start_update] s1) = []"
    by (simp_all add: first_bridge_def bridge_start_def taken_list_def)
  ultimately have "\<exists>b'. (bridge_step steady (\<lambda>_. 0) (sp_config brush_started) 0 minute)\<^sup>*\<^sup>* (first_bridge [start_update] s1) b'
      \<and> worked (first_bridge [start_update] s1) b' \<and> bg_initial b' = [] \<and> bg_taken b' = None \<and> q_updates (bg_queue b') = []
      \<and> map snd (bg_consumed b') = map snd (bg_consumed (first_bridge [start_update] s1)) @ taken_list (first_bridge [start_update] s1)
          @ q_updates (bg_queue (first_bridge [start_update] s1))"
    by (intro bridge_drains [where es = "[]"]) (simp_all add: brush_started_fields first_queue_def)
  moreover have "map snd (bg_consumed (first_bridge [start_update] s1)) @ taken_list (first_bridge [start_update] s1)
      @ q_updates (bg_queue (first_bridge [start_update] s1)) = [start_update]"
    by (simp add: first_bridge_def bridge_start_def taken_list_def first_queue_def)
  ultimately show ?thesis
    unfolding brush_started_fields by metis
qed

text \<open>
  C4. From the broker to HomeKit: when a message arrives while the consumer waits and there is room
  in the queue, the bridge's own steps lead to a state, at the same time, in which each accessory
  is what applying the updates of the queue and of the message makes of it: those that match its
  device and that the frame counters let through, in their order.
\<close>

theorem message_reaches_accessories:
  assumes "bridge_life sys conv configPath es t0 t1 s st s1 b" and "bg_initial b = []" and "bg_taken b = None"
    and "\<not> bg_returned b" and "t0 \<le> bg_clock b" and "bg_clock b \<le> t1" and "bg_handling b = []"
    and "us = q_updates (bg_queue b) @ fst (Parse conv (parse_json payload))" and "length us \<le> queue_capacity"
    and "length (sp_devices st) + length es + length (bg_consumed b) + length us < 2147483646"
  shows "\<exists>b'. (bridge_step sys conv (sp_config st) t0 t1)\<^sup>*\<^sup>* b b' \<and> bg_clock b' = bg_clock b
    \<and> bg_handling b' = [] \<and> q_updates (bg_queue b') = [] \<and> bg_taken b' = None
    \<and> (\<forall>i < length (rt_accessories (bg_runtime b)). rt_accessories (bg_runtime b') ! i
        = foldl (\<lambda>a (now, u). accessory_Apply now u a) (rt_accessories (bg_runtime b) ! i)
            (deliveries (rt_accessories (bg_runtime b)) i (rt_dedup (bg_runtime b)) (map (Pair (clocks_at (bg_clock b))) us)))"
  using message_run [OF assms] process_run_accessory by blast

theorem message_reaches_accessories_witness:
  "\<exists>payload s1 b'. fst (Parse (\<lambda>_. 0) (parse_json payload)) = [start_update]
     \<and> (bridge_step steady (\<lambda>_. 0) example_config 0 minute)\<^sup>*\<^sup>* (first_bridge [] s1) b'
     \<and> rt_accessories (bg_runtime b') ! 0 = accessory_Apply 0 start_update (ToothbrushAccessory (NewToothbrush brush_device))"
proof -
  obtain s1 where life: "bridge_life steady (\<lambda>_. 0) ''config.json'' [] 0 minute brush_state brush_started s1 (first_bridge [] s1)"
    using begun_life [of "[]"] by auto
  obtain payload where payload: "parse_json payload = Some (ble_doc start_report)"
    using start_text by blast
  let ?b = "first_bridge [] s1"
  let ?us = "q_updates (bg_queue ?b) @ fst (Parse (\<lambda>_. 0) (parse_json payload))"
  have us: "?us = [start_update]"
    by (simp add: payload start_report_parsed first_bridge_def first_queue_def)
  have b: "bg_initial ?b = []" "bg_taken ?b = None" "\<not> bg_returned ?b" "0 \<le> bg_clock ?b" "bg_clock ?b \<le> minute" "bg_handling ?b = []"
    by (simp_all add: first_bridge_def) (simp add: bridge_start_def)
  have rt: "rt_accessories (bg_runtime ?b) = [ToothbrushAccessory (NewToothbrush brush_device)]" "bg_clock ?b = 0"
    "rt_dedup (bg_runtime ?b) = NewDeduplicator (10 * minute)" "bg_consumed ?b = []"
    by (simp_all add: first_bridge_def start_runtime_def brush_started_fields)
  have "matchAccessory [ToothbrushAccessory (NewToothbrush brush_device)] start_update = Some 0"
    by (simp add: matchAccessory_def NewToothbrush_def matches_def start_update_def brush_device_def)
  moreover have "fst (Classify 0 (NewDeduplicator (10 * minute)) start_update) = FrameAccepted"
    by (simp add: Classify_def NewDeduplicator_def Let_def)
  ultimately have deliv: "deliveries [ToothbrushAccessory (NewToothbrush brush_device)] 0 (NewDeduplicator (10 * minute))
      (map (Pair (clocks_at 0)) [start_update]) = [(0, start_update)]"
    by (simp add: delivered_by_def clocks_at_def Let_def case_prod_beta')
  have "length ?us \<le> queue_capacity"
    "length (sp_devices brush_started) + length [] + length (bg_consumed ?b) + length ?us < 2147483646"
    unfolding us rt by (simp_all add: queue_capacity_def brush_started_fields)
  from message_reaches_accessories [OF life b refl this] obtain b'
    where steps: "(bridge_step steady (\<lambda>_. 0) example_config 0 minute)\<^sup>*\<^sup>* ?b b'"
      and all: "\<forall>i < length (rt_accessories (bg_runtime ?b)). rt_accessories (bg_runtime b') ! i
        = foldl (\<lambda>a (now, u). accessory_Apply now u a) (rt_accessories (bg_runtime ?b) ! i)
            (deliveries (rt_accessories (bg_runtime ?b)) i (rt_dedup (bg_runtime ?b)) (map (Pair (clocks_at (bg_clock ?b))) ?us))"
    unfolding brush_started_fields by blast
  have "0 < length (rt_accessories (bg_runtime ?b))"
    by (simp add: rt)
  with all have "rt_accessories (bg_runtime b') ! 0
      = foldl (\<lambda>a (now, u). accessory_Apply now u a) (rt_accessories (bg_runtime ?b) ! 0)
          (deliveries (rt_accessories (bg_runtime ?b)) 0 (rt_dedup (bg_runtime ?b)) (map (Pair (clocks_at (bg_clock ?b))) ?us))"
    by blast
  then have "rt_accessories (bg_runtime b') ! 0 = accessory_Apply 0 start_update (ToothbrushAccessory (NewToothbrush brush_device))"
    by (simp only: us rt deliv foldl.simps prod.case nth_Cons_0)
  moreover have "fst (Parse (\<lambda>_. 0) (parse_json payload)) = [start_update]"
    by (simp add: payload start_report_parsed)
  ultimately show ?thesis
    using steps by blast
qed

subsection \<open>The end of the process\<close>

text \<open>
  C9. The files survive the end of the process at any moment: the next start finds the registry as
  the start left it or loads from it one of the lists saved since, the cache likewise, each
  complete, and every other file untouched.  The addresses are those of devices, not of the
  form \<^verbatim>\<open>did:\<close>, which the cache uses for devices without one.
\<close>

theorem run_survives_crash:
  assumes "bridge_life sys conv configPath es t0 t1 s st s1 b" and "moment s1 (bg_store b) (st_files t)" and "call_ok sys' t"
    and "in_i64 (unix t0)" and "in_i64 (unix t1)" and "keys_normal (sp_measurements st)"
    and "\<forall>(ck, u) \<in> set (bg_restored b) \<union> set (bg_consumed b). plain_mac (u_mac u)"
  shows "(st_files t (path_Clean (registry_path (sp_config st))) = st_files s1 (path_Clean (registry_path (sp_config st)))
      \<or> (\<exists>ds \<in> set (rt_registry_saves (bg_runtime b)). fst (registry_Load sys' (registry_path (sp_config st)) t) = Inr ds))
    \<and> (st_files t (path_Clean (measurement_path (sp_config st))) = st_files s1 (path_Clean (measurement_path (sp_config st)))
      \<or> (\<exists>m \<in> set (rt_cache_saves (bg_runtime b)). fst (measurements_Load sys' (measurement_path (sp_config st)) t) = Inr m))
    \<and> (\<forall>q. \<not> is_temp q \<and> q \<noteq> path_Clean (registry_path (sp_config st)) \<and> q \<noteq> path_Clean (measurement_path (sp_config st))
         \<longrightarrow> st_files t q = st_files s1 q)"
proof -
  let ?cfg = "sp_config st" and ?rt = "bg_runtime b"
  have files: "files_inv sys ?cfg s1 b"
    using life_books [OF assms(1)] by (metis books_inv_def)
  note at_moment = assms(2) [unfolded files [unfolded files_inv_def, THEN conjunct1]]
  have "st_files t (path_Clean (registry_path ?cfg))
      \<in> insert (st_files s1 (path_Clean (registry_path ?cfg))) (texts_of registry_text (rt_registry_saves ?rt))"
    using stays_in_moment [OF saves_registry at_moment] files by (simp add: files_inv_def)
  then have registry: "st_files t (path_Clean (registry_path ?cfg)) = st_files s1 (path_Clean (registry_path ?cfg))
      \<or> (\<exists>ds \<in> set (rt_registry_saves ?rt). fst (registry_Load sys' (registry_path ?cfg) t) = Inr ds)"
    using life_devices [OF assms(1)] reg.load_encoded [OF _ _ _ assms(3)]
    by (auto simp: texts_of_def devices_inv_def)
  have "st_files t (path_Clean (measurement_path ?cfg))
      \<in> insert (st_files s1 (path_Clean (measurement_path ?cfg))) (texts_of cache_text (rt_cache_saves ?rt))"
    using stays_in_moment [OF saves_cache at_moment] files by (simp add: files_inv_def)
  moreover have "fst (measurements_Load sys' (measurement_path ?cfg) t) = Inr m"
    if "m \<in> set (rt_cache_saves ?rt)" "cache_text m = Some c" "st_files t (path_Clean (measurement_path ?cfg)) = Some (new_node c)" for m c
    using life_cache [OF assms(1,4,5)] life_keys [OF assms(1,6,7)] that(1)
    by (intro cache.load_encoded [OF _ that(2,3) assms(3)]) (simp add: caches_inv_def cache_storable_def)
  ultimately have cache: "st_files t (path_Clean (measurement_path ?cfg)) = st_files s1 (path_Clean (measurement_path ?cfg))
      \<or> (\<exists>m \<in> set (rt_cache_saves ?rt). fst (measurements_Load sys' (measurement_path ?cfg) t) = Inr m)"
    by (auto simp: texts_of_def)
  have "st_files t q = st_files s1 q"
    if "\<not> is_temp q" "q \<noteq> path_Clean (registry_path ?cfg)" "q \<noteq> path_Clean (measurement_path ?cfg)" for q
    using stays_in_moment [OF saves_keep_others [OF that] at_moment] by simp
  with registry cache show ?thesis
    by blast
qed

theorem run_survives_crash_witness:
  "\<exists>(s1 :: store) (b :: bridge). length (bg_consumed b) = 1
     \<and> (st_files (bg_store b) (path_Clean (registry_path example_config)) = st_files s1 (path_Clean (registry_path example_config))
        \<or> (\<exists>ds \<in> set (rt_registry_saves (bg_runtime b)). fst (registry_Load steady (registry_path example_config) (bg_store b)) = Inr ds))"
proof -
  obtain s1 b where life: "bridge_life steady (\<lambda>_. 0) ''config.json'' [] 0 minute brush_state brush_started s1 b"
    and b: "bg_restored b = []" "bg_consumed b = [(clocks_at 0, start_update)]"
    using brushing_life by blast
  have times: "in_i64 (unix 0)" "in_i64 (unix minute)"
    by (simp_all add: in_i64_def unix_def)
  have keys: "keys_normal (sp_measurements brush_started)"
    by (simp add: brush_started_fields keys_normal_def)
  have now: "moment s1 (bg_store b) (st_files (bg_store b))"
    by (simp add: moment_def)
  have macs: "\<forall>(ck, u) \<in> set (bg_restored b) \<union> set (bg_consumed b). plain_mac (u_mac u)"
    by (simp add: b start_plain)
  have "length (bg_consumed b) = 1"
    by (simp add: b)
  with run_survives_crash [OF life now steady_ok(2) times keys macs] show ?thesis
    unfolding brush_started_fields by blast
qed

text \<open>The configuration file is not among those that a run writes.\<close>

lemma configuration_again:
  assumes "run_start sys reads now configPath es s = Some (Inr st, s1)"
    and "moment s1 (save_all (save_one sys (sp_config st)) ws s1) (st_files t)"
    and "target configPath" and "valid_utf8 (default_state_dir configPath)"
    and other: "path_Clean configPath \<noteq> path_Clean (registry_path (sp_config st))"
      "path_Clean configPath \<noteq> path_Clean (measurement_path (sp_config st))"
    and "\<And>k. sys_ok sys' k"
  obtains created s0 t' where "start_devices sys now (sp_config st) created es s0 = Some (Inr st, s1)"
    and "LoadOrCreate sys' reads' configPath t = Some (Inr (sp_config st, False), t')" and "st_files t' = st_files t"
proof -
  let ?c = "path_Clean configPath"
  obtain cfg created s0 where load: "LoadOrCreate sys reads configPath s = Some (Inr (cfg, created), s0)"
    and start: "start_devices sys now cfg created es s0 = Some (Inr st, s1)"
    using assms(1) by (auto simp: run_start_def split: option.splits sum.splits)
  have cfg: "cfg = sp_config st"
    using start_devices_done [OF start] by metis
  have ok: "call_ok sys' u" for u
    by (simp add: call_ok_def assms(7))
  have "st_files s1 ?c = st_files s0 ?c"
    using start_devices_done [OF start] other(1) cfg by (metis fun_upd_apply)
  moreover have "\<not> is_temp ?c"
    using assms(3) by (simp add: target_def)
  note stays_in_moment [OF saves_keep_others [OF this other] assms(2)]
  ultimately have "st_files t ?c = st_files s0 ?c"
    by simp
  from LoadOrCreate_again [OF load assms(3,4) this ok, of reads'] start that show ?thesis
    unfolding cfg by blast
qed

text \<open>
  C8. HomeKit keeps recognising its accessories.  However the process ends, at whatever moment and
  in whatever state of its goroutines and timers, and whatever calls failed before, the next start
  gets past the registry and has every device of this one with the same accessory id, name and
  product.
\<close>

theorem restart_keeps_ids:
  assumes "bridge_life sys conv configPath es t0 t1 s st s1 b" and "sp_devices st \<noteq> []"
    and "length (sp_devices st) + length es + length (bg_consumed b) < 2147483646"
    and "moment s1 (bg_store b) (st_files t)"
    and "target configPath" and "valid_utf8 (default_state_dir configPath)"
    and "path_Clean configPath \<noteq> path_Clean (registry_path (sp_config st))"
    and "path_Clean configPath \<noteq> path_Clean (measurement_path (sp_config st))"
    and "\<And>k. sys_ok sys' k" and "names_free sys' (registry_path (sp_config st)) t"
  shows "\<exists>st' t'. run_start sys' reads' now' configPath es' t = Some (Inr st', t')
    \<and> sp_config st' = sp_config st \<and> set (sp_devices st) \<subseteq> set (sp_devices st')"
proof -
  let ?cfg = "sp_config st"
  obtain reads now where run: "run_start sys reads now configPath es s = Some (Inr st, s1)"
    using assms(1) by (auto simp: bridge_life_def)
  obtain rt where rt: "consumer_run ?cfg (measurement_path ?cfg) (bg_restored b) (bg_consumed b) (start_runtime st) = Some rt"
    and books: "same_books rt (bg_runtime b)"
    by (rule life_refines [OF assms(1)])
  have files: "files_inv sys ?cfg s1 b"
    using life_books [OF assms(1)] by (metis books_inv_def)
  note at_moment = assms(4) [unfolded files [unfolded files_inv_def, THEN conjunct1]]
  have saves: "registry_saves (bg_saved b) = rt_registry_saves rt"
    using files by (simp add: files_inv_def same_books_fields [OF books])
  have storable: "registry_storable (rt_devices rt)"
    using life_devices [OF assms(1)] by (simp add: devices_inv_def same_books_fields [OF books])
  have ok: "call_ok sys' u" for u
    by (simp add: call_ok_def assms(9))
  obtain created s0 t0' where start: "start_devices sys now ?cfg created es s0 = Some (Inr st, s1)"
    and again: "LoadOrCreate sys' reads' configPath t = Some (Inr (?cfg, False), t0')" and t0': "st_files t0' = st_files t"
    by (rule configuration_again [OF run at_moment assms(5-9)])
  have "moment s1 (save_all (save_one sys ?cfg) (bg_saved b) s1) (st_files t0')"
    using at_moment t0' by simp
  from registry_after_run [OF start assms(2) rt saves storable assms(3) this ok]
  obtain X P m Q where P: "prepareDevices (mergeDevices (c_devices ?cfg) X) = Some (P, m)"
    and same: "set (sp_devices st) = set P"
    and Q: "fst (registry_Load sys' (registry_path ?cfg) t0') = Inr Q"
      "Q = X \<or> (\<exists>Q0 es. Q = Q0 @ es \<and> mset Q0 = mset P \<and> ready {} Q)"
    by blast
  have "P \<noteq> []"
    using same assms(2) by auto
  moreover have "names_free sys' (registry_path ?cfg) t0'"
    using assms(10) t0' by (simp add: names_free_def)
  ultimately obtain st' t' where "start_devices sys' now' ?cfg False es' t0' = Some (Inr st', t')"
    "set P \<subseteq> set (sp_devices st')" "sp_config st' = ?cfg"
    using start_again [OF P _ Q assms(9)] by blast
  with again same show ?thesis
    by (auto simp: run_start_def)
qed

theorem restart_keeps_ids_witness:
  "\<exists>s1 b st' t'. bridge_life steady (\<lambda>_. 0) ''config.json'' [] 0 minute brush_state brush_started s1 b
     \<and> run_start steady [] 0 ''config.json'' [] s1 = Some (Inr st', t') \<and> brush_device \<in> set (sp_devices st')"
proof -
  obtain s1 where life: "bridge_life steady (\<lambda>_. 0) ''config.json'' [] 0 minute brush_state brush_started s1 (first_bridge [start_update] s1)"
    and temps: "no_temps s1"
    using first_life by blast
  have "valid_utf8 (default_state_dir ''config.json'')"
    by (simp add: example_state_dir ascii_valid is_ascii_def char_code_def)
  moreover have "moment s1 (bg_store (first_bridge [start_update] s1)) (st_files s1)" and "bg_consumed (first_bridge [start_update] s1) = []"
    by (simp_all add: moment_def first_bridge_def)
  ultimately have "\<exists>st' t'. run_start steady [] 0 ''config.json'' [] s1 = Some (Inr st', t')
      \<and> sp_config st' = sp_config brush_started \<and> set (sp_devices brush_started) \<subseteq> set (sp_devices st')"
    using no_temps_names [OF temps] config_path_differs
    by (intro restart_keeps_ids [OF life]) (simp_all add: brush_started_fields)
  with life show ?thesis
    by (auto simp: brush_started_fields)
qed

end
