(* ===== verification/Command_Line.thy ===== *)
theory Command_Line
  imports Start_Up
begin

section \<open>The command line and the exit status\<close>

text \<open>
  \<^verbatim>\<open>main\<close> and the result of \<^verbatim>\<open>run\<close> in \<^verbatim>\<open>cmd/mgl03-homekit-bridge/main.go\<close>, with what the program uses of
  Go's \<^verbatim>\<open>flag\<close>: two flags, \<^verbatim>\<open>-config\<close> with a string and the boolean \<^verbatim>\<open>-version\<close>, each with one
  dash or two, a value after an equals sign or, for the string, in the next argument.  Parsing stops
  at the first argument that is no flag and after \<^verbatim>\<open>--\<close>.  An error ends the process with status 2, a
  request for help with 0, and \<^verbatim>\<open>log.Fatal\<close> with 1.
\<close>

record flags =
  fl_config :: go_string
  fl_version :: bool

datatype flag_error = HelpWanted | BadFlagSyntax go_string | UnknownFlag go_string | InvalidBool go_string
  | MissingArgument go_string

definition default_flags :: flags where
  "default_flags = \<lparr>fl_config = ''/data/mgl03-homekit/config.json'', fl_version = False\<rparr>"

subsection \<open>Flags\<close>

definition ParseBool :: "go_string \<Rightarrow> bool option" where
  "ParseBool s =
     (if s \<in> {''1'', ''t'', ''T'', ''TRUE'', ''true'', ''True''} then Some True
      else if s \<in> {''0'', ''f'', ''F'', ''FALSE'', ''false'', ''False''} then Some False else None)"

text \<open>The name and the value of a flag, at the first equals sign that is not in front.\<close>

fun split_flag :: "go_string \<Rightarrow> go_string \<times> go_string option" where
  "split_flag [] = ([], None)"
| "split_flag (c # s) =
     (if c = CHR ''='' then ([], Some s) else let (name, val') = split_flag s in (c # name, val'))"

text \<open>\<^verbatim>\<open>None\<close> for an argument that is no flag: what follows one dash or two, otherwise.\<close>

definition flag_text :: "go_string \<Rightarrow> go_string option" where
  "flag_text s =
     (if length s < 2 \<or> hd s \<noteq> CHR ''-'' then None
      else if s ! 1 = CHR ''-'' then Some (drop 2 s) else Some (tl s))"

fun parse_flags :: "flags \<Rightarrow> go_string list \<Rightarrow> flag_error + flags" where
  "parse_flags fl [] = Inr fl"
| "parse_flags fl (s # args) =
     (case flag_text s of
        None \<Rightarrow> Inr fl
      | Some t \<Rightarrow>
          if s = ''--'' then Inr fl
          else if t = [] \<or> hd t = CHR ''-'' \<or> hd t = CHR ''='' then Inl (BadFlagSyntax s)
          else
            let (name, val') = split_flag t
            in if name = ''version'' then
                 (case ParseBool (case val' of None \<Rightarrow> ''true'' | Some v \<Rightarrow> v) of
                    None \<Rightarrow> Inl (InvalidBool s)
                  | Some b \<Rightarrow> parse_flags (fl\<lparr>fl_version := b\<rparr>) args)
               else if name = ''config'' then
                 (case val' of
                    Some v \<Rightarrow> parse_flags (fl\<lparr>fl_config := v\<rparr>) args
                  | None \<Rightarrow>
                      (case args of
                         [] \<Rightarrow> Inl (MissingArgument name)
                       | v # rest \<Rightarrow> parse_flags (fl\<lparr>fl_config := v\<rparr>) rest))
               else if name = ''help'' \<or> name = ''h'' then Inl HelpWanted
               else Inl (UnknownFlag name))"

subsection \<open>The end of the process\<close>

text \<open>
  How the HomeKit library behaves: whether \<^verbatim>\<open>hap.NewServer\<close> accepts the accessories, whether
  \<^verbatim>\<open>ListenAndServe\<close> returns an error, and whether the context was done by then.
\<close>

record hap_library =
  hl_new :: "server_setup \<Rightarrow> bool"
  hl_serve_fails :: "server_setup \<Rightarrow> bool"
  hl_done :: bool

datatype run_error = RunStart start_error | RunMkdir os_error | RunNewServer | RunServe

definition serve_homekit ::
  "system \<Rightarrow> hap_library \<Rightarrow> go_string \<Rightarrow> started \<Rightarrow> store \<Rightarrow> (run_error + unit) \<times> store" where
  "serve_homekit sys hap version st s =
     (case setup_server sys version st s of
        (Inl e, s) \<Rightarrow> (Inl (RunMkdir e), s)
      | (Inr sv, s) \<Rightarrow>
          if \<not> hl_new hap sv then (Inl RunNewServer, s)
          else if hl_serve_fails hap sv \<and> \<not> hl_done hap then (Inl RunServe, s)
          else (Inr (), s))"

text \<open>
  \<^verbatim>\<open>run\<close>, with the goroutines it starts left out: they share with what follows neither state nor
  files, and \<open>Bridge_System\<close> is about them.
\<close>

definition run ::
  "system \<Rightarrow> hap_library \<Rightarrow> go_string \<Rightarrow> bytes option list \<Rightarrow> time \<Rightarrow> go_string \<Rightarrow> select_event list \<Rightarrow> store
     \<Rightarrow> ((run_error + unit) \<times> store) option" where
  "run sys hap version reads now configPath es s =
     (case run_start sys reads now configPath es s of
        None \<Rightarrow> None
      | Some (Inl e, s) \<Rightarrow> Some (Inl (RunStart e), s)
      | Some (Inr st, s) \<Rightarrow> Some (serve_homekit sys hap version st s))"

datatype exit_reason = ShowedHelp | BadUsage flag_error | ShowedVersion | RunFailed run_error | RunEnded

fun exit_status :: "exit_reason \<Rightarrow> nat" where
  "exit_status (BadUsage e) = 2"
| "exit_status (RunFailed e) = 1"
| "exit_status r = 0"

text \<open>\<^verbatim>\<open>None\<close> is a process that still runs.\<close>

definition main ::
  "system \<Rightarrow> hap_library \<Rightarrow> go_string \<Rightarrow> bytes option list \<Rightarrow> time \<Rightarrow> go_string list \<Rightarrow> select_event list \<Rightarrow> store
     \<Rightarrow> (exit_reason \<times> store) option" where
  "main sys hap version reads now args es s =
     (case parse_flags default_flags args of
        Inl HelpWanted \<Rightarrow> Some (ShowedHelp, s)
      | Inl e \<Rightarrow> Some (BadUsage e, s)
      | Inr fl \<Rightarrow>
          if fl_version fl then Some (ShowedVersion, s)
          else
            (case run sys hap version reads now (fl_config fl) es s of
               None \<Rightarrow> None
             | Some (Inl e, s) \<Rightarrow> Some (RunFailed e, s)
             | Some (Inr _, s) \<Rightarrow> Some (RunEnded, s)))"

subsection \<open>What the command line does\<close>

lemma split_flag_plain: "CHR ''='' \<notin> set name \<Longrightarrow> split_flag (name @ CHR ''='' # v) = (name, Some v)"
  by (induction name) auto

lemma split_flag_none: "CHR ''='' \<notin> set name \<Longrightarrow> split_flag name = (name, None)"
  by (induction name) auto

text \<open>The ways to give the configuration file.\<close>

lemma config_flags:
  "parse_flags fl (''-config'' # path # args) = parse_flags (fl\<lparr>fl_config := path\<rparr>) args"
  "parse_flags fl (''--config'' # path # args) = parse_flags (fl\<lparr>fl_config := path\<rparr>) args"
  "parse_flags fl ((''-config='' @ path) # args) = parse_flags (fl\<lparr>fl_config := path\<rparr>) args"
  "parse_flags fl ((''--config='' @ path) # args) = parse_flags (fl\<lparr>fl_config := path\<rparr>) args"
  using split_flag_plain [of "''config''" path] by (simp_all add: flag_text_def split_flag_none)

lemma version_flag: "parse_flags fl (''-version'' # args) = parse_flags (fl\<lparr>fl_version := True\<rparr>) args"
  by (simp add: flag_text_def ParseBool_def)

text \<open>Nothing on the file system is touched unless \<^verbatim>\<open>run\<close> is reached.\<close>

lemma main_without_run:
  "main sys hap version reads now args es s = Some (r, s') \<Longrightarrow> r \<in> {ShowedHelp, ShowedVersion} \<union> range BadUsage \<Longrightarrow> s' = s"
  by (auto simp: main_def split: sum.splits flag_error.splits option.splits if_splits)

text \<open>
  Serving touches no file that the program reads, and an error of the server counts only when the
  process was not asked to end.
\<close>

lemma serve_keeps_files: "st_files (snd (serve_homekit sys hap version st s)) = st_files s"
  by (simp add: serve_homekit_def setup_server_def MkdirAll_def Let_def)

lemma run_ended:
  "main sys hap version reads now args es s = Some (RunEnded, s') \<longleftrightarrow>
     (\<exists>fl st s1 s2 sv. parse_flags default_flags args = Inr fl \<and> \<not> fl_version fl
        \<and> run_start sys reads now (fl_config fl) es s = Some (Inr st, s1)
        \<and> setup_server sys version st s1 = (Inr sv, s2) \<and> s' = s2
        \<and> hl_new hap sv \<and> (hl_serve_fails hap sv \<longrightarrow> hl_done hap))"
  by (auto simp: main_def run_def serve_homekit_def split: sum.splits flag_error.splits option.splits prod.splits if_splits)

end
