(* ===== verification/Spec2Isabelle.thy ===== *)
theory Spec2Isabelle
  imports Report_Properties Mqtt_Properties System_Properties Command_Line
begin

text \<open>
  This development models and verifies the MGL03 HomeKit bridge, a Go program that runs on the
  Xiaomi Gateway 3: it subscribes to the openmiio reports of a local MQTT broker, decodes the
  advertisements of two Bluetooth products, a climate sensor and a toothbrush, and shows them to
  Apple HomeKit as accessories.  The operations are executable functions after the Go sources, what
  runs concurrently is a step relation over them, and the properties are proved about those.

  \<^bold>\<open>How the program's parts interact.\<close>  \<^verbatim>\<open>mqttmini.Client.Run\<close> keeps a session with the broker and
  hands the payload of every message to a handler, which runs \<^verbatim>\<open>openmiio.Parse\<close> and puts the updates
  into a queue of 128.  At the start \<^verbatim>\<open>run\<close> loads or creates the configuration, loads the device
  registry, merges and prepares the device list, lets \<^verbatim>\<open>discoverDevices\<close> read the queue for a
  while if nothing is known, saves the registry if that changed anything, and restores cached
  measurements.  From then on one goroutine, \<^verbatim>\<open>processUpdates\<close>, takes updates from the queue:
  it classifies the frame counter, merges the values into the cache and saves it, applies the
  update to the accessory of its device, and enrols devices it did not know.  A toothbrush also has a
  watchdog timer, whose callback runs beside that goroutine under the accessory's mutex.

  \<^bold>\<open>Theories and sources.\<close>
  \<^item> \<^verbatim>\<open>Prelude\<close>: collections of facts, machine integers of Go, durations and the clock, generic
    lemmas on lists and maps.  \<^verbatim>\<open>Go_Strings\<close>, \<^verbatim>\<open>Go_Text\<close>, \<^verbatim>\<open>Go_Path\<close>: what the program uses of
    \<^verbatim>\<open>strings\<close>, \<^verbatim>\<open>strconv\<close>, \<^verbatim>\<open>encoding/hex\<close>, \<^verbatim>\<open>regexp\<close> and \<^verbatim>\<open>path/filepath\<close>.  A Go string is a list of
    octets, \<^verbatim>\<open>go_string\<close>.
  \<^item> \<^verbatim>\<open>Go_Float\<close>, \<^verbatim>\<open>Go_Double\<close>, \<^verbatim>\<open>Go_Format\<close>: \<^verbatim>\<open>float64\<close> as exact rationals with infinities and
    NaN, rounding to nearest even, \<^verbatim>\<open>math.Float32frombits\<close>, reading decimals, and printing the
    shortest decimal that reads back as the same number.
  \<^item> \<^verbatim>\<open>Go_Json\<close>, \<^verbatim>\<open>Go_Utf8\<close>, \<^verbatim>\<open>Json_Text\<close>, \<^verbatim>\<open>Utf8_Strings\<close>: \<^verbatim>\<open>encoding/json\<close>.  \<^verbatim>\<open>Go_Json\<close> decodes a JSON
    value into Go structs by tables of fields; \<^verbatim>\<open>Json_Text\<close> scans and prints the text, with strings
    unquoted and quoted as in \<^verbatim>\<open>Go_Utf8\<close>; \<^verbatim>\<open>Utf8_Strings\<close> shows that every string that decoding yields,
    and what the program makes of it, is valid UTF-8.
  \<^item> \<^verbatim>\<open>Decoders\<close>, \<^verbatim>\<open>Products\<close>, \<^verbatim>\<open>Parser\<close>, \<^verbatim>\<open>Deduplicator\<close>: \<^verbatim>\<open>internal/openmiio\<close>, one theory for each of
    \<^verbatim>\<open>decoders.go\<close>, \<^verbatim>\<open>products.go\<close>, \<^verbatim>\<open>parser.go\<close> and \<^verbatim>\<open>deduplicator.go\<close>.  \<^verbatim>\<open>Report_Documents\<close> describes
    whole reports and what \<^verbatim>\<open>Parse\<close> makes of them.
  \<^item> \<^verbatim>\<open>Transition_Systems\<close>: invariants and simulations of step relations, as locales.
  \<^item> \<^verbatim>\<open>Bridge\<close>, \<^verbatim>\<open>Toothbrush\<close>, \<^verbatim>\<open>Toothbrush_Watchdog\<close>, \<^verbatim>\<open>Accessory\<close>: \<^verbatim>\<open>internal/bridge\<close>, that is
    \<^verbatim>\<open>sensor.go\<close> with the identities of \<^verbatim>\<open>device.go\<close>, \<^verbatim>\<open>toothbrush.go\<close> as functions, the same as a
    step relation with its timer, and the interface \<^verbatim>\<open>DeviceAccessory\<close> with its factories.
  \<^item> \<^verbatim>\<open>Config\<close>, \<^verbatim>\<open>Config_Correct\<close>, \<^verbatim>\<open>Config_Document\<close>: \<^verbatim>\<open>internal/config/config.go\<close>, its defaults,
    \<^verbatim>\<open>NormalizeAndValidate\<close> and PIN generation, their correctness, and the JSON document.
  \<^item> \<^verbatim>\<open>Measurements\<close>, \<^verbatim>\<open>File_Documents\<close>, \<^verbatim>\<open>Cache_Values\<close>: \<^verbatim>\<open>internal/measurements/state.go\<close>,
    \<^verbatim>\<open>Merge\<close> and \<^verbatim>\<open>Restore\<close>, the documents of the cache and of the registry, and the values a cache
    can come to hold.
  \<^item> \<^verbatim>\<open>File_Store\<close>, \<^verbatim>\<open>Stored_Data\<close>: the files, the system calls with their failures, and \<^verbatim>\<open>Load\<close> and
    \<^verbatim>\<open>Save\<close> of \<^verbatim>\<open>internal/registry/registry.go\<close> and of \<^verbatim>\<open>state.go\<close>, \<^verbatim>\<open>LoadOrCreate\<close> and \<^verbatim>\<open>writeJSON\<close>
    of \<^verbatim>\<open>config.go\<close>.
  \<^item> \<^verbatim>\<open>Devices\<close>, \<^verbatim>\<open>Restart\<close>, \<^verbatim>\<open>Runtime\<close>, \<^verbatim>\<open>Start_Up\<close>, \<^verbatim>\<open>Command_Line\<close>:
    \<^verbatim>\<open>cmd/mgl03-homekit-bridge/main.go\<close>, that is the device list, the same list after a restart, the
    queue (with its contract as a locale), discovery and consumer, \<^verbatim>\<open>run\<close> from the configuration to what the HomeKit server is given,
    and \<^verbatim>\<open>main\<close> with its flags and the exit status.
  \<^item> \<^verbatim>\<open>Decoded_Values\<close>, \<^verbatim>\<open>Stored_Values\<close>: whatever the files and the messages hold, the device lists and
    caches the program comes to hold can be stored without loss.
  \<^item> \<^verbatim>\<open>Bridge_System\<close>, \<^verbatim>\<open>Bridge_Runs\<close>, \<^verbatim>\<open>Bridge_Life\<close>, \<^verbatim>\<open>Bridge_Progress\<close>: the whole process.  The
    goroutines that \<^verbatim>\<open>run\<close> starts, the watchdog timers of \<^verbatim>\<open>toothbrush.go\<close> and \<^verbatim>\<open>Close\<close> as one step
    relation; that it refines the sequential consumer, the toothbrush of \<^verbatim>\<open>Toothbrush_Watchdog\<close> and
    the sequence of saves; a life of the process from the files it found; and what can always
    still happen.
  \<^item> \<^verbatim>\<open>Mqtt_Packets\<close>, \<^verbatim>\<open>Mqtt_Client\<close>: \<^verbatim>\<open>internal/mqttmini/client.go\<close>, the packets, and the session and
    reconnecting loops.
  \<^item> \<^verbatim>\<open>Report_Properties\<close>, \<^verbatim>\<open>Bridge_Properties\<close>, \<^verbatim>\<open>Mqtt_Properties\<close>, \<^verbatim>\<open>Storage_Properties\<close>,
    \<^verbatim>\<open>System_Properties\<close> and this theory state the properties, each with an instance;
    \<^verbatim>\<open>System_Properties\<close> those of the whole process, this theory those of its sequential parts.

  \<^bold>\<open>State.\<close>  A struct is a record with the same fields; a function that changes its receiver returns
  it updated; an error is the left side of a sum or a constructor in a list of errors.  Machine
  integers are words where the code computes with them (the frame counter, FNV-1a, timer
  generations) and integers with the range written out elsewhere.  The clock, random numbers, the
  events a \<^verbatim>\<open>select\<close> sees, the order of a \<^verbatim>\<open>range\<close> over a map and the outcome of every system call
  are arguments, so a theorem holds for all of them.  What the consumer does to one update is a
  function of its state.  What runs beside it is an inductive step relation: \<^verbatim>\<open>bridge_step\<close> of
  \<^verbatim>\<open>Bridge_System\<close> interleaves the MQTT handler, which puts updates into the queue one at a time,
  the consumer, which takes one and then works on it, the timers, whose callbacks that have
  started and wait for the mutex are part of the state, the passing of time, the end of the
  context and \<^verbatim>\<open>Close\<close>.  Accesses to an accessory hold its mutex and are single steps; all other state
  of the consumer is its own.
  The store remembers every state the files went through, so that statements about a process
  that dies range over all of them.

  \<^bold>\<open>What is shown.\<close>
  \<^item> Reports: every value \<^verbatim>\<open>Parse\<close> yields is in range; what each kind of report yields, exactly;
    duplicates and stale frames leave no trace; the wrapping counter agrees with one that does
    not wrap.
  \<^item> Accessories: the toothbrush implements an abstract session; motion is on exactly while a session
    is active, under every interleaving with the watchdog; the watchdog is neither early nor lost.
  \<^item> Device list and ids: the accessory ids are unique and never 0 or 1, discovery and enrolment
    keep them, and a restart gives every device its id again.
  \<^item> Files: a save happens completely or not at all at every moment, what was saved is loaded,
    through the JSON text; a configuration settles with the first start; damaged files do
    what they should.  The common contract of the three savers is a locale of \<^verbatim>\<open>Stored_Data\<close>,
    interpreted for each.
  \<^item> Cache: when \<^verbatim>\<open>Merge\<close> writes and what \<^verbatim>\<open>Restore\<close> gives back, alone and over a restart.
  \<^item> MQTT: packets are read back as they were written, a session delivers, acknowledges and pings,
    a deadline inside a packet tears it wherever it falls, and the waits between reconnections are bounded.
  \<^item> The consumer: what an accessory has seen after any run, and that every device is enrolled once.
  \<^item> The whole process, under every interleaving: the consumer's books are those of a sequential run,
    nothing overtakes in the queue and it stays within its capacity; the invariant of accessories,
    sessions, ids and device lists; an abandoned session can always be ended by the timers, and
    everything queued can always be worked on; and whenever the process ends, the files are
    complete and the next start has every device with its id.  What merging keeps of
    one cache, the consumer keeps of all of its caches, by a locale of \<^verbatim>\<open>Stored_Values\<close>.

  \<^bold>\<open>Bounds.\<close>  A loop that may not end is a partial function with \<^verbatim>\<open>None\<close> for not returning:
  \<^verbatim>\<open>next_candidate\<close>, the search for a free accessory id, which is proved to end while fewer than
  2147483646 ids are in use (the number of ids there are), and PIN generation, which returns once the
  random source has given enough different numbers.  \<^verbatim>\<open>CreateTemp\<close> gives up after 10000 names
  and the JSON decoder at a nesting of 10000, as the Go library does.  The loops of the MQTT client
  run over the list of what still arrives on the connection, or of the attempts to connect, and
  need no bound.  Theorems about long runs assume that fewer than 2147483646 devices and updates
  occur, for the same reason, and that the clock stays within \<^verbatim>\<open>int64\<close> seconds where times are stored.
  Those about the accessories of a running bridge assume that the cache of the start has its readings in
  range, which \<^verbatim>\<open>measurements.Load\<close> does not check; every cache that
  is saved by a process so started is of that kind again.
  The session of a toothbrush is exact up to the year 2262, and the frame counter within half a cycle.

  \<^bold>\<open>Not modelled.\<close>  Log lines, \<^verbatim>\<open>OnError\<close> and the text of \<^verbatim>\<open>-help\<close> included: they change no state of the
  program.  A signal is the step that ends the context.  Fields that are only returned, as by
  \<^verbatim>\<open>DeviceConfig\<close> and \<^verbatim>\<open>HAPAccessory\<close>, are read directly.  One reading of the clock stands for those that
  \<^verbatim>\<open>Toothbrush.Apply\<close> makes one after another for one update, and \<^verbatim>\<open>sort.Slice\<close> is a stable sort, which differs
  only between equal keys.  \<^verbatim>\<open>SetReadDeadline\<close> fails on a closed connection, which the model leaves to the
  read that follows; a missing file is reported as missing.  The HomeKit server \<^verbatim>\<open>github.com/brutella/hap\<close> and the vendored library for
  multicast DNS are other programs; the model ends with the characteristics the bridge sets and the
  values it hands to the server, and what the server answers is a parameter.  Directories, symbolic links and other processes that write the
  same files: a system call may fail for any reason, but the files it names belong to the program.
  The program calls no \<^verbatim>\<open>fsync\<close> in \<^verbatim>\<open>Save\<close> and \<^verbatim>\<open>writeJSON\<close>; the moments at which it may die are those
  of the process, and a power failure that loses data already written is not among them.
  Lower case and folding are those of ASCII, and of no other letters.  \<^verbatim>\<open>State\<close> methods
  on a nil pointer, which the program never has.  The installer and release scripts are Python and shell.
\<close>

section \<open>Examples\<close>

definition sensor_device :: device where
  "sensor_device = \<lparr>d_name = ''Sensor'', d_mac = ''aa:bb:cc:dd:ee:ff'', d_did = ''blt.3.test'',
     d_product_id = 5860, d_model = ''miaomiaoce.sensor_ht.o2'', d_aid = 5\<rparr>"

definition auto_config :: config where
  "auto_config = Defaults good_pin ''config.json''"

definition example_runtime :: runtime where
  "example_runtime = \<lparr>rt_accessories = [SensorAccessory (NewSensor sensor_device)],
     rt_dedup = NewDeduplicator (10 * minute), rt_unknown = {}, rt_devices = [sensor_device],
     rt_measurements = Map.empty, rt_registry_saves = [], rt_cache_saves = []\<rparr>"

definition example_clocks :: clocks where
  "example_clocks = \<lparr>ck_classify = 0, ck_merge = 0, ck_apply = 0\<rparr>"

lemma sensor_update_valid: "valid_update sensor_update"
  using Parse_cases [of sensor_update "\<lambda>_. 0" "Some (ble_doc sensor_report)"]
  by (auto simp: sensor_report_parsed ble_update_ok_def miot_update_ok_def)

lemma sensor_device_ready: "ready {} [sensor_device]"
  by (simp add: ready_def settled_def infer_product_def infer_product_id_def infer_model_def
      sensor_device_def)

lemma example_runtime_inv: "runtime_inv [sensor_device] [sensor_device] example_runtime"
  by (simp add: runtime_inv_def example_runtime_def NewSensor_valid sensor_device_ready)
     (simp add: NewSensor_def)

lemma auto_config_mode: "ds_mode (c_discovery auto_config) = DiscoveryModeAuto"
  by (simp add: auto_config_def Defaults_def)

section \<open>Properties of the running bridge\<close>

text \<open>
  C3. What an accessory has seen after a run is exactly the updates that match its device and
  that the frame counters let through (accepted ones, and duplicates of a toothbrush start), in
  order; in particular its battery level is that of the last such update with one.
\<close>

theorem accessory_sees_accepted:
  assumes "process_run cfg path us rt = Some rt'" and "i < length (rt_accessories rt)"
  shows "rt_accessories rt' ! i
      = foldl (\<lambda>a (now, u). accessory_Apply now u a) (rt_accessories rt ! i)
          (deliveries (rt_accessories rt) i (rt_dedup rt) us)
    \<and> bs_level (accessory_battery (rt_accessories rt' ! i))
      = last_value (\<lambda>(now, u). u_battery u) (bs_level (accessory_battery (rt_accessories rt ! i)))
          (deliveries (rt_accessories rt) i (rt_dedup rt) us)"
  using process_run_accessory [OF assms] process_run_level [OF assms] by blast

lemma sensor_update_matches: "matchAccessory (rt_accessories example_runtime) sensor_update = Some 0"
  by (simp add: matchAccessory_def example_runtime_def NewSensor_def matches_def sensor_update_def
      sensor_device_def)

lemma sensor_update_accepted: "fst (Classify now (NewDeduplicator reset) sensor_update) = FrameAccepted"
  by (simp add: Classify_def NewDeduplicator_def Let_def)

theorem accessory_sees_accepted_witness:
  "\<exists>rt'. process_run auto_config [] [(example_clocks, sensor_update)] example_runtime = Some rt'
     \<and> bs_level (accessory_battery (rt_accessories rt' ! 0)) = Some 88"
proof -
  have run: "\<exists>rt'. process_run auto_config [] [(example_clocks, sensor_update)] example_runtime = Some rt'"
    using process_run_inv [OF example_runtime_inv, of "[(example_clocks, sensor_update)]" auto_config "[]"]
    by (auto simp: sensor_update_valid example_runtime_def)
  then obtain rt' where rt': "process_run auto_config [] [(example_clocks, sensor_update)] example_runtime = Some rt'"
    by blast
  have "deliveries (rt_accessories example_runtime) 0 (rt_dedup example_runtime) [(example_clocks, sensor_update)]
      = [(0, sensor_update)]"
    using sensor_update_accepted [of 0 "10 * minute"]
    by (simp add: sensor_update_matches delivered_by_def example_clocks_def Let_def case_prod_beta')
       (simp add: example_runtime_def)
  moreover have "u_battery sensor_update = Some 88"
    by (simp add: sensor_update_def)
  moreover have "0 < length (rt_accessories example_runtime)"
    by (simp add: example_runtime_def)
  ultimately have "bs_level (accessory_battery (rt_accessories rt' ! 0)) = Some 88"
    using conjunct2 [OF accessory_sees_accepted [OF rt', of 0]]
    by (simp only: last_value_Cons last_value_Nil prod.case option.case)
  with rt' show ?thesis
    by blast
qed

text \<open>
  C19. A stale frame, or a duplicate that is not a toothbrush start, leaves no trace: accessories,
  device list, caches, files and frame counters are all as before.
\<close>

theorem rejected_frame_no_trace:
  assumes "\<not> delivered_by (fst (Classify (ck_classify ck) (rt_dedup rt) u)) u"
  shows "process_update cfg path ck u rt = Some rt"
  using assms by (rule process_update_rejected)

definition seen_runtime :: runtime where
  "seen_runtime = example_runtime\<lparr>rt_dedup := snd (Classify 0 (NewDeduplicator (10 * minute)) sensor_update)\<rparr>"

theorem rejected_frame_no_trace_witness:
  "process_update auto_config ''m'' example_clocks sensor_update seen_runtime = Some seen_runtime"
proof (rule rejected_frame_no_trace)
  have "tracked sensor_update" and "u_frame_count sensor_update = 36"
    by (simp_all add: tracked_def frame_key_def sensor_update_def to_lower_def)
  then have "fst (Classify 0 (snd (Classify 0 (NewDeduplicator (10 * minute)) sensor_update)) sensor_update)
      = FrameDuplicate"
    by (simp add: Classify_tracked NewDeduplicator_def fresh_def time_sub_def)
  then show "\<not> delivered_by (fst (Classify (ck_classify example_clocks) (rt_dedup seen_runtime) sensor_update)) sensor_update"
    by (simp add: delivered_by_def seen_runtime_def example_clocks_def is_start_def sensor_update_def)
qed

text \<open>
  C29. Automatic enrolment happens once per device: over any run the device list only grows at its
  end, and the devices added have pairwise different keys, none of which was known before.
\<close>

theorem enrolled_once:
  assumes "process_run cfg path us rt = Some rt'"
    and "ready {} (rt_devices rt)" and "length (rt_devices rt) + length us < 2147483646"
  shows "\<exists>es. rt_devices rt' = rt_devices rt @ es \<and> distinct (map device_unknown_key es)
    \<and> (\<forall>d \<in> set es. device_unknown_key d \<notin> rt_unknown rt)"
  using assms by (rule process_run_enrolls)

theorem enrolled_once_witness:
  "\<exists>rt' es. process_run auto_config ''m'' [(example_clocks, start_update), (example_clocks, start_update)]
       example_runtime = Some rt' \<and> rt_devices rt' = sensor_device # es \<and> distinct (map device_unknown_key es)"
proof -
  obtain rt' where rt': "process_run auto_config ''m''
      [(example_clocks, start_update), (example_clocks, start_update)] example_runtime = Some rt'"
    using process_run_inv [OF example_runtime_inv,
        of "[(example_clocks, start_update), (example_clocks, start_update)]" auto_config "''m''"]
    by (auto simp: start_update_valid example_runtime_def)
  have "rt_devices example_runtime = [sensor_device]"
    by (simp add: example_runtime_def)
  with enrolled_once [OF rt'] rt' show ?thesis
    by (auto simp: sensor_device_ready)
qed

text \<open>
  C37. The documented exception for duplicates is wider in the code: an exact duplicate of a start
  frame, whose toothbrush is inactive, begins a new session and shows motion (as long as its
  time stamp is live), instead of only refreshing a session that is active.
\<close>

theorem duplicate_start_begins_session:
  assumes "fst (Classify (ck_classify ck) (rt_dedup rt) u) = FrameDuplicate"
    and "matchAccessory (rt_accessories rt) u = Some i"
    and "rt_accessories rt ! i = ToothbrushAccessory t" and "\<not> t_active t"
    and "u_toothbrush u = Some e" and "tb_type e = 0" and "raw_live (reference_time (ck_apply ck) u) e"
  shows "\<exists>rt' t'. process_update cfg path ck u rt = Some rt' \<and> rt_accessories rt' ! i = ToothbrushAccessory t'
    \<and> t_active t' \<and> t_motion t' = Some True"
proof -
  have i: "i < length (rt_accessories rt)"
    using assms(2) by (rule matchAccessory_Some)
  let ?t = "toothbrush_Apply (ck_apply ck) u t"
  have "t_active ?t \<and> t_motion ?t = Some True"
    using assms(4-7) by (simp add: toothbrush_Apply_def startEvent_def armWatchdog_def Let_def)
  moreover obtain dd where "Classify (ck_classify ck) (rt_dedup rt) u = (FrameDuplicate, dd)"
    using assms(1) by (metis prod.collapse)
  then have "process_update cfg path ck u rt = Some (apply_at (ck_apply ck) u i (rt\<lparr>rt_dedup := dd\<rparr>))"
    using assms(2,5,6) by (simp add: process_update_def is_start_def)
  ultimately show ?thesis
    using i assms(3) by simp
qed

definition brush_runtime :: runtime where
  "brush_runtime = \<lparr>rt_accessories = [ToothbrushAccessory (NewToothbrush brush_device)],
     rt_dedup = snd (Classify 0 (NewDeduplicator (10 * minute)) start_update), rt_unknown = {},
     rt_devices = [brush_device], rt_measurements = Map.empty, rt_registry_saves = [], rt_cache_saves = []\<rparr>"

theorem duplicate_start_begins_session_witness:
  "\<exists>rt' t'. process_update auto_config ''m'' example_clocks start_update brush_runtime = Some rt'
    \<and> rt_accessories rt' ! 0 = ToothbrushAccessory t' \<and> t_active t' \<and> t_motion t' = Some True"
proof (rule duplicate_start_begins_session [where t = "NewToothbrush brush_device"
      and e = "\<lparr>tb_type = 0, tb_timestamp = 1786207643, tb_score = None\<rparr>"])
  have "tracked start_update" and "u_frame_count start_update = 234"
    by (simp_all add: tracked_def frame_key_def start_update_def to_lower_def)
  then show "fst (Classify (ck_classify example_clocks) (rt_dedup brush_runtime) start_update) = FrameDuplicate"
    by (simp add: Classify_tracked NewDeduplicator_def fresh_def time_sub_def brush_runtime_def example_clocks_def)
  show "matchAccessory (rt_accessories brush_runtime) start_update = Some 0"
    by (simp add: matchAccessory_def brush_runtime_def NewToothbrush_def matches_def start_update_def brush_device_def)
  show "raw_live (reference_time (ck_apply example_clocks) start_update)
      \<lparr>tb_type = 0, tb_timestamp = 1786207643, tb_score = None\<rparr>"
    by (simp add: raw_live_def reference_time_def start_update_def wrap_simps toothbrush_durations)
qed (simp_all add: brush_runtime_def NewToothbrush_def start_update_def)

section \<open>Properties of start-up\<close>

text \<open>
  Whatever the configuration and the registry hold and whatever discovery finds, the
  accessories handed to HomeKit have pairwise different ids, all different from the bridge's own
  id 1, and every accessory starts in a consistent state.
\<close>

theorem startup_ids_unique:
  assumes "startup cfg saved es = Some (ds, s)"
    and "length (mergeDevices (c_devices cfg) saved) + length es < 2147483646"
  shows "distinct (1 # map accessory_aid (make_accessories ds))
    \<and> (\<forall>a \<in> set (make_accessories ds). accessory_ok a)"
proof -
  have "ready {} ds"
    using assms by (rule startup_ready)
  then have "distinct (map accessory_aid (make_accessories ds))"
    by (rule make_accessories_aids)
  moreover have "2 \<le> accessory_aid a \<and> accessory_ok a" if "a \<in> set (make_accessories ds)" for a
    using make_accessories_ok [OF that] accessoryID_not_bridge [of "DeviceConfig a"] by simp
  ultimately show ?thesis
    by fastforce
qed

definition twin_device :: device where
  "twin_device = \<lparr>d_name = ''Twin'', d_mac = ''11:22:33:44:55:66'', d_did = [],
     d_product_id = 6032, d_model = ''k0918.toothbrush.t700i'', d_aid = 5\<rparr>"

lemma twin_startup:
  "\<exists>ds s. startup auto_config [sensor_device, twin_device] [] = Some (ds, s) \<and> length (make_accessories ds) = 2"
proof -
  have merge: "mergeDevices (c_devices auto_config) [sensor_device, twin_device] = [sensor_device, twin_device]"
    by (simp add: mergeDevices_eq add_new_def auto_config_def Defaults_def deviceKey_def conflict_def
        sensor_device_def twin_device_def to_lower_def lower_char_def char_code_def)
  obtain ds c where prep: "prepareDevices [sensor_device, twin_device] = Some (ds, c)"
    and same: "list_all2 same_device [sensor_device, twin_device] ds"
    using prepare_loop_ready [of "{}" "[sensor_device, twin_device]"] by (auto simp: prepareDevices_def)
  from same obtain d1 d2 where ds: "ds = [d1, d2]" and d1: "same_device sensor_device d1"
    and d2: "same_device twin_device d2"
    by (auto simp: list_all2_Cons1)
  have "d_product_id d1 = 5860" "d_product_id d2 = 6032"
    using d1 d2 by (simp_all add: same_device_def sensor_device_def twin_device_def)
  then have known: "productForDevice d1 \<noteq> None" "productForDevice d2 \<noteq> None"
    by (simp_all add: productForDevice_def LookupProduct_eq)
  have "length (make_accessories xs) = 2" if "xs = [d1, d2] \<or> xs = [d2, d1]" for xs
    using that known
    by (auto simp: make_accessories_Cons NewDeviceAccessory_eq make_accessories_def [of "[]"]
        List.map_filter_simps)
  moreover have "sort_key deviceKey [d1, d2] = [d1, d2] \<or> sort_key deviceKey [d1, d2] = [d2, d1]"
    by (simp add: sort_key_def)
  ultimately show ?thesis
    using prep ds by (auto simp: startup_def merge discoverDevices_def)
qed

text \<open>
  C28. What discovery returns: every device is of a supported product and so becomes an accessory,
  no two entries are the same device, accessory ids are valid and unique, and every update it
  kept for later belongs to one of the devices.
\<close>

theorem discovery_result:
  assumes "discoverDevices cfg dd [] es = Some s" and "length es < 2147483646"
  shows "ready {} (di_devices s) \<and> separate (di_devices s)
    \<and> (\<forall>d \<in> set (di_devices s). \<not> isl (NewDeviceAccessory d))
    \<and> (\<forall>key u. di_initial s key = Some u \<longrightarrow> (\<exists>d \<in> set (di_devices s). matches u d))"
proof -
  have "discovery_inv s"
  proof (cases "ds_mode (c_discovery cfg) = DiscoveryModeManual")
    case True
    with assms(1) discovery_inv_init [of dd] show ?thesis
      by (auto simp: discoverDevices_def)
  next
    case False
    with assms show ?thesis
      by (intro discover_loop_inv [OF _ discovery_inv_init]) (auto simp: discoverDevices_def)
  qed
  then show ?thesis
    unfolding discovery_inv_def by (auto simp: NewDeviceAccessory_eq)
qed

lemma sensor_update_supported: "supportedDiscoveryUpdate sensor_update"
  by (simp add: supportedDiscoveryUpdate_def SupportedProduct_def LookupProduct_eq sensor_update_def)

definition empty_discovery :: discovery_state where
  "empty_discovery = \<lparr>di_devices = [], di_initial = Map.empty, di_dedup = NewDeduplicator (10 * minute),
     di_discovered = False, di_timer = False\<rparr>"

lemma sensor_update_finds: "finds empty_discovery 0 sensor_update"
  using sensor_update_accepted [of 0 "10 * minute"] sensor_update_supported
  by (simp add: finds_def empty_discovery_def Accept_def findDevice_def case_prod_beta')

lemma sensor_discovered:
  "\<exists>s d. discoverDevices auto_config (NewDeduplicator (10 * minute)) [] [Received 0 sensor_update, WindowElapsed]
     = Some s \<and> di_devices s = [d]"
proof -
  have "discovery_inv empty_discovery"
    unfolding empty_discovery_def by (rule discovery_inv_init)
  from discover_update_finds [OF sensor_update_finds this, of DiscoveryModeAuto]
  obtain s d where "discover_update DiscoveryModeAuto 0 sensor_update empty_discovery = Some (s, False)"
    and "di_devices s = [d]" and "di_timer s"
    by (auto simp: empty_discovery_def DiscoveryModeAuto_def DiscoveryModeFirst_def)
  then show ?thesis
    using auto_config_mode
    by (simp add: discoverDevices_def empty_discovery_def DiscoveryModeAuto_def DiscoveryModeManual_def)
qed

theorem discovery_result_witness:
  "\<exists>s d. discoverDevices auto_config (NewDeduplicator (10 * minute)) [] [Received 0 sensor_update, WindowElapsed]
     = Some s \<and> di_devices s = [d] \<and> \<not> isl (NewDeviceAccessory d)"
proof -
  obtain s d where s: "discoverDevices auto_config (NewDeduplicator (10 * minute)) []
      [Received 0 sensor_update, WindowElapsed] = Some s" and "di_devices s = [d]"
    using sensor_discovered by blast
  with discovery_result [OF s] show ?thesis
    by auto
qed

text \<open>
  Discovery ends: the first update of a new supported device adds exactly one device, which
  the update matches; in the mode \<^verbatim>\<open>first\<close> the function then returns, and in the other modes it
  returns when the window's timer fires.
\<close>

theorem discovery_ends:
  assumes "finds s now u" and "discovery_inv s" and "length (di_devices s) < 2147483646"
  shows "\<exists>s' d. discover_loop mode s (Received now u # (if mode = DiscoveryModeFirst then es else WindowElapsed # es))
      = Some s' \<and> di_devices s' = di_devices s @ [d] \<and> matches u d"
  using discover_update_finds [OF assms, of mode] by auto

text \<open>
  The queue to the consumer never holds more than 128 updates and never reorders, whatever the
  octets of a message: the updates
  parsed from them are appended in order while there is room, and the rest are dropped.
\<close>

theorem queue_bounded:
  "q_updates (mqtt_handler conv now payload q)
      = q_updates q @ take (queue_capacity - length (q_updates q)) (fst (Parse conv (parse_json payload)))
    \<and> length (q_updates (mqtt_handler conv now payload q)) \<le> max queue_capacity (length (q_updates q))"
  by (simp add: mqtt_handler_def handle_payload_def updates.enq_all)

text \<open>
  C32. Preparing the device list always ends: every device keeps its name and identity and its
  product if it had one, ids become valid and unique, the flag is set whenever anything changed,
  preparing again changes nothing, and a device enrolled later leaves the others as they are.
\<close>

theorem prepared_devices:
  assumes "length ds < 2147483646"
  shows "\<exists>ds' c. prepareDevices ds = Some (ds', c) \<and> ready {} ds' \<and> list_all2 same_device ds ds'
    \<and> (\<not> c \<longrightarrow> ds' = ds) \<and> prepareDevices ds' = Some (ds', False)
    \<and> (\<exists>e. appendDeviceWithAID ds' d = Some (ds' @ [e]) \<and> same_device d e)"
proof -
  obtain ds' c where p: "prepare_loop {} ds = Some (ds', c)" and ready: "ready {} ds'"
    and same: "list_all2 same_device ds ds'" and c: "\<not> c \<longrightarrow> ds' = ds"
    using prepare_loop_ready [of "{}" ds] assms by auto
  have "length ds' < 2147483646"
    using same assms by (simp add: list_all2_lengthD)
  from append_ready [OF ready this] p ready same c prepare_loop_settled [OF ready] show ?thesis
    unfolding prepareDevices_def by blast
qed

theorem prepared_devices_witness:
  "\<exists>d1 d2 c. prepareDevices [sensor_device, twin_device] = Some ([d1, d2], c)
     \<and> d_aid d1 \<noteq> d_aid d2 \<and> 2 \<le> d_aid d1 \<and> 2 \<le> d_aid d2"
proof -
  obtain ds c where "prepareDevices [sensor_device, twin_device] = Some (ds, c)" and "ready {} ds"
    and "list_all2 same_device [sensor_device, twin_device] ds"
    using prepared_devices [of "[sensor_device, twin_device]" twin_device] by auto
  then show ?thesis
    by (auto simp: list_all2_Cons1 ready_def)
qed

text \<open>
  Merging keeps the configured devices in front and unchanged, adds registered ones in their
  order, loses no registered device that has an identity, adds none that is already there, and
  is stable: merging the same registry again adds nothing.
\<close>

theorem merged_devices:
  "(\<exists>es. mergeDevices configured saved = configured @ es \<and> subseq es saved)
    \<and> (\<forall>d \<in> set saved. deviceKey d \<noteq> [] \<longrightarrow> (\<exists>e \<in> set (mergeDevices configured saved). conflict e d))
    \<and> (separate configured \<longrightarrow> separate (mergeDevices configured saved))
    \<and> mergeDevices (mergeDevices configured saved) saved = mergeDevices configured saved"
proof -
  have covers: "\<exists>e \<in> set (foldl add_new configured saved). conflict e d"
    if "d \<in> set saved" "deviceKey d \<noteq> []" for d
    using that by (rule add_new_covers)
  then have "foldl add_new (foldl add_new configured saved) saved = foldl add_new configured saved"
    by (rule add_new_covered)
  with covers add_new_prefix add_new_separate show ?thesis
    unfolding mergeDevices_eq by blast
qed

end
